(* ===== verification/Kprelude.thy ===== *)
theory Kprelude
  imports Main "HOL-Library.Word"
begin

text \<open>
  Shared vocabulary of the development.

  \<^item> Machine integers: \<open>byte\<close>, \<open>u16\<close>, \<open>u32\<close>, \<open>u64\<close> are the C types \<open>uchar\<close>,
    \<open>ushort\<close>, \<open>uint\<close> and \<open>uint64\<close> of \<open>kernel/types.h\<close>. A C \<open>int\<close> that the kernel
    only counts with (process ids, reference counts, exit codes) is an \<open>int\<close>; where a
    register is narrowed to an \<open>int\<close> the conversion \<open>cint\<close> is written out.
  \<^item> Outcomes: every kernel routine is a function from a state to a \<open>res\<close>. \<open>Ok a s\<close> is a
    normal return of \<open>a\<close> in state \<open>s\<close>, \<open>Panic\<close> a call of the kernel's \<open>panic\<close>,
    \<open>Sleep c s\<close> a call of \<open>sleep\<close> on channel \<open>c\<close> (the routine is suspended there in
    state \<open>s\<close>), \<open>Resched s\<close> a switch to the scheduler by \<open>yield\<close> or \<open>kexit\<close>, and \<open>Fault\<close> an access that the C standard leaves undefined (a null
    pointer, an index outside its array).
  \<^item> \<open>andthen\<close> runs two routines in sequence and stops at the first that does not return.
  \<^item> Byte strings: \<open>le_bytes\<close> and \<open>of_le\<close> are the little-endian layout the RISC-V target
    uses for every integer that lives in memory or on disk.
\<close>

unbundle bit_operations_syntax

section \<open>Types\<close>

type_synonym byte = "8 word"
type_synonym u16 = "16 word"
type_synonym u32 = "32 word"
type_synonym u64 = "64 word"

text \<open>
  Wait channels. The kernel sleeps on the address of some object and only compares
  channels for equality, so a channel is the name of the object.
\<close>

datatype chan =
    ChProc nat
  | ChTicks
  | ChLog
  | ChPipeRead u64
  | ChPipeWrite u64
  | ChBufLock nat
  | ChInodeLock nat
  | ChConsole
  | ChUart
  | ChDiskFree
  | ChDiskBuf nat

datatype ('a, 's) res = Ok 'a 's | Panic string | Sleep chan 's | Resched 's | Fault string

fun andthen :: "('a, 's) res \<Rightarrow> ('a \<Rightarrow> 's \<Rightarrow> ('b, 's) res) \<Rightarrow> ('b, 's) res" where
  "andthen (Ok a s) f = f a s"
| "andthen (Panic m) f = Panic m"
| "andthen (Sleep c s) f = Sleep c s"
| "andthen (Resched s) f = Resched s"
| "andthen (Fault m) f = Fault m"

text \<open>The narrowing of a register to a C \<open>int\<close>, and the register an \<open>int\<close> result becomes.\<close>

definition cint :: "u64 \<Rightarrow> int" where
  "cint w = sint (ucast w :: u32)"

definition int_reg :: "int \<Rightarrow> u64" where
  "int_reg i = word_of_int i"

definition list_modify :: "nat \<Rightarrow> ('a \<Rightarrow> 'a) \<Rightarrow> 'a list \<Rightarrow> 'a list" where
  "list_modify i f xs = xs[i := f (xs ! i)]"

text \<open>The first index at or after \<open>i\<close> at which \<open>P\<close> holds: the kernel's table scans.\<close>

fun find_from :: "('a \<Rightarrow> bool) \<Rightarrow> nat \<Rightarrow> 'a list \<Rightarrow> nat option" where
  "find_from P i [] = None"
| "find_from P i (x # xs) = (if P x then Some i else find_from P (Suc i) xs)"

abbreviation find_idx :: "('a \<Rightarrow> bool) \<Rightarrow> 'a list \<Rightarrow> nat option" where
  "find_idx P xs \<equiv> find_from P 0 xs"

definition le_bytes :: "nat \<Rightarrow> 'a::len word \<Rightarrow> byte list" where
  "le_bytes n w = map (\<lambda>i. ucast (drop_bit (8 * i) w)) [0..<n]"

text \<open>The bytes of a C string literal, without its NUL.\<close>

definition ascii :: "string \<Rightarrow> byte list" where
  "ascii cs = map of_char cs"

fun of_le :: "byte list \<Rightarrow> 'a::len word" where
  "of_le [] = 0"
| "of_le (b # bs) = ucast b OR push_bit 8 (of_le bs)"

section \<open>Sequencing\<close>

named_theorems res_simps \<open>rewriting of sequenced kernel routines\<close>

lemma andthen_eq_Ok [res_simps]:
  "andthen r f = Ok b t \<longleftrightarrow> (\<exists>a s. r = Ok a s \<and> f a s = Ok b t)"
  by (cases r) auto

lemma andthen_eq_Panic [res_simps]:
  "andthen r f = Panic m \<longleftrightarrow> r = Panic m \<or> (\<exists>a s. r = Ok a s \<and> f a s = Panic m)"
  by (cases r) auto

lemma andthen_eq_Fault [res_simps]:
  "andthen r f = Fault m \<longleftrightarrow> r = Fault m \<or> (\<exists>a s. r = Ok a s \<and> f a s = Fault m)"
  by (cases r) auto

lemma andthen_eq_Sleep [res_simps]:
  "andthen r f = Sleep c t \<longleftrightarrow> r = Sleep c t \<or> (\<exists>a s. r = Ok a s \<and> f a s = Sleep c t)"
  by (cases r) auto

lemma andthen_eq_Resched [res_simps]:
  "andthen r f = Resched t \<longleftrightarrow> r = Resched t \<or> (\<exists>a s. r = Ok a s \<and> f a s = Resched t)"
  by (cases r) auto

lemma andthen_assoc: "andthen (andthen r f) g = andthen r (\<lambda>a s. andthen (f a s) g)"
  by (cases r) auto

lemma andthen_cong [fundef_cong]:
  "r = r' \<Longrightarrow> (\<And>a s. r' = Ok a s \<Longrightarrow> f a s = g a s) \<Longrightarrow> andthen r f = andthen r' g"
  by (cases r') auto

section \<open>Lists\<close>

lemma length_list_modify [simp]: "length (list_modify i f xs) = length xs"
  by (simp add: list_modify_def)

lemma nth_list_modify [simp]:
  "j < length xs \<Longrightarrow> list_modify i f xs ! j = (if i = j then f (xs ! j) else xs ! j)"
  by (simp add: list_modify_def nth_list_update)

lemma map_list_modify:
  "(\<And>x. g (f x) = g x) \<Longrightarrow> map g (list_modify i f xs) = map g xs"
  by (cases "i < length xs") (auto simp: list_modify_def map_update list_update_same_conv list_update_beyond)

lemma set_list_modify: "set (list_modify i f xs) \<subseteq> insert (f (xs ! i)) (set xs)"
  unfolding list_modify_def by (rule set_update_subset_insert)

lemma find_from_SomeD:
  "find_from P i xs = Some j \<Longrightarrow>
     i \<le> j \<and> j - i < length xs \<and> P (xs ! (j - i)) \<and> (\<forall>k < j - i. \<not> P (xs ! k))"
proof (induction xs arbitrary: i)
  case Nil
  then show ?case by simp
next
  case (Cons x xs)
  show ?case
  proof (cases "P x")
    case True
    with Cons.prems show ?thesis by simp
  next
    case False
    with Cons.prems have "find_from P (Suc i) xs = Some j" by simp
    from Cons.IH [OF this] False show ?thesis
      by (auto simp: nth_Cons' Suc_diff_le less_Suc_eq_0_disj split: if_splits)
        (metis Suc_diff_Suc Suc_le_lessD diff_Suc_Suc less_Suc_eq_0_disj not_less_eq nth_Cons_Suc)+
  qed
qed

lemma find_from_None_iff: "find_from P i xs = None \<longleftrightarrow> (\<forall>x \<in> set xs. \<not> P x)"
  by (induction xs arbitrary: i) auto

lemma find_idx_SomeD:
  assumes "find_idx P xs = Some j"
  shows "j < length xs" and "P (xs ! j)" and "k < j \<Longrightarrow> \<not> P (xs ! k)"
  using find_from_SomeD [OF assms] by auto

lemma find_idx_unique:
  assumes "i < length xs" and "P (xs ! i)"
    and "\<And>j. j < length xs \<Longrightarrow> P (xs ! j) \<Longrightarrow> j = i"
  shows "find_idx P xs = Some i"
proof -
  have "find_idx P xs \<noteq> None"
    using assms(1,2) by (metis find_from_None_iff nth_mem)
  then obtain j where j: "find_idx P xs = Some j" by auto
  then have "j < length xs" and "P (xs ! j)"
    by (rule find_idx_SomeD)+
  with assms(3) j show ?thesis by simp
qed

section \<open>Little-endian byte strings\<close>

lemma length_le_bytes [simp]: "length (le_bytes n w) = n"
  by (simp add: le_bytes_def)

lemma nth_le_bytes [simp]: "i < n \<Longrightarrow> le_bytes n w ! i = ucast (drop_bit (8 * i) w)"
  by (simp add: le_bytes_def)

lemma bit_of_le:
  "bit (of_le bs :: 'a::len word) k \<longleftrightarrow>
     k < LENGTH('a) \<and> k div 8 < length bs \<and> bit (bs ! (k div 8)) (k mod 8)"
proof (induction bs arbitrary: k)
  case Nil
  then show ?case by simp
next
  case (Cons b bs)
  show ?case
  proof (cases "k < 8")
    case True
    then show ?thesis
      by (auto simp: bit_or_iff bit_push_bit_iff bit_ucast_iff)
  next
    case False
    then have k: "k div 8 = Suc ((k - 8) div 8)" "(k - 8) mod 8 = k mod 8"
      by (auto simp: le_div_geq le_mod_geq)
    from False have "\<not> bit b k"
      using bit_imp_le_length [of b k] by auto
    with False Cons.IH [of "k - 8"] k show ?thesis
      by (auto simp: bit_or_iff bit_push_bit_iff bit_ucast_iff)
  qed
qed

lemma of_le_le_bytes:
  "LENGTH('a) \<le> 8 * n \<Longrightarrow> of_le (le_bytes n (w :: 'a::len word)) = w"
proof (rule bit_word_eqI)
  fix k
  assume n: "LENGTH('a) \<le> 8 * n" and k: "k < LENGTH('a)"
  then have "k div 8 < n" by auto
  then show "bit (of_le (le_bytes n w) :: 'a word) k = bit w k"
    using k by (simp add: bit_of_le bit_ucast_iff bit_drop_bit_eq)
qed

lemma le_bytes_of_le:
  "LENGTH('a) = 8 * length bs \<Longrightarrow> le_bytes (length bs) (of_le bs :: 'a::len word) = bs"
proof (rule nth_equalityI)
  fix i
  assume n: "LENGTH('a) = 8 * length bs" and "i < length (le_bytes (length bs) (of_le bs :: 'a word))"
  then have i: "i < length bs" by simp
  show "le_bytes (length bs) (of_le bs :: 'a word) ! i = bs ! i"
  proof (rule bit_word_eqI)
    fix k
    assume "k < LENGTH(8)"
    then have "k < 8" by simp
    moreover from this have "(8 * i + k) div 8 = i" and "(8 * i + k) mod 8 = k" by auto
    ultimately show "bit (le_bytes (length bs) (of_le bs :: 'a word) ! i) k = bit (bs ! i) k"
      using i n by (auto simp: bit_of_le bit_ucast_iff bit_drop_bit_eq)
  qed
qed simp

section \<open>Words\<close>

lemma unat_of_nat_small: "n < 2 ^ LENGTH('a) \<Longrightarrow> unat (of_nat n :: 'a::len word) = n"
  by (simp add: unat_of_nat take_bit_nat_eq_self)

lemma unat_add_small:
  "unat a + unat b < 2 ^ LENGTH('a) \<Longrightarrow> unat (a + b :: 'a::len word) = unat a + unat b"
  by (rule unat_add_lem [THEN iffD1])

lemma unat_add_of_nat:
  "unat a + n < 2 ^ LENGTH('a) \<Longrightarrow> unat (a + of_nat n :: 'a::len word) = unat a + n"
  by (subst unat_add_small) (auto simp: unat_of_nat_small)

lemma unat_u64_less: "unat (x :: u64) < 18446744073709551616"
proof -
  have "unat x < 2 ^ LENGTH(64)" by (rule unsigned_less)
  then show ?thesis by simp
qed

lemma unat_u32_less: "unat (x :: u32) < 4294967296"
proof -
  have "unat x < 2 ^ LENGTH(32)" by (rule unsigned_less)
  then show ?thesis by simp
qed

lemma unat_eq_of_nat: "unat w = n \<Longrightarrow> (w :: 'a::len word) = of_nat n"
  by auto

lemma unat_diff_eq: "unat (x - d) = n \<Longrightarrow> (x :: 'a::len word) = d + of_nat n"
  by (drule unat_eq_of_nat) (simp add: algebra_simps)

lemma unat_max: "unat (- 1 :: 'w::len word) = 2 ^ LENGTH('w) - 1"
  by (simp only: unsigned_minus_1_eq_mask mask_eq_exp_minus_1)

text \<open>A 32-bit counter that indexes a ring whose size is a power of two.\<close>

lemma unat_add_mod_ring:
  assumes "j \<le> 32"
  shows "unat (n + of_nat k :: u32) mod 2 ^ j = (unat n + k) mod 2 ^ j"
proof -
  have "(2 :: nat) ^ j dvd 2 ^ 32" using assms by (rule le_imp_power_dvd)
  then have "(unat n + k) mod 2 ^ 32 mod 2 ^ j = (unat n + k) mod 2 ^ j" by (rule mod_mod_cancel)
  moreover have "unat (n + of_nat k) = (unat n + k) mod 2 ^ 32"
    by (simp add: unat_word_ariths unat_of_nat take_bit_eq_mod mod_simps)
  ultimately show ?thesis by simp
qed

lemma ring_positions_distinct: "(a :: nat) < b \<Longrightarrow> b < a + m \<Longrightarrow> (r + a) mod m \<noteq> (r + b) mod m"
proof
  assume ab: "a < b" "b < a + m" and "(r + a) mod m = (r + b) mod m"
  then have "m dvd (r + b) - (r + a)" by (subst mod_eq_dvd_iff_nat [symmetric]) simp_all
  with ab show False by (auto dest: dvd_imp_le)
qed

end
