(* ===== verification/Cstring.thy ===== *)
theory Cstring
  imports Kprelude
begin

text \<open>
  The memory and string routines of \<open>kernel/string.c\<close>. A \<open>memory\<close> is the flat byte
  memory the kernel addresses; a routine that only reads through a pointer takes a
  \<open>view\<close> of it, the function from an offset to the byte there, so that the same model
  serves a pointer into memory (\<open>at_mem\<close>) and a pointer to a kernel buffer
  (\<open>at_list\<close>). A routine that fills a buffer returns the bytes it stores, in order.
  The lemmas show that \<open>memmove\<close> copies correctly whether or not the two ranges
  overlap, that the bounded string copies store no more than they may and terminate
  their result, and that the comparisons decide equality of C strings.
\<close>

type_synonym memory = "u64 \<Rightarrow> byte"
type_synonym view = "nat \<Rightarrow> byte"

definition at_mem :: "memory \<Rightarrow> u64 \<Rightarrow> view" where
  "at_mem m a = (\<lambda>i. m (a + of_nat i))"

definition at_list :: "byte list \<Rightarrow> view" where
  "at_list xs = (\<lambda>i. if i < length xs then xs ! i else 0)"

definition mem_write :: "memory \<Rightarrow> u64 \<Rightarrow> byte list \<Rightarrow> memory" where
  "mem_write m a bs = (\<lambda>x. if unat (x - a) < length bs then bs ! unat (x - a) else m x)"

definition mem_read :: "memory \<Rightarrow> u64 \<Rightarrow> nat \<Rightarrow> byte list" where
  "mem_read m a n = map (at_mem m a) [0..<n]"

section \<open>The routines\<close>

function memset_loop :: "memory \<Rightarrow> u64 \<Rightarrow> byte \<Rightarrow> nat \<Rightarrow> nat \<Rightarrow> memory" where
  "memset_loop m cdst c i n =
     (if i < n then memset_loop (m(cdst + of_nat i := c)) cdst c (Suc i) n else m)"
  by pat_completeness auto
termination
  by (relation "measure (\<lambda>(m, cdst, c, i, n). n - i)") auto

declare memset_loop.simps [simp del]

definition memset :: "memory \<Rightarrow> u64 \<Rightarrow> int \<Rightarrow> nat \<Rightarrow> memory" where
  "memset m dst c n = memset_loop m dst (word_of_int c) 0 n"

fun memcmp_at :: "view \<Rightarrow> view \<Rightarrow> nat \<Rightarrow> nat \<Rightarrow> int" where
  "memcmp_at s1 s2 i 0 = 0"
| "memcmp_at s1 s2 i (Suc n) =
     (if s1 i \<noteq> s2 i then int (unat (s1 i)) - int (unat (s2 i))
      else memcmp_at s1 s2 (Suc i) n)"

definition memcmp :: "view \<Rightarrow> view \<Rightarrow> nat \<Rightarrow> int" where
  "memcmp v1 v2 n = memcmp_at v1 v2 0 n"

fun copy_forward :: "memory \<Rightarrow> u64 \<Rightarrow> u64 \<Rightarrow> nat \<Rightarrow> memory" where
  "copy_forward m d s 0 = m"
| "copy_forward m d s (Suc n) = copy_forward (m(d := m s)) (d + 1) (s + 1) n"

fun copy_backward :: "memory \<Rightarrow> u64 \<Rightarrow> u64 \<Rightarrow> nat \<Rightarrow> memory" where
  "copy_backward m d s 0 = m"
| "copy_backward m d s (Suc n) = copy_backward (m(d - 1 := m (s - 1))) (d - 1) (s - 1) n"

definition memmove :: "memory \<Rightarrow> u64 \<Rightarrow> u64 \<Rightarrow> nat \<Rightarrow> memory" where
  "memmove m dst src n =
     (if n = 0 then m
      else if src < dst \<and> dst < src + of_nat n
      then copy_backward m (dst + of_nat n) (src + of_nat n) n
      else copy_forward m dst src n)"

definition memcpy :: "memory \<Rightarrow> u64 \<Rightarrow> u64 \<Rightarrow> nat \<Rightarrow> memory" where
  "memcpy m dst src n = memmove m dst src n"

fun strncmp_at :: "view \<Rightarrow> view \<Rightarrow> nat \<Rightarrow> nat \<Rightarrow> int" where
  "strncmp_at p q i 0 = 0"
| "strncmp_at p q i (Suc n) =
     (if p i \<noteq> 0 \<and> p i = q i then strncmp_at p q (Suc i) n
      else int (unat (p i)) - int (unat (q i)))"

definition strncmp :: "view \<Rightarrow> view \<Rightarrow> nat \<Rightarrow> int" where
  "strncmp p q n = strncmp_at p q 0 n"

fun strncpy_at :: "view \<Rightarrow> nat \<Rightarrow> nat \<Rightarrow> byte list" where
  "strncpy_at t i 0 = []"
| "strncpy_at t i (Suc n) = t i # (if t i \<noteq> 0 then strncpy_at t (Suc i) n else replicate n 0)"

definition strncpy :: "view \<Rightarrow> nat \<Rightarrow> byte list" where
  "strncpy t n = strncpy_at t 0 n"

fun safestrcpy_at :: "view \<Rightarrow> nat \<Rightarrow> nat \<Rightarrow> byte list" where
  "safestrcpy_at t i 0 = [0]"
| "safestrcpy_at t i (Suc n) = t i # (if t i \<noteq> 0 then safestrcpy_at t (Suc i) n else [0])"

definition safestrcpy :: "view \<Rightarrow> int \<Rightarrow> byte list" where
  "safestrcpy t n = (if n \<le> 0 then [] else safestrcpy_at t 0 (nat (n - 1)))"

text \<open>The counter of \<open>strlen\<close> is an \<open>int\<close>: counting past \<open>2147483647\<close> is undefined, the value \<open>None\<close>.\<close>

function strlen_from :: "view \<Rightarrow> nat \<Rightarrow> nat option" where
  "strlen_from s n =
     (if s n = 0 then Some n else if n < 2147483647 then strlen_from s (Suc n) else None)"
  by pat_completeness auto
termination
  by (relation "measure (\<lambda>(s, n). 2147483647 - n)") auto

declare strlen_from.simps [simp del]

definition strlen :: "view \<Rightarrow> nat option" where
  "strlen s = strlen_from s 0"

text \<open>Storing the first bytes of a buffer and keeping the rest of it.\<close>

definition overwrite :: "byte list \<Rightarrow> byte list \<Rightarrow> byte list" where
  "overwrite old new = new @ drop (length new) old"

text \<open>The C string in the first \<open>n\<close> bytes of a buffer: what comes before the first NUL.\<close>

definition cstr :: "nat \<Rightarrow> view \<Rightarrow> byte list" where
  "cstr n p = takeWhile (\<lambda>c. c \<noteq> 0) (map p [0..<n])"

section \<open>Reading and writing ranges\<close>

lemma length_mem_read [simp]: "length (mem_read m a n) = n"
  by (simp add: mem_read_def)

lemma nth_mem_read [simp]: "i < n \<Longrightarrow> mem_read m a n ! i = m (a + of_nat i)"
  by (simp add: mem_read_def at_mem_def)

lemma mem_write_Nil [simp]: "mem_write m a [] = m"
  by (simp add: mem_write_def)

lemma mem_write_at:
  "i < length bs \<Longrightarrow> length bs \<le> 2 ^ 64 \<Longrightarrow> mem_write m a bs (a + of_nat i) = bs ! i"
  by (simp add: mem_write_def unat_of_nat_small)

lemma mem_write_outside:
  "length bs \<le> unat (x - a) \<Longrightarrow> mem_write m a bs x = m x"
  by (simp add: mem_write_def)

lemma mem_read_write:
  "length bs \<le> 2 ^ 64 \<Longrightarrow> mem_read (mem_write m a bs) a (length bs) = bs"
  by (rule nth_equalityI) (auto simp: mem_write_at)

lemma mem_read_cong:
  "(\<And>i. i < n \<Longrightarrow> m (a + of_nat i) = m' (a + of_nat i)) \<Longrightarrow> mem_read m a n = mem_read m' a n"
  by (rule nth_equalityI) auto

section \<open>\<open>memset\<close>\<close>

lemma memset_loop_apply:
  "n \<le> 2 ^ 64 \<Longrightarrow> i \<le> n \<Longrightarrow>
   memset_loop m d c i n x = (if i \<le> unat (x - d) \<and> unat (x - d) < n then c else m x)"
proof (induction m d c i n rule: memset_loop.induct)
  case (1 m d c i n)
  show ?case
  proof (cases "i < n")
    case True
    have "memset_loop m d c i n x = memset_loop (m(d + of_nat i := c)) d c (Suc i) n x"
      using True by (subst memset_loop.simps) simp
    also have "\<dots> = (if Suc i \<le> unat (x - d) \<and> unat (x - d) < n then c
                      else (m(d + of_nat i := c)) x)"
      using True 1(1) [OF True] 1(2) by (simp del: fun_upd_apply)
    also have "\<dots> = (if i \<le> unat (x - d) \<and> unat (x - d) < n then c else m x)"
    proof (cases "unat (x - d) = i")
      case eq: True
      then have "x = d + of_nat i"
        by (rule unat_diff_eq)
      with eq True show ?thesis by simp
    next
      case neq: False
      have "unat (of_nat i :: u64) = i"
        using True 1(2) by (intro unat_of_nat_small) simp
      with neq have "x \<noteq> d + of_nat i" by auto
      with neq show ?thesis by auto
    qed
    finally show ?thesis .
  next
    case False
    with 1(3) show ?thesis by (subst memset_loop.simps) auto
  qed
qed

lemma memset_apply:
  "n \<le> 2 ^ 64 \<Longrightarrow> memset m d c n x = (if unat (x - d) < n then word_of_int c else m x)"
  by (simp add: memset_def memset_loop_apply)

lemma memset_eq_write:
  "n \<le> 2 ^ 64 \<Longrightarrow> memset m d c n = mem_write m d (replicate n (word_of_int c))"
  by (rule ext) (simp add: memset_apply mem_write_def)

section \<open>\<open>memmove\<close>\<close>

lemma copy_forward_apply:
  assumes "n \<le> 2 ^ 64"
    and "\<And>i j. i < j \<Longrightarrow> j < n \<Longrightarrow> s + of_nat j \<noteq> d + of_nat i"
  shows "copy_forward m d s n x = (if unat (x - d) < n then m (s + (x - d)) else m x)"
  using assms
proof (induction n arbitrary: m d s)
  case 0
  then show ?case by simp
next
  case (Suc n)
  let ?m = "m(d := m s)"
  have "s + 1 + of_nat j \<noteq> d + 1 + of_nat i" if "i < j" "j < n" for i j
    using Suc.prems(2) [of "Suc i" "Suc j"] that by (simp add: algebra_simps)
  with Suc.prems(1) have step: "copy_forward m d s (Suc n) x =
      (if unat (x - (d + 1)) < n then ?m (s + 1 + (x - (d + 1))) else ?m x)"
    by (subst copy_forward.simps, subst Suc.IH) auto
  show ?case
  proof (cases "x = d")
    case True
    have "unat (x - (d + 1)) = 2 ^ 64 - 1"
      using True by (simp add: unat_max)
    with True step Suc.prems(1) show ?thesis by auto
  next
    case False
    then have pos: "0 < unat (x - d)"
      by (simp add: unat_gt_0)
    then have "unat (x - (d + 1)) = unat (x - d) - 1"
      using unat_minus_one [of "x - d"] False by (simp add: diff_diff_add)
    moreover have "s + (x - d) \<noteq> d" if "unat (x - d) < Suc n"
      using Suc.prems(2) [of 0 "unat (x - d)"] pos that by simp
    ultimately show ?thesis using step False pos by auto
  qed
qed

lemma copy_backward_apply:
  assumes "n \<le> 2 ^ 64"
    and "\<And>i j. i < j \<Longrightarrow> j < n \<Longrightarrow> s + of_nat i \<noteq> d + of_nat j"
  shows "copy_backward m (d + of_nat n) (s + of_nat n) n x =
           (if unat (x - d) < n then m (s + (x - d)) else m x)"
  using assms
proof (induction n arbitrary: m)
  case 0
  then show ?case by simp
next
  case (Suc n)
  let ?m = "m(d + of_nat n := m (s + of_nat n))"
  have "copy_backward m (d + of_nat (Suc n)) (s + of_nat (Suc n)) (Suc n) x =
          copy_backward ?m (d + of_nat n) (s + of_nat n) n x"
    by (simp add: algebra_simps)
  also have "\<dots> = (if unat (x - d) < n then ?m (s + (x - d)) else ?m x)"
    using Suc.prems by (intro Suc.IH) auto
  finally have step: "copy_backward m (d + of_nat (Suc n)) (s + of_nat (Suc n)) (Suc n) x =
      (if unat (x - d) < n then ?m (s + (x - d)) else ?m x)" .
  have n: "unat (of_nat n :: u64) = n"
    using Suc.prems(1) by (intro unat_of_nat_small) simp
  show ?case
  proof (cases "unat (x - d) = n")
    case True
    then have "x = d + of_nat n" by (rule unat_diff_eq)
    with True step show ?thesis by simp
  next
    case False
    with n have "x \<noteq> d + of_nat n" by auto
    moreover have "s + (x - d) \<noteq> d + of_nat n" if "unat (x - d) < n"
      using Suc.prems(2) [of "unat (x - d)" n] that by simp
    ultimately show ?thesis using step False by auto
  qed
qed

lemma no_wrap_eq:
  assumes "unat s + n \<le> 2 ^ 64" and "unat d + n \<le> 2 ^ 64" and "i < n" and "j < n"
    and "s + of_nat i = d + (of_nat j :: u64)"
  shows "unat s + i = unat d + j"
proof -
  have "unat (s + of_nat i) = unat s + i" and "unat (d + of_nat j) = unat d + j"
    using assms(1-4) by (auto intro!: unat_add_of_nat)
  with assms(5) show ?thesis by simp
qed

lemma memmove_apply:
  assumes s: "unat src + n \<le> 2 ^ 64" and d: "unat dst + n \<le> 2 ^ 64"
  shows "memmove m dst src n x = (if unat (x - dst) < n then m (src + (x - dst)) else m x)"
proof (cases "n = 0")
  case True
  then show ?thesis by (simp add: memmove_def)
next
  case n: False
  have n64: "n \<le> 2 ^ 64" using s by simp
  show ?thesis
  proof (cases "src < dst \<and> dst < src + of_nat n")
    case True
    then have "unat src < unat dst" by (simp add: word_less_nat_alt)
    then have "src + of_nat i \<noteq> dst + of_nat j" if "i < j" "j < n" for i j
      using no_wrap_eq [OF s d, of i j] that by auto
    with n64 have "copy_backward m (dst + of_nat n) (src + of_nat n) n x =
        (if unat (x - dst) < n then m (src + (x - dst)) else m x)"
      by (intro copy_backward_apply) auto
    with True n show ?thesis by (simp only: memmove_def if_False if_True simp_thms)
  next
    case False
    have "src + of_nat j \<noteq> dst + of_nat i" if ij: "i < j" "j < n" for i j
    proof
      assume "src + of_nat j = dst + of_nat i"
      then have eq: "unat src + j = unat dst + i"
        using no_wrap_eq [OF s d, of j i] ij by auto
      then have "src < dst" using ij by (simp add: word_less_nat_alt)
      moreover have "dst < src + of_nat n"
      proof (cases "unat src + n < 2 ^ 64")
        case True
        then have "unat (src + of_nat n) = unat src + n" by (intro unat_add_of_nat) simp
        with eq ij show ?thesis by (simp add: word_less_nat_alt)
      next
        case wrap: False
        with s eq ij d n show ?thesis by linarith
      qed
      ultimately show False using False by simp
    qed
    with n64 have "copy_forward m dst src n x =
        (if unat (x - dst) < n then m (src + (x - dst)) else m x)"
      by (intro copy_forward_apply) auto
    with False n show ?thesis by (simp only: memmove_def if_False)
  qed
qed

section \<open>Bounded string routines\<close>

lemma cstr_0 [simp]: "cstr 0 p = []"
  by (simp add: cstr_def)

lemma cstr_Suc: "cstr (Suc n) p = (if p 0 = 0 then [] else p 0 # cstr n (\<lambda>i. p (Suc i)))"
proof -
  have "map p [0..<Suc n] = p 0 # map (\<lambda>i. p (Suc i)) [0..<n]"
    by (simp add: upt_conv_Cons map_Suc_upt [symmetric] del: upt_Suc)
  then show ?thesis by (simp add: cstr_def)
qed

lemma length_cstr_le: "length (cstr n p) \<le> n"
  by (metis cstr_def diff_zero length_map length_takeWhile_le length_upt)

lemma nonzero_cstr: "c \<in> set (cstr n p) \<Longrightarrow> c \<noteq> 0"
  unfolding cstr_def by (drule set_takeWhileD) simp

lemma strncmp_at_shift: "strncmp_at p q (i + k) n = strncmp_at (\<lambda>j. p (i + j)) (\<lambda>j. q (i + j)) k n"
  by (induction n arbitrary: k) (auto simp flip: add_Suc_right)

lemma strncmp_at_0_iff: "strncmp_at p q 0 n = 0 \<longleftrightarrow> cstr n p = cstr n q"
proof (induction n arbitrary: p q)
  case 0
  then show ?case by simp
next
  case (Suc n)
  have "strncmp_at p q (Suc 0) n = strncmp_at (\<lambda>j. p (Suc j)) (\<lambda>j. q (Suc j)) 0 n"
    using strncmp_at_shift [of p q 1 0 n] by simp
  with Suc.IH show ?case
    by (auto simp: cstr_Suc uint_0_iff simp flip: word_uint_eq_iff)
qed

lemma strncpy_at_eq:
  "strncpy_at t i n = cstr n (\<lambda>j. t (i + j)) @ replicate (n - length (cstr n (\<lambda>j. t (i + j)))) 0"
proof (induction n arbitrary: i)
  case 0
  then show ?case by simp
next
  case (Suc n)
  have "(\<lambda>j. t (Suc i + j)) = (\<lambda>j. t (i + Suc j))" by simp
  with Suc.IH [of "Suc i"] show ?case
    by (auto simp: cstr_Suc)
qed

lemma strncpy_eq: "strncpy t n = cstr n t @ replicate (n - length (cstr n t)) 0"
  using strncpy_at_eq [of t 0 n] by (simp add: strncpy_def)

lemma length_strncpy [simp]: "length (strncpy t n) = n"
  using length_cstr_le [of n t] by (simp add: strncpy_eq)

lemma takeWhile_nonzero_pad:
  "takeWhile (\<lambda>c. c \<noteq> 0) (xs @ replicate k (0::byte)) = takeWhile (\<lambda>c. c \<noteq> 0) xs"
  by (induction xs) auto

lemma cstr_strncpy: "cstr n (at_list (strncpy t n)) = cstr n t"
proof -
  have "map (at_list (strncpy t n)) [0..<n] = strncpy t n"
    by (rule nth_equalityI) (auto simp: at_list_def)
  then show ?thesis
    by (simp add: cstr_def strncpy_eq takeWhile_nonzero_pad takeWhile_idem)
qed

lemma safestrcpy_at_cstr:
  "\<exists>k. safestrcpy_at t i n = cstr n (\<lambda>j. t (i + j)) @ replicate (Suc k) 0 \<and>
       length (cstr n (\<lambda>j. t (i + j))) + Suc k \<le> Suc n"
proof (induction n arbitrary: i)
  case 0
  then show ?case by (intro exI [of _ 0]) simp
next
  case (Suc n)
  have shift: "(\<lambda>j. t (Suc i + j)) = (\<lambda>j. t (i + Suc j))" by simp
  show ?case
  proof (cases "t i = 0")
    case True
    then show ?thesis by (intro exI [of _ 1]) (simp add: cstr_Suc)
  next
    case False
    from Suc.IH [of "Suc i"] obtain k where
      "safestrcpy_at t (Suc i) n = cstr n (\<lambda>j. t (i + Suc j)) @ replicate (Suc k) 0"
      "length (cstr n (\<lambda>j. t (i + Suc j))) + Suc k \<le> Suc n"
      by (auto simp: shift)
    with False show ?thesis by (intro exI [of _ k]) (auto simp: cstr_Suc)
  qed
qed

lemma strlen_from_NUL: "s i = 0 \<Longrightarrow> strlen_from s i = Some i"
  by (simp add: strlen_from.simps)

lemma strlen_from_step:
  assumes "s i \<noteq> 0" and "i < 2 ^ 31"
  shows "strlen_from s i = (if Suc i < 2 ^ 31 then strlen_from s (Suc i) else None)"
proof -
  have "i < 2147483647 \<longleftrightarrow> Suc i < 2 ^ 31" by simp
  then show ?thesis using assms(1) by (subst strlen_from.simps) presburger
qed

lemma first_NUL_step:
  "s i \<noteq> (0 :: byte) \<Longrightarrow> (\<forall>j. i \<le> j \<longrightarrow> j < n \<longrightarrow> s j \<noteq> 0) \<longleftrightarrow> (\<forall>j. Suc i \<le> j \<longrightarrow> j < n \<longrightarrow> s j \<noteq> 0)"
  by (auto simp: Suc_le_eq) (metis le_neq_implies_less)

lemma strlen_from_Some_iff:
  "i < 2 ^ 31 \<Longrightarrow> strlen_from s i = Some n \<longleftrightarrow>
     i \<le> n \<and> n < 2 ^ 31 \<and> s n = 0 \<and> (\<forall>j. i \<le> j \<longrightarrow> j < n \<longrightarrow> s j \<noteq> 0)"
proof (induction "2 ^ 31 - i" arbitrary: i rule: less_induct)
  case less
  show ?case
  proof (cases "s i = 0")
    case True
    then show ?thesis using less.prems by (auto simp: strlen_from_NUL intro: le_antisym leI)
  next
    case nz: False
    show ?thesis
    proof (cases "Suc i < 2 ^ 31")
      case True
      then have "2 ^ 31 - Suc i < 2 ^ 31 - i" by linarith
      from less.hyps [OF this True] have "strlen_from s i = Some n \<longleftrightarrow>
          Suc i \<le> n \<and> n < 2 ^ 31 \<and> s n = 0 \<and> (\<forall>j. i \<le> j \<longrightarrow> j < n \<longrightarrow> s j \<noteq> 0)"
        unfolding first_NUL_step [of s i n, OF nz] strlen_from_step [of s i, OF nz less.prems] if_P [OF True] .
      then show ?thesis using nz by (metis Suc_leD le_antisym not_less_eq_eq)
    next
      case False
      then have "s n \<noteq> 0" if "i \<le> n" "n < 2 ^ 31" using nz that less.prems by (metis Suc_lessI le_antisym linorder_not_less not_less_eq)
      then show ?thesis unfolding strlen_from_step [of s i, OF nz less.prems] if_not_P [OF False] by blast
    qed
  qed
qed

lemma strlen_from_None_iff:
  assumes "i < 2 ^ 31"
  shows "strlen_from s i = None \<longleftrightarrow> (\<forall>j. i \<le> j \<longrightarrow> j < 2 ^ 31 \<longrightarrow> s j \<noteq> 0)"
proof
  assume none: "strlen_from s i = None"
  show "\<forall>j. i \<le> j \<longrightarrow> j < 2 ^ 31 \<longrightarrow> s j \<noteq> 0"
  proof (rule ccontr)
    assume "\<not> ?thesis"
    then obtain j where j: "i \<le> j \<and> j < 2 ^ 31 \<and> s j = 0" by blast
    then obtain k where "i \<le> k \<and> k < 2 ^ 31 \<and> s k = 0" and "\<And>j. j < k \<Longrightarrow> \<not> (i \<le> j \<and> j < 2 ^ 31 \<and> s j = 0)"
      using exists_least_iff [of "\<lambda>k. i \<le> k \<and> k < 2 ^ 31 \<and> s k = 0"] by blast
    then have "strlen_from s i = Some k" using strlen_from_Some_iff [OF assms] by (meson order.strict_trans)
    with none show False by (metis option.distinct(1))
  qed
next
  assume "\<forall>j. i \<le> j \<longrightarrow> j < 2 ^ 31 \<longrightarrow> s j \<noteq> 0"
  then show "strlen_from s i = None" using strlen_from_Some_iff [OF assms] by (metis not_Some_eq)
qed

section \<open>Properties\<close>

text \<open>C9: \<open>memmove\<close> of \<open>n\<close> bytes between two ranges that do not run past the end of the
  address space leaves in every destination byte what the source byte held before the
  call, overlapping or not, and changes nothing else.\<close>

theorem memmove_correct:
  assumes "unat src + n \<le> 2 ^ 64" and "unat dst + n \<le> 2 ^ 64"
  shows "mem_read (memmove m dst src n) dst n = mem_read m src n \<and>
         (\<forall>x. n \<le> unat (x - dst) \<longrightarrow> memmove m dst src n x = m x)"
proof -
  have "memmove m dst src n (dst + of_nat i) = m (src + of_nat i)" if "i < n" for i
    using that assms by (simp add: memmove_apply unat_of_nat_small)
  then have "mem_read (memmove m dst src n) dst n = mem_read m src n"
    by (intro nth_equalityI) auto
  with assms show ?thesis by (auto simp: memmove_apply)
qed

theorem memmove_correct_witness:
  "unat (4096 :: u64) + 3 \<le> 2 ^ 64 \<and> unat (4097 :: u64) + 3 \<le> 2 ^ 64 \<and>
   mem_read (memmove (\<lambda>a. ucast a) 4097 4096 3) 4097 3 = [0, 1, 2]"
proof -
  have h: "unat (4096 :: u64) + 3 \<le> 2 ^ 64" "unat (4097 :: u64) + 3 \<le> 2 ^ 64" by simp_all
  have "mem_read (\<lambda>a :: u64. ucast a :: byte) 4096 3 = [0, 1, 2]"
    by (simp add: mem_read_def at_mem_def numeral_3_eq_3)
  with h memmove_correct [OF h, of "\<lambda>a. ucast a"] show ?thesis by simp
qed

text \<open>C10: \<open>safestrcpy\<close> into a buffer of \<open>n\<close> bytes never stores more than \<open>n\<close> bytes, always
  stores a terminating NUL, and the C string it leaves there is the source string cut to
  \<open>n - 1\<close> characters.\<close>

theorem safestrcpy_terminates:
  assumes "0 < n"
  shows "length (safestrcpy t n) \<le> nat n \<and> last (safestrcpy t n) = 0 \<and> safestrcpy t n \<noteq> [] \<and>
         cstr (length (safestrcpy t n)) (at_list (safestrcpy t n)) = cstr (nat n - 1) t"
proof -
  let ?c = "cstr (nat n - 1) t"
  from safestrcpy_at_cstr [of t 0 "nat n - 1"] obtain k where
    k: "safestrcpy_at t 0 (nat n - 1) = ?c @ replicate (Suc k) 0"
       "length ?c + Suc k \<le> Suc (nat n - 1)"
    by auto
  have eq: "safestrcpy t n = ?c @ replicate (Suc k) 0"
    using assms k(1) by (simp add: safestrcpy_def nat_diff_distrib)
  let ?r = "safestrcpy t n"
  have "map (at_list ?r) [0..<length ?r] = ?r"
    by (rule nth_equalityI) (auto simp: at_list_def)
  moreover have "takeWhile (\<lambda>c. c \<noteq> 0) ?c = ?c"
    by (simp add: takeWhile_eq_all_conv nonzero_cstr)
  ultimately have "cstr (length ?r) (at_list ?r) = ?c"
    by (simp add: cstr_def eq takeWhile_nonzero_pad del: replicate_Suc)
  moreover have "last ?r = 0" by (simp add: eq)
  ultimately show ?thesis using eq k(2) assms by auto
qed

theorem safestrcpy_terminates_witness:
  "(0 :: int) < 4 \<and> safestrcpy (at_list [105, 110, 105, 116, 0]) 4 = [105, 110, 105, 0] \<and>
   last (safestrcpy (at_list [105, 110, 105, 116, 0]) 4) = 0"
proof -
  have h: "(0 :: int) < 4" by simp
  have "safestrcpy (at_list [105, 110, 105, 116, 0]) 4 = [105, 110, 105, 0]"
    by (simp add: safestrcpy_def at_list_def numeral_3_eq_3)
  with h safestrcpy_terminates [OF h, of "at_list [105, 110, 105, 116, 0]"] show ?thesis by simp
qed

text \<open>C11: \<open>strncmp\<close> of two buffers over \<open>n\<close> bytes returns 0 exactly when they hold the same
  C string, cut to \<open>n\<close> characters; and \<open>strncpy\<close> fills exactly \<open>n\<close> bytes: the source string cut to \<open>n\<close>
  characters, then NULs and nothing of what follows the string in the source, so that the copy compares equal to its source.\<close>

theorem strncmp_strncpy_equal:
  "(strncmp p q n = 0 \<longleftrightarrow> cstr n p = cstr n q) \<and>
   strncpy t n = cstr n t @ replicate (n - length (cstr n t)) 0 \<and> length (strncpy t n) = n \<and>
   strncmp (at_list (strncpy t n)) t n = 0"
  using length_cstr_le [of n t] by (simp add: strncmp_def strncmp_at_0_iff cstr_strncpy strncpy_eq [symmetric])

text \<open>C12: \<open>strlen\<close> returns exactly on the strings whose length is an \<open>int\<close>: it returns \<open>n\<close> if and only if
  byte \<open>n\<close> is the first NUL and \<open>n < 2^31\<close>, and its counter overflows, which is undefined, if and only if
  there is no NUL among the first \<open>2^31\<close> bytes.\<close>

theorem strlen_terminates:
  "(strlen s = Some n \<longleftrightarrow> n < 2 ^ 31 \<and> s n = 0 \<and> (\<forall>j < n. s j \<noteq> 0)) \<and>
   (strlen s = None \<longleftrightarrow> (\<forall>i < 2 ^ 31. s i \<noteq> 0))"
  unfolding strlen_def using strlen_from_Some_iff [of 0 s n] strlen_from_None_iff [of 0 s] by auto

theorem strlen_terminates_witness:
  "strlen (at_list (ascii ''abc'')) = Some 3 \<and> strlen (\<lambda>_. 65) = None"
proof
  have "(3 :: nat) < 2 ^ 31 \<and> at_list (ascii ''abc'') 3 = 0 \<and> (\<forall>j < 3. at_list (ascii ''abc'') j \<noteq> 0)"
    by (auto simp: at_list_def ascii_def less_Suc_eq numeral_3_eq_3)
  then show "strlen (at_list (ascii ''abc'')) = Some 3" using strlen_terminates by blast
  show "strlen (\<lambda>_. 65) = None" using strlen_terminates [of "\<lambda>_. 65"] by simp
qed

end
