(* ===== verification/Kalloc.thy ===== *)
theory Kalloc
  imports Cstring
begin

text \<open>
  The physical page allocator, \<open>kernel/kalloc.c\<close>. The free pages form a linked list
  threaded through the pages themselves: the first eight bytes of a free page hold the
  address of the next one (\<open>struct run\<close>). The state is the flat memory and the head
  pointer \<open>kmem.freelist\<close>; the linker symbols \<open>end\<close>, \<open>etext\<close> and \<open>trampoline\<close> are
  fields that no routine changes. \<open>kmem_inv s fl\<close> abstracts the list in memory to the
  list \<open>fl\<close> of free page addresses; the locale \<open>page_allocator\<close> is the contract the rest
  of the kernel relies on, interpreted on \<open>kalloc\<close> and \<open>kfree\<close>.
\<close>

record machine =
  mem :: memory
  freelist :: u64
  kend :: u64
  etext :: u64
  trampoline :: u64

abbreviation PGSIZE :: u64 where
  "PGSIZE \<equiv> 4096"

abbreviation KERNBASE :: u64 where
  "KERNBASE \<equiv> 0x80000000"

abbreviation PHYSTOP :: u64 where
  "PHYSTOP \<equiv> 0x88000000"

definition PGROUNDUP :: "u64 \<Rightarrow> u64" where
  "PGROUNDUP sz = (sz + PGSIZE - 1) AND NOT (PGSIZE - 1)"

definition PGROUNDDOWN :: "u64 \<Rightarrow> u64" where
  "PGROUNDDOWN a = a AND NOT (PGSIZE - 1)"

definition load64 :: "memory \<Rightarrow> u64 \<Rightarrow> u64" where
  "load64 m a = of_le (mem_read m a 8)"

definition store64 :: "memory \<Rightarrow> u64 \<Rightarrow> u64 \<Rightarrow> memory" where
  "store64 m a v = mem_write m a (le_bytes 8 v)"

section \<open>The routines\<close>

definition kfree :: "u64 \<Rightarrow> 'z machine_scheme \<Rightarrow> (unit, 'z machine_scheme) res" where
  "kfree pa s =
     (if pa mod PGSIZE \<noteq> 0 \<or> pa < kend s \<or> pa \<ge> PHYSTOP then Panic ''kfree''
      else let m = memset (mem s) pa 1 4096
           in Ok () (s\<lparr>mem := store64 m pa (freelist s), freelist := pa\<rparr>))"

definition kalloc :: "'z machine_scheme \<Rightarrow> (u64, 'z machine_scheme) res" where
  "kalloc s =
     (let r = freelist s
      in if r \<noteq> 0
         then Ok r (s\<lparr>freelist := load64 (mem s) r, mem := memset (mem s) r 5 4096\<rparr>)
         else Ok r s)"

lemma kfree_Ok_iff:
  "kfree pa s = Ok u s' \<longleftrightarrow>
     pa mod PGSIZE = 0 \<and> kend s \<le> pa \<and> pa < PHYSTOP \<and>
     s' = s\<lparr>mem := store64 (memset (mem s) pa 1 4096) pa (freelist s), freelist := pa\<rparr>"
  by (auto simp: kfree_def Let_def)

function freerange_loop :: "u64 \<Rightarrow> u64 \<Rightarrow> 'z machine_scheme \<Rightarrow> (unit, 'z machine_scheme) res" where
  "freerange_loop p pa_end s =
     (if p + PGSIZE \<le> pa_end
      then andthen (kfree p s) (\<lambda>_ s. freerange_loop (p + PGSIZE) pa_end s)
      else Ok () s)"
  by pat_completeness auto
termination
proof (relation "measure (\<lambda>(p, pa_end, s). 2 ^ 64 - unat p)")
  fix p pa_end and s :: "'a machine_scheme" and u s'
  assume "kfree p s = Ok u s'"
  then have "p < PHYSTOP" by (simp add: kfree_Ok_iff)
  then have "unat p < 0x88000000" by (simp add: word_less_nat_alt)
  then have "unat (p + PGSIZE) = unat p + 4096"
    by (subst unat_add_small) auto
  with \<open>unat p < 0x88000000\<close>
  show "((p + PGSIZE, pa_end, s'), p, pa_end, s) \<in> measure (\<lambda>(p, pa_end, s). 2 ^ 64 - unat p)"
    by simp
qed auto

declare freerange_loop.simps [simp del]

definition freerange :: "u64 \<Rightarrow> u64 \<Rightarrow> 'z machine_scheme \<Rightarrow> (unit, 'z machine_scheme) res" where
  "freerange pa_start pa_end s = freerange_loop (PGROUNDUP pa_start) pa_end s"

definition kinit :: "'z machine_scheme \<Rightarrow> (unit, 'z machine_scheme) res" where
  "kinit s = freerange (kend s) PHYSTOP s"

section \<open>Eight-byte loads and stores\<close>

lemma load64_store64: "load64 (store64 m a v) a = v"
proof -
  have "mem_read (store64 m a v) a 8 = le_bytes 8 v"
    using mem_read_write [of "le_bytes 8 v" m a] by (simp add: store64_def)
  then show ?thesis by (simp add: load64_def of_le_le_bytes)
qed

lemma load64_cong:
  "(\<And>i. i < 8 \<Longrightarrow> m (a + of_nat i) = m' (a + of_nat i)) \<Longrightarrow> load64 m a = load64 m' a"
  by (simp add: load64_def mem_read_cong [of 8 m a m'])

lemma store64_outside: "8 \<le> unat (x - a) \<Longrightarrow> store64 m a v x = m x"
  by (simp add: store64_def mem_write_outside)

section \<open>Pages\<close>

definition aligned :: "u64 \<Rightarrow> bool" where
  "aligned p \<longleftrightarrow> p mod PGSIZE = 0"

definition in_page :: "u64 \<Rightarrow> u64 \<Rightarrow> bool" where
  "in_page p x \<longleftrightarrow> unat (x - p) < 4096"

lemma aligned_unat: "aligned p \<longleftrightarrow> unat p mod 4096 = 0"
proof -
  have "aligned p \<longleftrightarrow> unat (p mod PGSIZE) = 0"
    by (simp add: aligned_def unat_eq_zero)
  then show ?thesis by (simp add: unat_mod)
qed

lemma aligned_bound: "aligned p \<Longrightarrow> unat p + 4096 \<le> 2 ^ 64"
proof -
  assume "aligned p"
  then have "4096 dvd unat p" by (simp add: aligned_unat mod_eq_0_iff_dvd)
  then obtain k where k: "unat p = 4096 * k" by (elim dvdE)
  with unat_u64_less [of p] show ?thesis by simp
qed

lemma in_page_iff:
  assumes "aligned p"
  shows "in_page p x \<longleftrightarrow> unat x div 4096 = unat p div 4096"
proof
  assume "in_page p x"
  then have d: "unat (x - p) < 4096" by (simp add: in_page_def)
  then have "unat (p + (x - p)) = unat p + unat (x - p)"
    using aligned_bound [OF assms] by (intro unat_add_small) simp
  then have "unat x = unat p + unat (x - p)" by simp
  with d assms show "unat x div 4096 = unat p div 4096"
    by (simp add: aligned_unat div_add1_eq)
next
  assume eq: "unat x div 4096 = unat p div 4096"
  have p: "unat p = 4096 * (unat p div 4096)"
    using assms by (simp add: aligned_unat mod_eq_0_iff_dvd)
  then have le: "unat p \<le> unat x"
    using eq by (metis div_times_less_eq_dividend mult.commute)
  then have "unat (x - p) = unat x - unat p"
    by (intro unat_sub) (simp add: word_le_nat_alt)
  moreover have "unat x < 4096 * (unat x div 4096) + 4096"
    by arith
  ultimately show "in_page p x"
    using p eq by (simp add: in_page_def)
qed

lemma in_page_self [simp]: "in_page p p"
  by (simp add: in_page_def)

lemma in_page_offset: "i < 4096 \<Longrightarrow> in_page p (p + of_nat i)"
  by (simp add: in_page_def unat_of_nat_small)

lemma pages_disjoint:
  "aligned p \<Longrightarrow> aligned q \<Longrightarrow> p \<noteq> q \<Longrightarrow> in_page p x \<Longrightarrow> \<not> in_page q x"
  by (auto simp: in_page_iff aligned_unat word_unat_eq_iff mod_eq_0_iff_dvd
      dest: dvd_div_eq_cancel)

lemma memset_page: "memset m p c 4096 x = (if in_page p x then word_of_int c else m x)"
  by (simp add: memset_apply in_page_def)

lemma load64_other_page:
  assumes "aligned p" and "aligned q" and "p \<noteq> q"
    and "\<And>x. \<not> in_page p x \<Longrightarrow> m' x = m x"
  shows "load64 m' q = load64 m q"
proof (rule load64_cong)
  fix i :: nat
  assume "i < 8"
  then have "in_page q (q + of_nat i)" by (intro in_page_offset) simp
  then show "m' (q + of_nat i) = m (q + of_nat i)"
    using assms pages_disjoint [of q p] by blast
qed

section \<open>The free list in memory\<close>

primrec run_list :: "memory \<Rightarrow> u64 \<Rightarrow> u64 list \<Rightarrow> bool" where
  "run_list m r [] \<longleftrightarrow> r = 0"
| "run_list m r (p # ps) \<longleftrightarrow> r \<noteq> 0 \<and> r = p \<and> run_list m (load64 m p) ps"

definition page_ok :: "'z machine_scheme \<Rightarrow> u64 \<Rightarrow> bool" where
  "page_ok s p \<longleftrightarrow> aligned p \<and> kend s \<le> p \<and> p < PHYSTOP"

definition kmem_inv :: "'z machine_scheme \<Rightarrow> u64 list \<Rightarrow> bool" where
  "kmem_inv s fl \<longleftrightarrow>
     0 < kend s \<and> run_list (mem s) (freelist s) fl \<and> distinct fl \<and> (\<forall>p \<in> set fl. page_ok s p)"

lemma page_ok_frame: "s' = s\<lparr>mem := m, freelist := f\<rparr> \<Longrightarrow> page_ok s' = page_ok s"
  by (rule ext) (simp add: page_ok_def)

lemma run_list_frame:
  assumes "aligned q" and "q \<notin> set ps" and "\<forall>p \<in> set ps. aligned p"
    and "\<And>x. \<not> in_page q x \<Longrightarrow> m' x = m x"
  shows "run_list m' r ps = run_list m r ps"
  using assms(2,3)
proof (induction ps arbitrary: r)
  case Nil
  then show ?case by simp
next
  case (Cons p ps)
  then have "load64 m' p = load64 m p"
    using assms(1,4) by (intro load64_other_page [of q]) auto
  with Cons show ?case by simp
qed

lemma page_ok_nonzero: "0 < kend s \<Longrightarrow> page_ok s p \<Longrightarrow> p \<noteq> 0"
  by (auto simp: page_ok_def)

lemma kalloc_empty: "kmem_inv s [] \<Longrightarrow> kalloc s = Ok 0 s"
  by (simp add: kmem_inv_def kalloc_def)

lemma kalloc_page:
  assumes "kmem_inv s (p # fl)"
  obtains s' where "kalloc s = Ok p s'" and "kmem_inv s' fl"
    and "s' = s\<lparr>mem := mem s', freelist := freelist s'\<rparr>"
    and "\<And>x. mem s' x = (if in_page p x then 5 else mem s x)"
proof
  let ?s = "s\<lparr>freelist := load64 (mem s) p, mem := memset (mem s) p 5 4096\<rparr>"
  show "kalloc s = Ok p ?s"
    using assms by (auto simp: kmem_inv_def kalloc_def Let_def)
  show "?s = s\<lparr>mem := mem ?s, freelist := freelist ?s\<rparr>" by simp
  show m: "mem ?s x = (if in_page p x then 5 else mem s x)" for x
    by (simp add: memset_page)
  have "run_list (mem ?s) (load64 (mem s) p) fl = run_list (mem s) (load64 (mem s) p) fl"
    using assms m by (intro run_list_frame [of p]) (auto simp: kmem_inv_def page_ok_def)
  with assms show "kmem_inv ?s fl"
    by (auto simp: kmem_inv_def page_ok_def)
qed

lemma kfree_page:
  assumes "kmem_inv s fl" and "page_ok s p" and "p \<notin> set fl"
  obtains s' where "kfree p s = Ok () s'" and "kmem_inv s' (p # fl)"
    and "s' = s\<lparr>mem := mem s', freelist := freelist s'\<rparr>"
    and "\<And>x. \<not> in_page p x \<Longrightarrow> mem s' x = mem s x"
proof
  let ?m = "store64 (memset (mem s) p 1 4096) p (freelist s)"
  let ?s = "s\<lparr>mem := ?m, freelist := p\<rparr>"
  show "kfree p s = Ok () ?s"
    using assms(2) by (auto simp: kfree_def page_ok_def aligned_def Let_def)
  show "?s = s\<lparr>mem := mem ?s, freelist := freelist ?s\<rparr>" by simp
  show m: "mem ?s x = mem s x" if "\<not> in_page p x" for x
    using that by (simp add: store64_outside memset_page in_page_def)
  have "run_list ?m (freelist s) fl = run_list (mem s) (freelist s) fl"
    using assms m by (intro run_list_frame [of p]) (auto simp: kmem_inv_def page_ok_def)
  moreover have "load64 ?m p = freelist s" by (rule load64_store64)
  ultimately show "kmem_inv ?s (p # fl)"
    using assms page_ok_nonzero [of s p] by (auto simp: kmem_inv_def page_ok_def)
qed

section \<open>The contract of the allocator\<close>

text \<open>
  What the rest of the kernel relies on: \<open>avail s fl\<close> says that exactly the pages \<open>fl\<close>
  are free. Allocation takes a free page away or returns 0 when there is none; freeing a
  page that is not free gives it back; neither touches memory outside that page.
\<close>

locale page_allocator =
  fixes alloc :: "'s \<Rightarrow> (u64, 's) res"
    and free :: "u64 \<Rightarrow> 's \<Rightarrow> (unit, 's) res"
    and avail :: "'s \<Rightarrow> u64 list \<Rightarrow> bool"
    and valid :: "'s \<Rightarrow> u64 \<Rightarrow> bool"
    and contents :: "'s \<Rightarrow> memory"
  assumes avail_distinct: "avail s fl \<Longrightarrow> distinct fl"
    and avail_valid: "avail s fl \<Longrightarrow> p \<in> set fl \<Longrightarrow> valid s p \<and> p \<noteq> 0"
    and alloc_none: "avail s [] \<Longrightarrow> alloc s = Ok 0 s"
    and alloc_some: "avail s (p # fl) \<Longrightarrow>
      \<exists>s'. alloc s = Ok p s' \<and> avail s' fl \<and> valid s' = valid s \<and>
           (\<forall>x. \<not> in_page p x \<longrightarrow> contents s' x = contents s x)"
    and free_ok: "avail s fl \<Longrightarrow> valid s p \<Longrightarrow> p \<notin> set fl \<Longrightarrow>
      \<exists>s'. free p s = Ok () s' \<and> avail s' (p # fl) \<and> valid s' = valid s \<and>
           (\<forall>x. \<not> in_page p x \<longrightarrow> contents s' x = contents s x)"
begin

text \<open>Allocating \<open>n\<close> pages in a row, stopping at the first failure.\<close>

primrec alloc_many :: "nat \<Rightarrow> 's \<Rightarrow> (u64 list, 's) res" where
  "alloc_many 0 s = Ok [] s"
| "alloc_many (Suc n) s =
     andthen (alloc s) (\<lambda>p s. if p = 0 then Ok [] s
       else andthen (alloc_many n s) (\<lambda>ps s. Ok (p # ps) s))"

lemma alloc_many_takes:
  assumes "avail s fl"
  shows "\<exists>s'. alloc_many n s = Ok (take n fl) s' \<and> avail s' (drop n fl)"
  using assms
proof (induction n arbitrary: s fl)
  case 0
  then show ?case by simp
next
  case (Suc n)
  show ?case
  proof (cases fl)
    case Nil
    with Suc.prems show ?thesis by (simp add: alloc_none)
  next
    case (Cons p ps)
    with Suc.prems obtain s1 where s1: "alloc s = Ok p s1" "avail s1 ps"
      using alloc_some by blast
    from Suc.IH [OF s1(2)] obtain s2 where
      "alloc_many n s1 = Ok (take n ps) s2" "avail s2 (drop n ps)" by blast
    moreover have "p \<noteq> 0"
      using Cons Suc.prems avail_valid by (metis list.set_intros(1))
    ultimately show ?thesis using s1 Cons by simp
  qed
qed

lemma alloc_many_distinct:
  assumes "avail s fl" and "alloc_many n s = Ok ps s'"
  shows "distinct ps \<and> (\<forall>p \<in> set ps. valid s p) \<and> length ps = min n (length fl)"
proof -
  from alloc_many_takes [OF assms(1), of n] assms(2) have "ps = take n fl" by simp
  then show ?thesis
    using avail_distinct [OF assms(1)] avail_valid [OF assms(1)]
    by (auto dest: in_set_takeD)
qed

lemma free_then_alloc:
  assumes "avail s fl" and "valid s p" and "p \<notin> set fl"
  shows "\<exists>s1 s2. free p s = Ok () s1 \<and> alloc s1 = Ok p s2 \<and> avail s2 fl"
  using free_ok [OF assms] alloc_some by blast

end

interpretation kmem: page_allocator kalloc kfree kmem_inv page_ok mem
proof
  fix s :: "'a machine_scheme" and fl p
  show "kmem_inv s fl \<Longrightarrow> distinct fl"
    by (simp add: kmem_inv_def)
  show "kmem_inv s fl \<Longrightarrow> p \<in> set fl \<Longrightarrow> page_ok s p \<and> p \<noteq> 0"
    by (auto simp: kmem_inv_def dest: page_ok_nonzero)
  show "kmem_inv s [] \<Longrightarrow> kalloc s = Ok 0 s"
    by (rule kalloc_empty)
  show "\<exists>s'. kalloc s = Ok p s' \<and> kmem_inv s' fl \<and> page_ok s' = page_ok s \<and>
      (\<forall>x. \<not> in_page p x \<longrightarrow> mem s' x = mem s x)" if "kmem_inv s (p # fl)"
  proof -
    from that obtain s' where "kalloc s = Ok p s'" "kmem_inv s' fl"
      "s' = s\<lparr>mem := mem s', freelist := freelist s'\<rparr>"
      "\<And>x. mem s' x = (if in_page p x then 5 else mem s x)" by (rule kalloc_page) blast
    then show ?thesis by (intro exI [of _ s']) (auto dest: page_ok_frame)
  qed
  show "\<exists>s'. kfree p s = Ok () s' \<and> kmem_inv s' (p # fl) \<and> page_ok s' = page_ok s \<and>
      (\<forall>x. \<not> in_page p x \<longrightarrow> mem s' x = mem s x)"
    if "kmem_inv s fl" "page_ok s p" "p \<notin> set fl"
  proof -
    from that obtain s' where "kfree p s = Ok () s'" "kmem_inv s' (p # fl)"
      "s' = s\<lparr>mem := mem s', freelist := freelist s'\<rparr>"
      "\<And>x. \<not> in_page p x \<Longrightarrow> mem s' x = mem s x" by (rule kfree_page) blast
    then show ?thesis by (intro exI [of _ s']) (auto dest: page_ok_frame)
  qed
qed

section \<open>Rounding to page boundaries\<close>

lemma and_not_page_mask: "(a :: u64) AND - 4096 = a - a mod 4096"
proof -
  have n: "NOT (4095 :: u64) = - 4096" by simp
  have m: "(4095 :: u64) = mask 12" by (simp add: mask_eq_exp_minus_1)
  have "a AND NOT (mask 12) = push_bit 12 (drop_bit 12 a)"
    by (rule bit_word_eqI) (auto simp: bit_and_iff bit_not_iff bit_mask_iff bit_push_bit_iff bit_drop_bit_eq)
  also have "\<dots> = a div 4096 * 4096"
    by (simp add: push_bit_eq_mult drop_bit_eq_div)
  also have "\<dots> = a - a mod 4096"
    by (metis add_diff_cancel_right' div_mult_mod_eq)
  finally show ?thesis by (simp only: m flip: n)
qed

lemma unat_PGROUNDDOWN: "unat (PGROUNDDOWN a) = 4096 * (unat a div 4096)"
proof -
  have "a mod 4096 \<le> a" by (simp add: word_le_nat_alt unat_mod)
  then have "unat (a - a mod 4096) = unat a - unat (a mod 4096)" by (rule unat_sub)
  also have "\<dots> = 4096 * (unat a div 4096)"
    by (simp add: unat_mod minus_mod_eq_mult_div)
  finally show ?thesis by (simp add: PGROUNDDOWN_def and_not_page_mask)
qed

lemma unat_PGROUNDUP:
  assumes "unat a + 4095 < 2 ^ 64"
  shows "unat (PGROUNDUP a) = 4096 * ((unat a + 4095) div 4096)"
proof -
  have "PGROUNDUP a = PGROUNDDOWN (a + 4095)"
    by (simp add: PGROUNDUP_def PGROUNDDOWN_def add.commute)
  moreover have "unat (a + 4095) = unat a + 4095"
    using assms by (subst unat_add_small) auto
  ultimately show ?thesis by (simp add: unat_PGROUNDDOWN)
qed


lemma aligned_PGROUNDUP: "aligned (PGROUNDUP a)"
proof -
  have "PGROUNDUP a = PGROUNDDOWN (a + 4095)"
    by (simp add: PGROUNDUP_def PGROUNDDOWN_def add.commute)
  then show ?thesis by (simp add: aligned_unat unat_PGROUNDDOWN)
qed

section \<open>Filling the free list\<close>

lemma unat_next_page: "p \<le> PHYSTOP \<Longrightarrow> unat (p + PGSIZE) = unat p + 4096"
  by (subst unat_add_small) (auto simp: word_le_nat_alt)

lemma aligned_dvd: "aligned p \<longleftrightarrow> 4096 dvd unat p"
  by (simp add: aligned_unat mod_eq_0_iff_dvd)

lemma aligned_next: "aligned p \<Longrightarrow> p \<le> PHYSTOP \<Longrightarrow> aligned (p + PGSIZE)"
  by (simp add: aligned_dvd unat_next_page)

lemma aligned_less_next:
  assumes "aligned p" and "aligned q" and "p \<le> PHYSTOP"
  shows "q < p + PGSIZE \<longleftrightarrow> q \<le> p"
proof -
  from assms obtain i j where "unat p = 4096 * i" "unat q = 4096 * j"
    by (auto simp: aligned_dvd elim!: dvdE)
  with unat_next_page [OF assms(3)] show ?thesis
    by (auto simp: word_less_nat_alt word_le_nat_alt)
qed

lemma freerange_loop_all:
  assumes "kmem_inv s fl" and "aligned p" and "kend s \<le> p" and "p \<le> PHYSTOP"
    and "set fl = {q. page_ok s q \<and> q < p}"
  shows "\<exists>s' fl'. freerange_loop p PHYSTOP s = Ok () s' \<and> kmem_inv s' fl' \<and>
           set fl' = {q. page_ok s q}"
  using assms
proof (induction p "PHYSTOP :: u64" s arbitrary: fl rule: freerange_loop.induct)
  case (1 p s)
  have top: "aligned PHYSTOP" by (simp add: aligned_def)
  have next_iff: "p + PGSIZE \<le> PHYSTOP \<longleftrightarrow> p < PHYSTOP"
    using aligned_less_next [OF "1.prems"(2) top "1.prems"(4)] by auto
  show ?case
  proof (cases "p < PHYSTOP")
    case True
    with "1.prems" have ok: "page_ok s p" and new: "p \<notin> set fl" by (simp_all add: page_ok_def)
    obtain s1 where s1: "kfree p s = Ok () s1" "kmem_inv s1 (p # fl)"
      "s1 = s\<lparr>mem := mem s1, freelist := freelist s1\<rparr>"
      by (rule kfree_page [OF "1.prems"(1) ok new]) blast
    have same: "page_ok s1 = page_ok s" by (rule page_ok_frame [OF s1(3)])
    have kend: "kend s1 = kend s" by (subst s1(3)) simp
    have "q < p + PGSIZE \<longleftrightarrow> q < p \<or> q = p" if "page_ok s q" for q
      using that "1.prems"(2,4) aligned_less_next [of p q] by (auto simp: page_ok_def)
    then have "set (p # fl) = {q. page_ok s1 q \<and> q < p + PGSIZE}"
      unfolding same using "1.prems"(5) ok by auto
    moreover have "kend s1 \<le> p + PGSIZE"
      using "1.prems"(3,4) unat_next_page [of p] by (simp add: kend word_le_nat_alt)
    moreover have "aligned (p + PGSIZE)" using "1.prems" by (simp add: aligned_next)
    ultimately have "\<exists>s' fl'. freerange_loop (p + PGSIZE) PHYSTOP s1 = Ok () s' \<and>
        kmem_inv s' fl' \<and> set fl' = {q. page_ok s1 q}"
      using "1.hyps" [of "()" s1 "p # fl"] s1 next_iff True by blast
    with s1(1) same next_iff True show ?thesis
      by (subst freerange_loop.simps) auto
  next
    case False
    with "1.prems"(4) have "p = PHYSTOP" by simp
    with "1.prems" next_iff show ?thesis
      by (subst freerange_loop.simps) (auto simp: page_ok_def)
  qed
qed

section \<open>Properties\<close>

text \<open>C13: \<open>kinit\<close> on an empty free list returns with every usable page of physical memory on
  the list: exactly the page-aligned addresses from \<open>end\<close> up to \<open>PHYSTOP\<close>, each once.\<close>

theorem kinit_frees_all_pages:
  assumes "freelist s = 0" and "0 < kend s" and "kend s \<le> PHYSTOP"
  shows "\<exists>s' fl. kinit s = Ok () s' \<and> kmem_inv s' fl \<and> set fl = {p. page_ok s p}"
proof -
  have "unat (kend s) \<le> 0x88000000" using assms(3) by (simp add: word_le_nat_alt)
  then have up: "unat (PGROUNDUP (kend s)) = 4096 * ((unat (kend s) + 4095) div 4096)"
    by (intro unat_PGROUNDUP) simp
  have "kend s \<le> PGROUNDUP (kend s)" "PGROUNDUP (kend s) \<le> PHYSTOP"
    using up \<open>unat (kend s) \<le> 0x88000000\<close> by (auto simp: word_le_nat_alt)
  moreover have "\<not> (page_ok s q \<and> q < PGROUNDUP (kend s))" for q
  proof
    assume q: "page_ok s q \<and> q < PGROUNDUP (kend s)"
    then obtain k where "unat q = 4096 * k"
      by (auto simp: page_ok_def aligned_dvd elim!: dvdE)
    with q up show False by (auto simp: page_ok_def word_le_nat_alt word_less_nat_alt)
  qed
  moreover have "kmem_inv s []" using assms by (simp add: kmem_inv_def)
  ultimately show ?thesis
    using freerange_loop_all [of s "[]" "PGROUNDUP (kend s)"]
    by (auto simp: kinit_def freerange_def aligned_PGROUNDUP)
qed

theorem kinit_frees_all_pages_witness:
  "\<exists>s' fl. kinit \<lparr>mem = (\<lambda>_. 0), freelist = 0, kend = 0x80021000, etext = 0x80008000,
               trampoline = 0x80007000\<rparr> = Ok () s' \<and> kmem_inv s' fl \<and> 0x87fff000 \<in> set fl"
proof -
  let ?s = "\<lparr>mem = (\<lambda>_. 0), freelist = 0, kend = 0x80021000, etext = 0x80008000,
               trampoline = 0x80007000\<rparr>"
  have "freelist ?s = 0" "0 < kend ?s" "kend ?s \<le> PHYSTOP" by simp_all
  from kinit_frees_all_pages [OF this] obtain s' fl where
    "kinit ?s = Ok () s'" "kmem_inv s' fl" "set fl = {p. page_ok ?s p}" by blast
  moreover have "page_ok ?s 0x87fff000" by (simp add: page_ok_def aligned_def)
  ultimately show ?thesis by blast
qed

text \<open>C14: As long as the free list is well formed, \<open>kalloc\<close> returns 0 exactly when no page is
  free; otherwise it returns a page that was free, removes that page from the free pages,
  fills it with 5 and leaves the rest of memory alone. Two successful calls in a row never
  return the same page.\<close>

theorem kalloc_hands_out_free_page:
  assumes "kmem_inv s fl" and "kalloc s = Ok p s1" and "kalloc s1 = Ok q s2"
  shows "(p = 0 \<longleftrightarrow> fl = []) \<and> (p \<noteq> 0 \<longrightarrow> page_ok s p \<and> p = hd fl \<and> kmem_inv s1 (tl fl) \<and>
           (\<forall>x. mem s1 x = (if in_page p x then 5 else mem s x))) \<and>
         (q \<noteq> 0 \<longrightarrow> p \<noteq> q \<and> page_ok s q)"
proof (cases fl)
  case Nil
  with assms show ?thesis by (simp add: kalloc_empty)
next
  case (Cons a fl')
  with assms obtain s' where s': "kalloc s = Ok a s'" "kmem_inv s' fl'"
    "s' = s\<lparr>mem := mem s', freelist := freelist s'\<rparr>"
    "\<And>x. mem s' x = (if in_page a x then 5 else mem s x)" by (auto elim: kalloc_page)
  with assms(2) have eq: "p = a" "s1 = s'" by auto
  have inv: "page_ok s x" "x \<noteq> 0" if "x \<in> set fl" for x
    using assms(1) that kmem.avail_valid by blast+
  have "q \<noteq> 0 \<longrightarrow> p \<noteq> q \<and> page_ok s q"
  proof (cases fl')
    case Nil
    with s'(2) assms(3) eq show ?thesis by (simp add: kalloc_empty)
  next
    case (Cons b fl'')
    then have "q = b" using s'(2) assms(3) eq kmem.alloc_some by fastforce
    with Cons \<open>fl = a # fl'\<close> inv eq assms(1) show ?thesis by (auto simp: kmem_inv_def)
  qed
  with Cons s' eq inv show ?thesis by auto
qed

text \<open>A small instance: three pages, the first two on the free list.\<close>

definition tiny_machine :: machine where
  "tiny_machine = \<lparr>mem = store64 (store64 (\<lambda>_. 0) 0x80022000 0) 0x80021000 0x80022000,
     freelist = 0x80021000, kend = 0x80021000, etext = 0x80008000, trampoline = 0x80007000\<rparr>"

lemma tiny_machine_inv: "kmem_inv tiny_machine [0x80021000, 0x80022000]"
proof -
  let ?m = "store64 (store64 (\<lambda>_. 0) 0x80022000 0) 0x80021000 0x80022000"
  have "load64 ?m 0x80021000 = 0x80022000" by (rule load64_store64)
  moreover have "load64 ?m 0x80022000 = load64 (store64 (\<lambda>_. 0) 0x80022000 0) 0x80022000"
    by (rule load64_other_page [of "0x80021000"])
      (auto simp: aligned_def store64_outside in_page_def)
  ultimately show ?thesis
    by (simp add: kmem_inv_def tiny_machine_def load64_store64 page_ok_def aligned_def)
qed

theorem kalloc_hands_out_free_page_witness:
  "\<exists>s1 s2. kalloc tiny_machine = Ok 0x80021000 s1 \<and> kalloc s1 = Ok 0x80022000 s2 \<and>
     kmem_inv s1 [0x80022000]"
proof -
  from kmem.alloc_some [OF tiny_machine_inv] obtain s1 where
    s1: "kalloc tiny_machine = Ok 0x80021000 s1" "kmem_inv s1 [0x80022000]" by blast
  from kmem.alloc_some [OF s1(2)] obtain s2 where s2: "kalloc s1 = Ok 0x80022000 s2" by blast
  from kalloc_hands_out_free_page [OF tiny_machine_inv s1(1) s2] s1 s2 show ?thesis by auto
qed

text \<open>C15: \<open>kfree\<close> panics exactly on an address that is not a page of the allocator's range.
  Freeing a page that is not already free makes it the next page \<open>kalloc\<close> returns, after
  which the free pages are what they were before.\<close>

theorem kfree_kalloc_round_trip:
  "(kfree p s = Panic ''kfree'' \<longleftrightarrow> \<not> page_ok s p) \<and>
   (kmem_inv s fl \<and> page_ok s p \<and> p \<notin> set fl \<longrightarrow>
      (\<exists>s1 s2. kfree p s = Ok () s1 \<and> kalloc s1 = Ok p s2 \<and> kmem_inv s2 fl))"
proof (intro conjI impI)
  show "kfree p s = Panic ''kfree'' \<longleftrightarrow> \<not> page_ok s p"
    by (auto simp: kfree_def page_ok_def aligned_def Let_def)
  show "\<exists>s1 s2. kfree p s = Ok () s1 \<and> kalloc s1 = Ok p s2 \<and> kmem_inv s2 fl"
    if "kmem_inv s fl \<and> page_ok s p \<and> p \<notin> set fl"
    using that kmem.free_then_alloc by blast
qed

theorem kfree_kalloc_round_trip_witness:
  "\<exists>s1 s2. kfree 0x80023000 tiny_machine = Ok () s1 \<and> kalloc s1 = Ok 0x80023000 s2 \<and>
     kmem_inv s2 [0x80021000, 0x80022000]"
  using kfree_kalloc_round_trip [of "0x80023000" tiny_machine "[0x80021000, 0x80022000]"]
    tiny_machine_inv by (simp add: page_ok_def aligned_def tiny_machine_def)

end
