(* ===== verification/Kstate.thy ===== *)
theory Kstate
  imports Kalloc
begin

text \<open>
  The process table and the other globals of \<open>kernel/proc.c\<close>, with the structures of
  \<open>kernel/proc.h\<close>, and the operations on them that every other component calls:
  \<open>myproc\<close>, \<open>sleep\<close>, \<open>wakeup\<close>, \<open>killed\<close>, \<open>setkilled\<close> and \<open>allocpid\<close>. The state is the machine
  extended by these globals; the components above extend it further, so an operation here
  applies to their states unchanged. A \<open>struct proc *\<close> is an index into the table, an open
  file or inode pointer an index into its table. The trapframe page is represented by its
  address \<open>p_tfpage\<close> together with the structure it holds, \<open>p_tf\<close>. A process calls \<open>sleep\<close>
  only inside a loop that tests its condition again; the model stops at the \<open>Sleep\<close>
  outcome, in the state in which the scheduler takes over.
\<close>

datatype procstate = UNUSED | USED | SLEEPING | RUNNABLE | RUNNING | ZOMBIE

record kcontext =
  ctx_ra :: u64
  ctx_sp :: u64
  ctx_s :: "u64 list"

record trapframe =
  tf_kernel_satp :: u64
  tf_kernel_sp :: u64
  tf_kernel_trap :: u64
  tf_epc :: u64
  tf_kernel_hartid :: u64
  tf_ra :: u64
  tf_sp :: u64
  tf_gp :: u64
  tf_tp :: u64
  tf_t0 :: u64
  tf_t1 :: u64
  tf_t2 :: u64
  tf_s0 :: u64
  tf_s1 :: u64
  tf_a0 :: u64
  tf_a1 :: u64
  tf_a2 :: u64
  tf_a3 :: u64
  tf_a4 :: u64
  tf_a5 :: u64
  tf_a6 :: u64
  tf_a7 :: u64
  tf_s2 :: u64
  tf_s3 :: u64
  tf_s4 :: u64
  tf_s5 :: u64
  tf_s6 :: u64
  tf_s7 :: u64
  tf_s8 :: u64
  tf_s9 :: u64
  tf_s10 :: u64
  tf_s11 :: u64
  tf_t3 :: u64
  tf_t4 :: u64
  tf_t5 :: u64
  tf_t6 :: u64

record proc =
  p_state :: procstate
  p_chan :: "chan option"
  p_killed :: bool
  p_xstate :: int
  p_pid :: int
  p_fork_count :: int
  p_parent :: "nat option"
  p_kstack :: u64
  p_sz :: u64
  p_pagetable :: u64
  p_tfpage :: u64
  p_tf :: trapframe
  p_context :: kcontext
  p_ofile :: "nat option list"
  p_cwd :: "nat option"
  p_name :: "byte list"
  p_pending_signals :: u32
  p_signal_handlers :: "u64 list"
  p_saved_trapframe :: trapframe
  p_handling_signal :: bool
  p_ipc_ready :: bool
  p_ipc_len :: int
  p_ipc_msg :: "byte list"

record pstate = machine +
  procs :: "proc list"
  cur :: "nat option"
  nextpid :: int
  initproc :: "nat option"
  ticks :: u32
  forkret_pc :: u64

abbreviation NPROC :: nat where "NPROC \<equiv> 64"
abbreviation NOFILE :: nat where "NOFILE \<equiv> 16"
abbreviation NSIG :: nat where "NSIG \<equiv> 32"
abbreviation IPC_MAX_MSG :: nat where "IPC_MAX_MSG \<equiv> 64"

abbreviation me :: "'z pstate_scheme \<Rightarrow> nat" where
  "me s \<equiv> the (cur s)"

definition myproc :: "'z pstate_scheme \<Rightarrow> proc" where
  "myproc s = procs s ! me s"

definition upd_proc :: "nat \<Rightarrow> (proc \<Rightarrow> proc) \<Rightarrow> 'z pstate_scheme \<Rightarrow> 'z pstate_scheme" where
  "upd_proc i f s = s\<lparr>procs := list_modify i f (procs s)\<rparr>"

definition allocpid :: "'z pstate_scheme \<Rightarrow> (int, 'z pstate_scheme) res" where
  "allocpid s = Ok (nextpid s) (s\<lparr>nextpid := nextpid s + 1\<rparr>)"

definition sleep :: "chan \<Rightarrow> 'z pstate_scheme \<Rightarrow> ('a, 'z pstate_scheme) res" where
  "sleep c s = Sleep c (upd_proc (me s) (\<lambda>p. p\<lparr>p_chan := Some c, p_state := SLEEPING\<rparr>) s)"

definition wake_one :: "chan \<Rightarrow> proc \<Rightarrow> proc" where
  "wake_one c p =
     (if p_state p = SLEEPING \<and> p_chan p = Some c then p\<lparr>p_state := RUNNABLE\<rparr> else p)"

definition wakeup :: "chan \<Rightarrow> 'z pstate_scheme \<Rightarrow> 'z pstate_scheme" where
  "wakeup c s = s\<lparr>procs := map (\<lambda>i. if cur s \<noteq> Some i then wake_one c (procs s ! i) else procs s ! i)
                               [0..<length (procs s)]\<rparr>"

definition setkilled :: "nat \<Rightarrow> 'z pstate_scheme \<Rightarrow> 'z pstate_scheme" where
  "setkilled i s = upd_proc i (\<lambda>p. p\<lparr>p_killed := True\<rparr>) s"

definition killed :: "nat \<Rightarrow> 'z pstate_scheme \<Rightarrow> bool" where
  "killed i s = p_killed (procs s ! i)"

section \<open>Laws\<close>

named_theorems proc_simps \<open>reading the process table after an update\<close>

lemma procs_upd_proc [proc_simps]: "procs (upd_proc i f s) = list_modify i f (procs s)"
  by (simp add: upd_proc_def)

lemma nth_upd_proc [proc_simps]:
  "j < length (procs s) \<Longrightarrow>
   procs (upd_proc i f s) ! j = (if i = j then f (procs s ! j) else procs s ! j)"
  by (simp add: upd_proc_def)

lemma length_upd_proc [simp]: "length (procs (upd_proc i f s)) = length (procs s)"
  by (simp add: upd_proc_def)

lemma upd_proc_fields [simp]:
  "mem (upd_proc i f s) = mem s" "freelist (upd_proc i f s) = freelist s"
  "kend (upd_proc i f s) = kend s" "cur (upd_proc i f s) = cur s"
  "nextpid (upd_proc i f s) = nextpid s" "initproc (upd_proc i f s) = initproc s"
  "ticks (upd_proc i f s) = ticks s"
  by (simp_all add: upd_proc_def)

lemma nth_wakeup [proc_simps]:
  "j < length (procs s) \<Longrightarrow>
   procs (wakeup c s) ! j = (if cur s \<noteq> Some j then wake_one c (procs s ! j) else procs s ! j)"
  by (simp add: wakeup_def)

lemma length_wakeup [simp]: "length (procs (wakeup c s)) = length (procs s)"
  by (simp add: wakeup_def)

lemma wakeup_fields [simp]:
  "mem (wakeup c s) = mem s" "freelist (wakeup c s) = freelist s"
  "kend (wakeup c s) = kend s" "cur (wakeup c s) = cur s"
  "nextpid (wakeup c s) = nextpid s" "initproc (wakeup c s) = initproc s"
  "ticks (wakeup c s) = ticks s"
  by (simp_all add: wakeup_def)

end
