(* ===== verification/Locks.thy ===== *)
theory Locks
  imports Kstate
begin

text \<open>
  Spin locks with their interrupt nesting, \<open>kernel/spinlock.c\<close>, and sleep locks,
  \<open>kernel/sleeplock.c\<close>.

  Spin locks are modelled at the granularity of the memory accesses that other processors
  can see. A processor inside \<open>acquire\<close> or \<open>release\<close> is at one of the program points
  \<open>Spinning\<close> (after \<open>push_off\<close> and the \<open>holding\<close> test), \<open>Won\<close> (its swap returned zero, the
  owner field not yet written) and \<open>Releasing\<close> (the owner field cleared, the lock word not
  yet); everywhere else it is \<open>Outside\<close>. \<open>smp_step\<close> interleaves the processors; \<open>pushes\<close>
  counts the calls of \<open>push_off\<close> outside \<open>acquire\<close> that are not yet undone, such as the
  ones in \<open>myproc\<close>. Code outside the lock routines enables interrupts only where the
  kernel does, with no nesting left. The other components treat a critical section as one
  step, which the mutual exclusion proved here allows.
\<close>

section \<open>Spin locks\<close>

record spinlock =
  lk_locked :: bool
  lk_cpu :: "nat option"

record cpu =
  noff :: int
  intena :: bool
  sie :: bool

datatype lockpc = Outside | Spinning nat | Won nat | Releasing nat

record smp =
  cpus :: "nat \<Rightarrow> cpu"
  locks :: "nat \<Rightarrow> spinlock"
  lockpcs :: "nat \<Rightarrow> lockpc"
  pushes :: "nat \<Rightarrow> nat"

definition initlock :: "nat \<Rightarrow> smp \<Rightarrow> smp" where
  "initlock l s = s\<lparr>locks := (locks s)(l := \<lparr>lk_locked = False, lk_cpu = None\<rparr>)\<rparr>"

definition holding :: "nat \<Rightarrow> nat \<Rightarrow> smp \<Rightarrow> bool" where
  "holding c l s \<longleftrightarrow> lk_locked (locks s l) \<and> lk_cpu (locks s l) = Some c"

definition push_off :: "nat \<Rightarrow> smp \<Rightarrow> smp" where
  "push_off c s =
     (let old = sie (cpus s c);
          p = (cpus s c)\<lparr>sie := False\<rparr>;
          p = (if noff p = 0 then p\<lparr>intena := old\<rparr> else p)
      in s\<lparr>cpus := (cpus s)(c := p\<lparr>noff := noff p + 1\<rparr>)\<rparr>)"

definition pop_off :: "nat \<Rightarrow> smp \<Rightarrow> (unit, smp) res" where
  "pop_off c s =
     (let p = cpus s c
      in if sie p then Panic ''pop_off - interruptible''
         else if noff p < 1 then Panic ''pop_off''
         else let p = p\<lparr>noff := noff p - 1\<rparr>;
                  p = (if noff p = 0 \<and> intena p then p\<lparr>sie := True\<rparr> else p)
              in Ok () (s\<lparr>cpus := (cpus s)(c := p)\<rparr>))"

definition acquire_enter :: "nat \<Rightarrow> nat \<Rightarrow> smp \<Rightarrow> (unit, smp) res" where
  "acquire_enter c l s =
     (let s = push_off c s
      in if holding c l s then Panic ''acquire''
         else Ok () (s\<lparr>lockpcs := (lockpcs s)(c := Spinning l)\<rparr>))"

definition acquire_swap :: "nat \<Rightarrow> nat \<Rightarrow> smp \<Rightarrow> smp" where
  "acquire_swap c l s =
     (if lk_locked (locks s l) then s
      else s\<lparr>locks := (locks s)(l := (locks s l)\<lparr>lk_locked := True\<rparr>),
             lockpcs := (lockpcs s)(c := Won l)\<rparr>)"

definition acquire_own :: "nat \<Rightarrow> nat \<Rightarrow> smp \<Rightarrow> smp" where
  "acquire_own c l s =
     s\<lparr>locks := (locks s)(l := (locks s l)\<lparr>lk_cpu := Some c\<rparr>),
       lockpcs := (lockpcs s)(c := Outside)\<rparr>"

definition release_enter :: "nat \<Rightarrow> nat \<Rightarrow> smp \<Rightarrow> (unit, smp) res" where
  "release_enter c l s =
     (if \<not> holding c l s then Panic ''release''
      else Ok () (s\<lparr>locks := (locks s)(l := (locks s l)\<lparr>lk_cpu := None\<rparr>),
                    lockpcs := (lockpcs s)(c := Releasing l)\<rparr>))"

definition release_store :: "nat \<Rightarrow> nat \<Rightarrow> smp \<Rightarrow> (unit, smp) res" where
  "release_store c l s =
     pop_off c (s\<lparr>locks := (locks s)(l := (locks s l)\<lparr>lk_locked := False\<rparr>),
                  lockpcs := (lockpcs s)(c := Outside)\<rparr>)"

inductive smp_step :: "smp \<Rightarrow> smp \<Rightarrow> bool" where
  acquire_enter: "lockpcs s c = Outside \<Longrightarrow> acquire_enter c l s = Ok u s' \<Longrightarrow> smp_step s s'"
| acquire_swap: "lockpcs s c = Spinning l \<Longrightarrow> smp_step s (acquire_swap c l s)"
| acquire_own: "lockpcs s c = Won l \<Longrightarrow> smp_step s (acquire_own c l s)"
| release_enter: "lockpcs s c = Outside \<Longrightarrow> release_enter c l s = Ok u s' \<Longrightarrow> smp_step s s'"
| release_store: "lockpcs s c = Releasing l \<Longrightarrow> release_store c l s = Ok u s' \<Longrightarrow> smp_step s s'"
| push: "lockpcs s c = Outside \<Longrightarrow>
    smp_step s ((push_off c s)\<lparr>pushes := (pushes s)(c := Suc (pushes s c))\<rparr>)"
| pop: "lockpcs s c = Outside \<Longrightarrow> 0 < pushes s c \<Longrightarrow> pop_off c s = Ok u s' \<Longrightarrow>
    smp_step s (s'\<lparr>pushes := (pushes s)(c := pushes s c - 1)\<rparr>)"
| intr: "lockpcs s c = Outside \<Longrightarrow> noff (cpus s c) = 0 \<Longrightarrow>
    smp_step s (s\<lparr>cpus := (cpus s)(c := (cpus s c)\<lparr>sie := b\<rparr>)\<rparr>)"

inductive smp_reach :: "smp \<Rightarrow> bool" where
  boot: "(\<And>c. noff (cpus s c) = 0) \<Longrightarrow> (\<And>l. locks s l = \<lparr>lk_locked = False, lk_cpu = None\<rparr>) \<Longrightarrow>
    (\<And>c. lockpcs s c = Outside) \<Longrightarrow> (\<And>c. pushes s c = 0) \<Longrightarrow> smp_reach s"
| step: "smp_reach s \<Longrightarrow> smp_step s s' \<Longrightarrow> smp_reach s'"

definition inside :: "smp \<Rightarrow> nat \<Rightarrow> nat \<Rightarrow> bool" where
  "inside s c l \<longleftrightarrow> lockpcs s c = Won l \<or> lockpcs s c = Releasing l"

definition held :: "smp \<Rightarrow> nat \<Rightarrow> nat set" where
  "held s c = {l. lk_cpu (locks s l) = Some c}"

definition lock_ok :: "spinlock \<Rightarrow> nat set \<Rightarrow> bool" where
  "lock_ok k I \<longleftrightarrow>
     (case lk_cpu k of
        Some c \<Rightarrow> lk_locked k \<and> I = {}
      | None \<Rightarrow> if lk_locked k then \<exists>c. I = {c} else I = {})"

definition lock_inv :: "smp \<Rightarrow> bool" where
  "lock_inv s \<longleftrightarrow> (\<forall>l. lock_ok (locks s l) {c. inside s c l})"

definition nest_inv :: "smp \<Rightarrow> bool" where
  "nest_inv s \<longleftrightarrow>
     (\<forall>c. finite (held s c) \<and>
          noff (cpus s c) = int (pushes s c + card (held s c) + (if lockpcs s c = Outside then 0 else 1)) \<and>
          (0 < noff (cpus s c) \<longrightarrow> \<not> sie (cpus s c)))"

lemma push_off_fields [simp]:
  "locks (push_off c s) = locks s" "lockpcs (push_off c s) = lockpcs s" "pushes (push_off c s) = pushes s"
  "noff (cpus (push_off c s) d) = noff (cpus s d) + (if d = c then 1 else 0)"
  "sie (cpus (push_off c s) d) = (sie (cpus s d) \<and> d \<noteq> c)"
  by (auto simp: push_off_def Let_def)

lemma pop_off_Ok:
  "pop_off c s = Ok u s' \<Longrightarrow>
   locks s' = locks s \<and> lockpcs s' = lockpcs s \<and> pushes s' = pushes s \<and>
   noff (cpus s' c) = noff (cpus s c) - 1 \<and>
   (\<forall>d. d \<noteq> c \<longrightarrow> cpus s' d = cpus s d) \<and> (0 < noff (cpus s' c) \<longrightarrow> \<not> sie (cpus s' c))"
  by (auto simp: pop_off_def Let_def split: if_splits)

lemma lock_inv_moved:
  assumes "lock_inv s" and "lockpcs s' = (lockpcs s)(c := pc)"
    and "\<And>k. lockpcs s c = Won k \<or> lockpcs s c = Releasing k \<or> pc = Won k \<or> pc = Releasing k \<Longrightarrow> k = l"
    and "\<And>k. k \<noteq> l \<Longrightarrow> locks s' k = locks s k"
    and "lock_ok (locks s' l)
           (if pc = Won l \<or> pc = Releasing l then insert c {d. inside s d l} else {d. inside s d l} - {c})"
  shows "lock_inv s'"
  unfolding lock_inv_def
proof
  fix k
  have eq: "{d. inside s' d k} =
     (if pc = Won k \<or> pc = Releasing k then insert c {d. inside s d k} else {d. inside s d k} - {c})"
    using assms(2) by (auto simp: inside_def)
  show "lock_ok (locks s' k) {d. inside s' d k}"
  proof (cases "k = l")
    case True
    show ?thesis unfolding eq unfolding True by (rule assms(5))
  next
    case False
    then have "\<not> (pc = Won k \<or> pc = Releasing k)" and "c \<notin> {d. inside s d k}"
      using assms(3) [of k] by (auto simp: inside_def)
    then have "{d. inside s' d k} = {d. inside s d k}" unfolding eq by simp
    then show ?thesis using assms(1) assms(4) [OF False] by (simp add: lock_inv_def)
  qed
qed

lemma lock_invD: "lock_inv s \<Longrightarrow> lock_ok (locks s l) {c. inside s c l}"
  by (simp add: lock_inv_def)

lemma lock_ok_member: "lock_ok k I \<Longrightarrow> c \<in> I \<Longrightarrow> lk_cpu k = None \<and> lk_locked k \<and> I = {c}"
  by (auto simp: lock_ok_def split: option.splits if_splits)

lemma lock_inv_step: "smp_step s s' \<Longrightarrow> lock_inv s \<Longrightarrow> lock_inv s'"
proof (induction rule: smp_step.induct)
  case (acquire_enter s c l u s')
  then have s': "s' = (push_off c s)\<lparr>lockpcs := (lockpcs s)(c := Spinning l)\<rparr>"
    by (simp add: acquire_enter_def Let_def split: if_splits)
  show ?case
    by (rule lock_inv_moved [where s = s and c = c and pc = "Spinning l" and l = l]) (use s' acquire_enter lock_invD [of s l] in \<open>auto simp: inside_def\<close>)
next
  case (acquire_swap s c l)
  show ?case
  proof (cases "lk_locked (locks s l)")
    case True
    then show ?thesis using acquire_swap by (simp add: acquire_swap_def)
  next
    case False
    show ?thesis
      by (rule lock_inv_moved [where s = s and c = c and pc = "Won l" and l = l]) (use False acquire_swap lock_invD [of s l] in
          \<open>auto simp: acquire_swap_def lock_ok_def split: option.splits\<close>)
  qed
next
  case (acquire_own s c l)
  then have ok: "lk_cpu (locks s l) = None" "lk_locked (locks s l)" "{d. inside s d l} = {c}"
    using lock_ok_member [OF lock_invD, of s c l] by (auto simp: inside_def)
  show ?case
    by (rule lock_inv_moved [where s = s and c = c and pc = Outside and l = l]) (use ok acquire_own in \<open>auto simp: acquire_own_def lock_ok_def\<close>)
next
  case (release_enter s c l u s')
  show ?case
    by (rule lock_inv_moved [where s = s and c = c and pc = "Releasing l" and l = l]) (use release_enter lock_invD [of s l] in
        \<open>auto simp: release_enter_def holding_def lock_ok_def split: if_splits\<close>)
next
  case (release_store s c l u s')
  then have ok: "lk_cpu (locks s l) = None" "lk_locked (locks s l)" "{d. inside s d l} = {c}"
    using lock_ok_member [OF lock_invD, of s c l] by (auto simp: inside_def)
  show ?case
    by (rule lock_inv_moved [where s = s and c = c and pc = Outside and l = l]) (use ok release_store in \<open>auto simp: release_store_def lock_ok_def dest!: pop_off_Ok\<close>)
next
  case (push s c)
  then show ?case by (simp add: lock_inv_def inside_def)
next
  case (pop s c u s')
  then show ?case by (auto simp: lock_inv_def inside_def dest: pop_off_Ok)
next
  case (intr s c b)
  then show ?case by (simp add: lock_inv_def inside_def)
qed

lemma held_upd:
  "held (s\<lparr>locks := (locks s)(l := k), lockpcs := P\<rparr>) c =
     (if lk_cpu k = Some c then insert l (held s c) else held s c - {l})"
  by (auto simp: held_def)

lemma held_same:
  "lk_cpu k = lk_cpu (locks s l) \<Longrightarrow> held (s\<lparr>locks := (locks s)(l := k), lockpcs := P\<rparr>) c = held s c"
  by (auto simp: held_def)

lemma nest_inv_step: "smp_step s s' \<Longrightarrow> lock_inv s \<Longrightarrow> nest_inv s \<Longrightarrow> nest_inv s'"
proof (induction rule: smp_step.induct)
  case (acquire_enter s c l u s')
  then have "s' = (push_off c s)\<lparr>lockpcs := (lockpcs s)(c := Spinning l)\<rparr>"
    by (simp add: acquire_enter_def Let_def split: if_splits)
  with acquire_enter show ?case
    by (auto simp: nest_inv_def held_def)
next
  case (acquire_swap s c l)
  then show ?case
    by (auto simp: acquire_swap_def nest_inv_def held_same)
next
  case (acquire_own s c l)
  then have "lk_cpu (locks s l) = None"
    using lock_invD [of s l] by (auto simp: lock_ok_def inside_def split: option.splits)
  then have "l \<notin> held s d" for d by (simp add: held_def)
  with acquire_own show ?case
    by (auto simp: acquire_own_def nest_inv_def held_upd)
next
  case (release_enter s c l u s')
  then have l: "l \<in> held s c" "\<And>d. d \<noteq> c \<Longrightarrow> l \<notin> held s d"
    and s': "s' = s\<lparr>locks := (locks s)(l := (locks s l)\<lparr>lk_cpu := None\<rparr>),
                    lockpcs := (lockpcs s)(c := Releasing l)\<rparr>"
    by (auto simp: release_enter_def holding_def held_def split: if_splits)
  have "finite (held s c)" using release_enter by (simp add: nest_inv_def)
  with l have "card (held s c) = Suc (card (held s c - {l}))" by (metis card_Suc_Diff1)
  with l release_enter show ?case
    by (auto simp: s' nest_inv_def held_upd)
next
  case (release_store s c l u s')
  note facts = release_store(2) [unfolded release_store_def, THEN pop_off_Ok, simplified]
  have "held s' d = held s d" for d using facts by (auto simp: held_def)
  with facts release_store(1,4) show ?case by (auto simp: nest_inv_def)
next
  case (push s c)
  then show ?case by (auto simp: nest_inv_def held_def)
next
  case (pop s c u s')
  from pop(3) [THEN pop_off_Ok] pop show ?case
    by (auto simp: nest_inv_def held_def)
next
  case (intr s c b)
  then show ?case by (auto simp: nest_inv_def held_def)
qed

lemma smp_reach_inv: "smp_reach s \<Longrightarrow> lock_inv s \<and> nest_inv s"
proof (induction rule: smp_reach.induct)
  case (boot s)
  then show ?case by (simp add: lock_inv_def lock_ok_def nest_inv_def held_def inside_def)
next
  case (step s s')
  then show ?case by (auto intro: lock_inv_step nest_inv_step)
qed

definition crit :: "smp \<Rightarrow> nat \<Rightarrow> nat \<Rightarrow> bool" where
  "crit s c l \<longleftrightarrow> holding c l s \<or> inside s c l"

lemma inside_sole:
  assumes "lock_inv s" and "inside s c l"
  shows "lk_cpu (locks s l) = None" and "inside s d l \<Longrightarrow> d = c"
proof -
  have ok: "lock_ok (locks s l) {d. inside s d l}" "c \<in> {d. inside s d l}"
    using assms by (auto intro: lock_invD)
  from lock_ok_member [OF ok] show "lk_cpu (locks s l) = None" by simp
  have "d \<in> {d. inside s d l}" if "inside s d l" using that by simp
  then show "inside s d l \<Longrightarrow> d = c" unfolding lock_ok_member [OF ok, THEN conjunct2, THEN conjunct2] by simp
qed

lemma crit_unique: "lock_inv s \<Longrightarrow> crit s c l \<Longrightarrow> crit s d l \<Longrightarrow> c = d"
  unfolding crit_def holding_def by (metis inside_sole option.distinct(1) option.inject)

lemma crit_nested: "nest_inv s \<Longrightarrow> crit s c l \<Longrightarrow> 0 < noff (cpus s c)"
proof -
  assume inv: "nest_inv s" and c: "crit s c l"
  show ?thesis
  proof (cases "lockpcs s c = Outside")
    case True
    with c have "l \<in> held s c" by (auto simp: crit_def holding_def held_def inside_def)
    then have "0 < card (held s c)" using inv by (auto simp: nest_inv_def card_gt_0_iff)
    then show ?thesis using inv True by (simp add: nest_inv_def)
  next
    case False
    then show ?thesis using inv by (simp add: nest_inv_def)
  qed
qed

lemma pop_off_total: "0 < noff (cpus s c) \<Longrightarrow> \<not> sie (cpus s c) \<Longrightarrow> \<exists>s'. pop_off c s = Ok () s'"
  by (simp add: pop_off_def Let_def)

text \<open>C16: Spin locks, under every interleaving of the processors' lock operations, give mutual
  exclusion (two processors between the winning swap and the final store of the same lock are
  the same processor), run their critical sections with interrupts disabled, and never panic
  in the store of \<open>release\<close> or in a matched \<open>pop_off\<close>; a processor that tries to take a lock
  it holds panics instead of deadlocking.\<close>
theorem spinlock_mutual_exclusion:
  assumes "smp_reach s"
  shows "(crit s c l \<and> crit s d l \<longrightarrow> c = d) \<and>
    (crit s c l \<longrightarrow> \<not> sie (cpus s c)) \<and>
    (lockpcs s c = Releasing l \<longrightarrow> (\<exists>s'. release_store c l s = Ok () s')) \<and>
    (lockpcs s c = Outside \<and> 0 < pushes s c \<longrightarrow> (\<exists>s'. pop_off c s = Ok () s')) \<and>
    (holding c l s \<longrightarrow> acquire_enter c l s = Panic ''acquire'')"
proof (intro conjI impI)
  have inv: "lock_inv s" "nest_inv s" using smp_reach_inv [OF assms] by auto
  have off: "\<not> sie (cpus s c)" if "0 < noff (cpus s c)" for c
    using inv(2) that by (simp add: nest_inv_def)
  show "c = d" if "crit s c l \<and> crit s d l" using crit_unique [OF inv(1)] that by blast
  show "\<not> sie (cpus s c)" if "crit s c l" using crit_nested [OF inv(2) that] off by simp
  show "\<exists>s'. release_store c l s = Ok () s'" if "lockpcs s c = Releasing l"
  proof -
    have "0 < noff (cpus s c)"
      using that by (auto intro: crit_nested [OF inv(2)] simp: crit_def inside_def)
    then show ?thesis using off unfolding release_store_def by (intro pop_off_total) auto
  qed
  show "\<exists>s'. pop_off c s = Ok () s'" if "lockpcs s c = Outside \<and> 0 < pushes s c"
    using inv(2) that off by (intro pop_off_total) (auto simp: nest_inv_def)
  show "acquire_enter c l s = Panic ''acquire''" if "holding c l s"
    using that by (simp add: acquire_enter_def holding_def)
qed

definition smp_boot :: smp where
  "smp_boot = \<lparr>cpus = \<lambda>_. \<lparr>noff = 0, intena = False, sie = True\<rparr>,
     locks = \<lambda>_. \<lparr>lk_locked = False, lk_cpu = None\<rparr>, lockpcs = \<lambda>_. Outside, pushes = \<lambda>_. 0\<rparr>"

definition smp_cpu0_holds :: smp where
  "smp_cpu0_holds =
     (let s = push_off 0 smp_boot; s = s\<lparr>lockpcs := (lockpcs s)(0 := Spinning 7)\<rparr>
      in acquire_own 0 7 (acquire_swap 0 7 s))"

lemma smp_cpu0_holds_reach: "smp_reach smp_cpu0_holds"
proof -
  let ?s1 = "(push_off 0 smp_boot)\<lparr>lockpcs := (lockpcs smp_boot)(0 := Spinning 7)\<rparr>"
  have "smp_reach smp_boot" by (rule smp_reach.boot) (simp_all add: smp_boot_def)
  moreover have "acquire_enter 0 7 smp_boot = Ok () ?s1"
    by (simp add: acquire_enter_def holding_def smp_boot_def)
  moreover have "lockpcs smp_boot 0 = Outside" by (simp add: smp_boot_def)
  ultimately have "smp_reach ?s1" by (blast intro: smp_reach.step smp_step.acquire_enter)
  then have "smp_reach (acquire_swap 0 7 ?s1)"
    by (rule smp_reach.step) (simp add: smp_step.acquire_swap)
  then have "smp_reach (acquire_own 0 7 (acquire_swap 0 7 ?s1))"
    by (rule smp_reach.step) (simp add: smp_step.acquire_own acquire_swap_def smp_boot_def)
  then show ?thesis by (simp add: smp_cpu0_holds_def)
qed

theorem spinlock_mutual_exclusion_witness:
  "smp_reach smp_cpu0_holds \<and> crit smp_cpu0_holds 0 7 \<and> \<not> crit smp_cpu0_holds 1 7 \<and>
   \<not> sie (cpus smp_cpu0_holds 0) \<and> acquire_enter 0 7 smp_cpu0_holds = Panic ''acquire''"
proof -
  have c: "holding 0 7 smp_cpu0_holds"
    by (simp add: holding_def smp_cpu0_holds_def acquire_own_def acquire_swap_def smp_boot_def Let_def)
  then have "crit smp_cpu0_holds 0 7" by (simp add: crit_def)
  then show ?thesis
    using spinlock_mutual_exclusion [OF smp_cpu0_holds_reach, of 0 7 1] c smp_cpu0_holds_reach
    by auto
qed

section \<open>Sleep locks\<close>

text \<open>
  A sleep lock is a field of a buffer or an inode; \<open>get\<close> and \<open>upd\<close> read and update the
  field in the kernel's state and \<open>c\<close> is its wait channel.
\<close>

record sleeplock =
  sl_locked :: bool
  sl_pid :: int

definition initsleeplock :: sleeplock where
  "initsleeplock = \<lparr>sl_locked = False, sl_pid = 0\<rparr>"

definition acquiresleep ::
  "('z pstate_scheme \<Rightarrow> sleeplock) \<Rightarrow> ((sleeplock \<Rightarrow> sleeplock) \<Rightarrow> 'z pstate_scheme \<Rightarrow> 'z pstate_scheme)
   \<Rightarrow> chan \<Rightarrow> 'z pstate_scheme \<Rightarrow> (unit, 'z pstate_scheme) res" where
  "acquiresleep get upd c s =
     (if sl_locked (get s) then sleep c s
      else Ok () (upd (\<lambda>lk. lk\<lparr>sl_locked := True, sl_pid := p_pid (myproc s)\<rparr>) s))"

definition releasesleep ::
  "((sleeplock \<Rightarrow> sleeplock) \<Rightarrow> 'z pstate_scheme \<Rightarrow> 'z pstate_scheme)
   \<Rightarrow> chan \<Rightarrow> 'z pstate_scheme \<Rightarrow> 'z pstate_scheme" where
  "releasesleep upd c s = wakeup c (upd (\<lambda>lk. lk\<lparr>sl_locked := False, sl_pid := 0\<rparr>) s)"

definition holdingsleep :: "('z pstate_scheme \<Rightarrow> sleeplock) \<Rightarrow> 'z pstate_scheme \<Rightarrow> bool" where
  "holdingsleep get s \<longleftrightarrow> sl_locked (get s) \<and> sl_pid (get s) = p_pid (myproc s)"

end
