(* ===== verification/Bio.thy ===== *)
theory Bio
  imports Locks
begin

text \<open>
  The buffer cache, \<open>kernel/bio.c\<close>. The doubly linked list of buffers is the list \<open>lru\<close> of
  buffer indices from \<open>head.next\<close>, the most recently released, to \<open>head.prev\<close>. The disk is
  a function from block numbers to blocks; \<open>disk_rw\<close> is the contract of the driver's
  \<open>virtio_disk_rw\<close>: the effect of a completed request, one block read or written in order. The field \<open>dwrites\<close>
  records the sequence of block writes for the statements about crashes; no routine reads
  it. \<open>content\<close> is what a reader of a block sees, the cached copy or the disk, and the
  invariant \<open>bcache_inv\<close> says that at most one buffer caches a block and that a buffer which
  can be recycled agrees with the disk.
\<close>

abbreviation BSIZE :: nat where "BSIZE \<equiv> 1024"
abbreviation ROOTDEV :: u32 where "ROOTDEV \<equiv> 1"
abbreviation NBUF :: nat where "NBUF \<equiv> 30"

record buf =
  b_valid :: bool
  b_disk :: bool
  b_dev :: u32
  b_blockno :: u32
  b_lock :: sleeplock
  b_refcnt :: u32
  b_data :: "byte list"

record bstate = pstate +
  bufs :: "buf list"
  lru :: "nat list"
  disk :: "u32 \<Rightarrow> byte list"
  dwrites :: "(u32 \<times> byte list) list"

definition upd_buf :: "nat \<Rightarrow> (buf \<Rightarrow> buf) \<Rightarrow> 'z bstate_scheme \<Rightarrow> 'z bstate_scheme" where
  "upd_buf i f s = s\<lparr>bufs := list_modify i f (bufs s)\<rparr>"

abbreviation buf_lock :: "nat \<Rightarrow> 'z bstate_scheme \<Rightarrow> sleeplock" where
  "buf_lock i s \<equiv> b_lock (bufs s ! i)"

abbreviation upd_buf_lock :: "nat \<Rightarrow> (sleeplock \<Rightarrow> sleeplock) \<Rightarrow> 'z bstate_scheme \<Rightarrow> 'z bstate_scheme" where
  "upd_buf_lock i f s \<equiv> upd_buf i (\<lambda>b. b\<lparr>b_lock := f (b_lock b)\<rparr>) s"

definition disk_rw :: "nat \<Rightarrow> bool \<Rightarrow> 'z bstate_scheme \<Rightarrow> 'z bstate_scheme" where
  "disk_rw i write s =
     (let b = bufs s ! i
      in if write
         then s\<lparr>disk := (disk s)(b_blockno b := b_data b), dwrites := dwrites s @ [(b_blockno b, b_data b)]\<rparr>
         else upd_buf i (\<lambda>b. b\<lparr>b_data := disk s (b_blockno b)\<rparr>) s)"

definition binit :: "'z bstate_scheme \<Rightarrow> 'z bstate_scheme" where
  "binit s = s\<lparr>lru := fold (\<lambda>b head_list. b # head_list) [0..<NBUF] [],
               bufs := map (\<lambda>b. b\<lparr>b_lock := initsleeplock\<rparr>) (bufs s)\<rparr>"

definition bget :: "u32 \<Rightarrow> u32 \<Rightarrow> 'z bstate_scheme \<Rightarrow> (nat, 'z bstate_scheme) res" where
  "bget dev blockno s =
     (case find (\<lambda>i. b_dev (bufs s ! i) = dev \<and> b_blockno (bufs s ! i) = blockno) (lru s) of
        Some i \<Rightarrow>
          let s = upd_buf i (\<lambda>b. b\<lparr>b_refcnt := b_refcnt b + 1\<rparr>) s
          in andthen (acquiresleep (buf_lock i) (upd_buf_lock i) (ChBufLock i) s) (\<lambda>_ s. Ok i s)
      | None \<Rightarrow>
          (case find (\<lambda>i. b_refcnt (bufs s ! i) = 0) (rev (lru s)) of
             Some i \<Rightarrow>
               let s = upd_buf i (\<lambda>b. b\<lparr>b_dev := dev, b_blockno := blockno, b_valid := False, b_refcnt := 1\<rparr>) s
               in andthen (acquiresleep (buf_lock i) (upd_buf_lock i) (ChBufLock i) s) (\<lambda>_ s. Ok i s)
           | None \<Rightarrow> Panic ''bget: no buffers''))"

definition bread :: "u32 \<Rightarrow> u32 \<Rightarrow> 'z bstate_scheme \<Rightarrow> (nat, 'z bstate_scheme) res" where
  "bread dev blockno s =
     andthen (bget dev blockno s) (\<lambda>i s.
       if \<not> b_valid (bufs s ! i)
       then let s = disk_rw i False s in Ok i (upd_buf i (\<lambda>b. b\<lparr>b_valid := True\<rparr>) s)
       else Ok i s)"

definition bwrite :: "nat \<Rightarrow> 'z bstate_scheme \<Rightarrow> (unit, 'z bstate_scheme) res" where
  "bwrite i s =
     (if \<not> holdingsleep (buf_lock i) s then Panic ''bwrite''
      else Ok () (disk_rw i True s))"

definition brelse :: "nat \<Rightarrow> 'z bstate_scheme \<Rightarrow> (unit, 'z bstate_scheme) res" where
  "brelse i s =
     (if \<not> holdingsleep (buf_lock i) s then Panic ''brelse''
      else let s = releasesleep (upd_buf_lock i) (ChBufLock i) s;
               s = upd_buf i (\<lambda>b. b\<lparr>b_refcnt := b_refcnt b - 1\<rparr>) s
           in Ok () (if b_refcnt (bufs s ! i) = 0 then s\<lparr>lru := i # remove1 i (lru s)\<rparr> else s))"

definition bpin :: "nat \<Rightarrow> 'z bstate_scheme \<Rightarrow> 'z bstate_scheme" where
  "bpin i s = upd_buf i (\<lambda>b. b\<lparr>b_refcnt := b_refcnt b + 1\<rparr>) s"

definition bunpin :: "nat \<Rightarrow> 'z bstate_scheme \<Rightarrow> 'z bstate_scheme" where
  "bunpin i s = upd_buf i (\<lambda>b. b\<lparr>b_refcnt := b_refcnt b - 1\<rparr>) s"

definition set_data :: "nat \<Rightarrow> byte list \<Rightarrow> 'z bstate_scheme \<Rightarrow> 'z bstate_scheme" where
  "set_data i d s = upd_buf i (\<lambda>b. b\<lparr>b_data := d\<rparr>) s"

section \<open>The cache invariant\<close>

definition content :: "u32 \<Rightarrow> u32 \<Rightarrow> 'z bstate_scheme \<Rightarrow> byte list" where
  "content dev blockno s =
     (case find (\<lambda>i. b_dev (bufs s ! i) = dev \<and> b_blockno (bufs s ! i) = blockno) (lru s) of
        Some i \<Rightarrow> if b_valid (bufs s ! i) then b_data (bufs s ! i) else disk s blockno
      | None \<Rightarrow> disk s blockno)"

definition buf_ok :: "(u32 \<Rightarrow> byte list) \<Rightarrow> buf \<Rightarrow> bool" where
  "buf_ok d b \<longleftrightarrow>
     length (b_data b) = BSIZE \<and> (b_valid b \<longrightarrow> b_dev b = ROOTDEV) \<and>
     (b_refcnt b = 0 \<longrightarrow> \<not> sl_locked (b_lock b) \<and> (b_valid b \<longrightarrow> b_data b = d (b_blockno b)))"

definition same_block :: "buf \<Rightarrow> buf \<Rightarrow> bool" where
  "same_block a b \<longleftrightarrow> b_dev a = b_dev b \<and> b_blockno a = b_blockno b"

definition bcache_inv :: "'z bstate_scheme \<Rightarrow> bool" where
  "bcache_inv s \<longleftrightarrow>
     length (bufs s) = NBUF \<and> distinct (lru s) \<and> set (lru s) = {..<NBUF} \<and>
     (\<forall>i<NBUF. buf_ok (disk s) (bufs s ! i)) \<and>
     (\<forall>i<NBUF. \<forall>j<NBUF. b_dev (bufs s ! i) \<noteq> 0 \<longrightarrow> same_block (bufs s ! i) (bufs s ! j) \<longrightarrow> i = j) \<and>
     (\<forall>b. length (disk s b) = BSIZE)"

named_theorems buf_simps \<open>reading the cache after an update\<close>

lemma bufs_upd_buf [buf_simps]: "bufs (upd_buf i f s) = list_modify i f (bufs s)"
  by (simp add: upd_buf_def)

lemma upd_buf_fields [simp]:
  "lru (upd_buf i f s) = lru s" "disk (upd_buf i f s) = disk s" "dwrites (upd_buf i f s) = dwrites s"
  "procs (upd_buf i f s) = procs s" "cur (upd_buf i f s) = cur s" "mem (upd_buf i f s) = mem s"
  by (simp_all add: upd_buf_def)

lemma myproc_upd_buf [simp]: "myproc (upd_buf i f s) = myproc s"
  by (simp add: myproc_def)

lemma find_unique:
  assumes "\<And>a b. P a \<Longrightarrow> P b \<Longrightarrow> a \<in> set xs \<Longrightarrow> b \<in> set xs \<Longrightarrow> a = b"
  shows "find P xs = Some i \<longleftrightarrow> i \<in> set xs \<and> P i"
  using assms
proof (induction xs)
  case (Cons x xs)
  then have "find P xs = Some i \<longleftrightarrow> i \<in> set xs \<and> P i" by (meson list.set_intros(2))
  then show ?case using Cons.prems [of x i] by auto
qed simp

lemma find_SomeD: "find P xs = Some x \<Longrightarrow> x \<in> set xs \<and> P x"
  by (auto simp: find_Some_iff)

lemma bcache_invD:
  assumes "bcache_inv s"
  shows "length (bufs s) = NBUF" and "distinct (lru s)" and "set (lru s) = {..<NBUF}"
    and "i < NBUF \<Longrightarrow> buf_ok (disk s) (bufs s ! i)"
    and "i < NBUF \<Longrightarrow> j < NBUF \<Longrightarrow> b_dev (bufs s ! i) \<noteq> 0 \<Longrightarrow> same_block (bufs s ! i) (bufs s ! j) \<Longrightarrow> i = j"
    and "length (disk s b) = BSIZE"
  using assms by (auto simp: bcache_inv_def)

definition caches :: "u32 \<Rightarrow> u32 \<Rightarrow> 'z bstate_scheme \<Rightarrow> nat \<Rightarrow> bool" where
  "caches dev blockno s i \<longleftrightarrow> b_dev (bufs s ! i) = dev \<and> b_blockno (bufs s ! i) = blockno"

lemma find_caches:
  assumes "bcache_inv s" and "dev \<noteq> 0"
  shows "find (\<lambda>i. b_dev (bufs s ! i) = dev \<and> b_blockno (bufs s ! i) = blockno) (lru s) = Some i
           \<longleftrightarrow> i < NBUF \<and> caches dev blockno s i"
  unfolding caches_def
  using assms bcache_invD(3,5) [OF assms(1)]
  by (subst find_unique) (auto simp: same_block_def)

lemma find_caches_None:
  assumes "bcache_inv s"
  shows "find (\<lambda>i. b_dev (bufs s ! i) = dev \<and> b_blockno (bufs s ! i) = blockno) (lru s) = None
           \<longleftrightarrow> (\<forall>i<NBUF. \<not> caches dev blockno s i)"
  using bcache_invD(3) [OF assms] by (auto simp: find_None_iff caches_def)

lemma content_cached:
  "bcache_inv s \<Longrightarrow> dev \<noteq> 0 \<Longrightarrow> i < NBUF \<Longrightarrow> caches dev blockno s i \<Longrightarrow>
   content dev blockno s = (if b_valid (bufs s ! i) then b_data (bufs s ! i) else disk s blockno)"
  unfolding content_def by (subst find_caches [where i = i, THEN iffD2]) auto

lemma content_uncached:
  "bcache_inv s \<Longrightarrow> (\<And>i. i < NBUF \<Longrightarrow> \<not> caches dev blockno s i) \<Longrightarrow> content dev blockno s = disk s blockno"
  unfolding content_def by (subst find_caches_None [THEN iffD2]) auto

lemma length_content:
  assumes "bcache_inv s" and "dev \<noteq> 0"
  shows "length (content dev blockno s) = BSIZE"
proof (cases "\<exists>i<NBUF. caches dev blockno s i")
  case True
  then obtain i where "i < NBUF" "caches dev blockno s i" by blast
  then show ?thesis
    using assms bcache_invD(4) [OF assms(1), of i] by (simp add: content_cached buf_ok_def bcache_invD(6))
next
  case False
  then show ?thesis using assms by (simp add: content_uncached bcache_invD(6))
qed

text \<open>The buffer that \<open>bread\<close> returns, from the buffer \<open>b\<close> that it was before.\<close>

definition read_buf :: "u32 \<Rightarrow> u32 \<Rightarrow> 'z bstate_scheme \<Rightarrow> buf \<Rightarrow> buf" where
  "read_buf dev blockno s b =
     (let hit = (b_dev b = dev \<and> b_blockno b = blockno)
      in b\<lparr>b_dev := dev, b_blockno := blockno, b_valid := True,
           b_refcnt := (if hit then b_refcnt b + 1 else 1),
           b_lock := \<lparr>sl_locked = True, sl_pid = p_pid (myproc s)\<rparr>,
           b_data := content dev blockno s\<rparr>)"

text \<open>Which buffer \<open>bget\<close> takes: the one that caches the block, else the unused one that was
  released longest ago.\<close>

definition victim :: "u32 \<Rightarrow> u32 \<Rightarrow> 'z bstate_scheme \<Rightarrow> nat \<Rightarrow> bool" where
  "victim dev blockno s i \<longleftrightarrow> i < NBUF \<and>
     (caches dev blockno s i \<or>
      (\<forall>j<NBUF. \<not> caches dev blockno s j) \<and>
      find (\<lambda>i. b_refcnt (bufs s ! i) = 0) (rev (lru s)) = Some i)"

lemma list_modify_twice [simp]: "list_modify i f (list_modify i g xs) = list_modify i (f \<circ> g) xs"
  by (cases "i < length xs") (simp_all add: list_modify_def list_update_beyond)

lemma upd_buf_twice: "upd_buf i f (upd_buf i g s) = upd_buf i (f \<circ> g) s"
  by (simp add: upd_buf_def)

lemma upd_buf_cong: "f (bufs s ! i) = g (bufs s ! i) \<Longrightarrow> upd_buf i f s = upd_buf i g s"
  by (simp add: upd_buf_def list_modify_def)

lemma bget_Ok:
  assumes "bcache_inv s" and "dev \<noteq> 0" and "victim dev blockno s i"
    and "\<not> sl_locked (b_lock (bufs s ! i))"
  shows "bget dev blockno s = Ok i (upd_buf i (\<lambda>b. b\<lparr>b_dev := dev, b_blockno := blockno,
      b_valid := b_valid b \<and> caches dev blockno s i,
      b_refcnt := (if caches dev blockno s i then b_refcnt b + 1 else 1),
      b_lock := \<lparr>sl_locked = True, sl_pid = p_pid (myproc s)\<rparr>\<rparr>) s)"
proof -
  have i: "i < length (bufs s)" using assms(3) bcache_invD(1) [OF assms(1)] by (simp add: victim_def)
  show ?thesis
  proof (cases "caches dev blockno s i")
    case True
    have "find (\<lambda>i. b_dev (bufs s ! i) = dev \<and> b_blockno (bufs s ! i) = blockno) (lru s) = Some i"
      using True assms by (subst find_caches) (auto simp: victim_def)
    then show ?thesis using i True assms(4)
      by (simp add: bget_def acquiresleep_def bufs_upd_buf upd_buf_twice)
        (rule upd_buf_cong, cases "bufs s ! i", simp add: caches_def)
  next
    case False
    then have none: "\<forall>j<NBUF. \<not> caches dev blockno s j"
      and f: "find (\<lambda>i. b_refcnt (bufs s ! i) = 0) (rev (lru s)) = Some i"
      using assms(3) by (auto simp: victim_def)
    then have "find (\<lambda>i. b_dev (bufs s ! i) = dev \<and> b_blockno (bufs s ! i) = blockno) (lru s) = None"
      using assms(1) by (subst find_caches_None)
    then show ?thesis using i False f assms(4)
      by (simp add: bget_def acquiresleep_def bufs_upd_buf upd_buf_twice)
        (rule upd_buf_cong, cases "bufs s ! i", simp)
  qed
qed

lemma bread_Ok:
  assumes inv: "bcache_inv s" and "dev \<noteq> 0" and "victim dev blockno s i"
    and "\<not> sl_locked (b_lock (bufs s ! i))"
  shows "bread dev blockno s = Ok i (upd_buf i (read_buf dev blockno s) s)"
proof -
  have i: "i < length (bufs s)" "i < NBUF" using assms bcache_invD(1) [OF inv] by (auto simp: victim_def)
  have c: "content dev blockno s =
      (if b_valid (bufs s ! i) \<and> caches dev blockno s i then b_data (bufs s ! i) else disk s blockno)"
    using assms i content_cached [OF inv, of dev i blockno] content_uncached [OF inv, of dev blockno]
    by (auto simp: victim_def)
  show ?thesis
  proof (cases "b_valid (bufs s ! i) \<and> caches dev blockno s i")
    case True
    then show ?thesis using i(1) bget_Ok [OF assms]
      by (simp add: bread_def bufs_upd_buf)
        (rule upd_buf_cong, cases "bufs s ! i", simp add: read_buf_def c caches_def)
  next
    case False
    then have "\<not> (b_valid (bufs s ! i) \<and> caches dev blockno s i)" .
    then show ?thesis using i(1) bget_Ok [OF assms]
      by (simp add: bread_def bufs_upd_buf disk_rw_def upd_buf_twice)
        (rule upd_buf_cong, cases "bufs s ! i", auto simp: read_buf_def c caches_def)
  qed
qed

section \<open>Updating one buffer\<close>

lemma nth_upd_buf:
  "bcache_inv s \<Longrightarrow> j < NBUF \<Longrightarrow> bufs (upd_buf i f s) ! j = (if i = j then f (bufs s ! j) else bufs s ! j)"
  by (simp add: bufs_upd_buf bcache_invD(1))

lemma bcache_inv_upd_buf:
  assumes inv: "bcache_inv s" and "i < NBUF" and "buf_ok (disk s) (f (bufs s ! i))"
    and "\<And>j. j < NBUF \<Longrightarrow> j \<noteq> i \<Longrightarrow> b_dev (f (bufs s ! i)) \<noteq> 0 \<Longrightarrow> \<not> same_block (f (bufs s ! i)) (bufs s ! j)"
  shows "bcache_inv (upd_buf i f s)"
proof -
  have "same_block a b = same_block b a" for a b by (auto simp: same_block_def)
  moreover have "same_block a b \<Longrightarrow> b_dev a = b_dev b" for a b by (simp add: same_block_def)
  ultimately show ?thesis
    using assms unfolding bcache_inv_def
    by (simp add: bufs_upd_buf) (metis (no_types, lifting))
qed

lemma content_upd_buf:
  assumes inv: "bcache_inv s" and inv': "bcache_inv (upd_buf i f s)" and "i < NBUF" and "dev \<noteq> 0"
  shows "content dev b (upd_buf i f s) =
    (if b_dev (f (bufs s ! i)) = dev \<and> b_blockno (f (bufs s ! i)) = b
     then if b_valid (f (bufs s ! i)) then b_data (f (bufs s ! i)) else disk s b
     else if caches dev b s i then disk s b else content dev b s)"
proof -
  let ?s = "upd_buf i f s"
  have c: "caches dev b ?s j \<longleftrightarrow> (if i = j then b_dev (f (bufs s ! i)) = dev \<and> b_blockno (f (bufs s ! i)) = b
      else caches dev b s j)" if "j < NBUF" for j
    using nth_upd_buf [OF inv that] by (auto simp: caches_def)
  consider "caches dev b ?s i" | j where "j < NBUF" "j \<noteq> i" "caches dev b ?s j"
    | "\<And>j. j < NBUF \<Longrightarrow> \<not> caches dev b ?s j" by blast
  then show ?thesis
  proof cases
    case 1
    then show ?thesis using content_cached [OF inv' assms(4,3) 1] c [OF assms(3)] nth_upd_buf [OF inv assms(3)]
      by simp
  next
    case (2 j)
    then have "caches dev b s j" using c by simp
    moreover have "\<not> caches dev b s i"
      using bcache_invD(5) [OF inv, of i j] 2 \<open>caches dev b s j\<close> assms(3,4) by (auto simp: caches_def same_block_def)
    moreover have "\<not> caches dev b ?s i"
      using bcache_invD(5) [OF inv', of i j] 2 assms(3,4) by (auto simp: caches_def same_block_def)
    ultimately show ?thesis
      using 2 c [OF assms(3)] nth_upd_buf [OF inv 2(1)] content_cached [OF inv' assms(4) 2(1,3)]
        content_cached [OF inv assms(4) 2(1)] by auto
  next
    case 3
    then have "content dev b ?s = disk s b" using content_uncached [OF inv'] by simp
    moreover have "\<not> caches dev b s j" if "j < NBUF" "j \<noteq> i" for j using 3 [OF that(1)] c [OF that(1)] that(2) by simp
    ultimately show ?thesis
      using 3 [OF assms(3)] c [OF assms(3)] content_uncached [OF inv, of dev b] by (metis (full_types))
  qed
qed

section \<open>Buffers held by one process\<close>

text \<open>
  \<open>calm dev s P H\<close>: the cache invariant holds, the buffers \<open>H\<close> are held by the running
  process, nobody else holds one, and each block of \<open>P\<close> is pinned once. A buffer outside
  \<open>H\<close> therefore has reference count zero or one.
\<close>

definition base_refs :: "u32 \<Rightarrow> u32 set \<Rightarrow> buf \<Rightarrow> u32" where
  "base_refs dev P b = (if b_dev b = dev \<and> b_blockno b \<in> P then 1 else 0)"

definition held_buf :: "u32 \<Rightarrow> u32 set \<Rightarrow> int \<Rightarrow> buf \<Rightarrow> bool" where
  "held_buf dev P pid b \<longleftrightarrow> b_lock b = \<lparr>sl_locked = True, sl_pid = pid\<rparr> \<and> b_valid b \<and> b_dev b = dev \<and>
     b_refcnt b = base_refs dev P b + 1"

definition free_buf :: "u32 \<Rightarrow> u32 set \<Rightarrow> buf \<Rightarrow> bool" where
  "free_buf dev P b \<longleftrightarrow> \<not> sl_locked (b_lock b) \<and> b_refcnt b = base_refs dev P b"

definition cur_ok :: "'z pstate_scheme \<Rightarrow> bool" where
  "cur_ok s \<longleftrightarrow> (\<exists>i < length (procs s). cur s = Some i)"

definition calm :: "u32 \<Rightarrow> 'z bstate_scheme \<Rightarrow> u32 set \<Rightarrow> nat set \<Rightarrow> bool" where
  "calm dev s P H \<longleftrightarrow> dev = ROOTDEV \<and> bcache_inv s \<and> cur_ok s \<and> H \<subseteq> {..<NBUF} \<and>
     (\<forall>i<NBUF. if i \<in> H then held_buf dev P (p_pid (myproc s)) (bufs s ! i)
               else free_buf dev P (bufs s ! i)) \<and>
     (\<forall>b\<in>P. \<exists>i<NBUF. caches dev b s i)"

definition bframe :: "'z bstate_scheme \<Rightarrow> 'z bstate_scheme \<Rightarrow> bool" where
  "bframe s s' \<longleftrightarrow> (\<exists>pr bs l d w. s' = s\<lparr>procs := pr, bufs := bs, lru := l, disk := d, dwrites := w\<rparr>)"

lemma bframe_refl [simp]: "bframe s s"
  unfolding bframe_def by (rule exI [of _ "procs s"], rule exI [of _ "bufs s"], rule exI [of _ "lru s"],
      rule exI [of _ "disk s"], rule exI [of _ "dwrites s"]) simp

lemma bframe_trans [trans]: "bframe s t \<Longrightarrow> bframe t u \<Longrightarrow> bframe s u"
  unfolding bframe_def by fastforce

lemma bframe_upd_buf [simp]: "bframe s (upd_buf i f s)"
  unfolding bframe_def upd_buf_def
  by (rule exI [of _ "procs s"], rule exI, rule exI [of _ "lru s"],
      rule exI [of _ "disk s"], rule exI [of _ "dwrites s"]) simp

lemma cur_ok_upd_buf [simp]: "cur_ok (upd_buf i f s) = cur_ok s"
  by (simp add: cur_ok_def)

lemma calmD:
  assumes "calm dev s P H"
  shows "dev \<noteq> 0" and "bcache_inv s" and "cur_ok s" and "H \<subseteq> {..<NBUF}"
    and "i \<in> H \<Longrightarrow> held_buf dev P (p_pid (myproc s)) (bufs s ! i)"
    and "i < NBUF \<Longrightarrow> i \<notin> H \<Longrightarrow> free_buf dev P (bufs s ! i)"
    and "b \<in> P \<Longrightarrow> \<exists>i<NBUF. caches dev b s i" and "dev = ROOTDEV"
  using assms by (auto simp: calm_def split: if_splits)

lemma calm_victim:
  assumes "calm dev s P H" and "card P + card H < NBUF \<or> b \<in> P" and "finite P"
  shows "\<exists>i. victim dev b s i"
proof (cases "\<exists>i<NBUF. caches dev b s i")
  case True
  then show ?thesis by (auto simp: victim_def)
next
  case False
  then have "b \<notin> P" using calmD(7) [OF assms(1)] by blast
  then have few: "card P + card H < NBUF" using assms(2) by simp
  have inv: "bcache_inv s" using calmD(2) [OF assms(1)] .
  have fH: "finite H" using calmD(4) [OF assms(1)] finite_subset by blast
  define Q where "Q = {i. i < NBUF \<and> b_dev (bufs s ! i) = dev \<and> b_blockno (bufs s ! i) \<in> P}"
  have "inj_on (\<lambda>i. b_blockno (bufs s ! i)) Q"
    using bcache_invD(5) [OF inv] calmD(1) [OF assms(1)] by (auto simp: inj_on_def Q_def same_block_def)
  moreover have "(\<lambda>i. b_blockno (bufs s ! i)) ` Q \<subseteq> P" by (auto simp: Q_def)
  ultimately have "card Q \<le> card P" using card_inj_on_le assms(3) by blast
  then have "card (Q \<union> H) < NBUF" using few card_Un_le [of Q H] by simp
  moreover have "finite (Q \<union> H)" using fH by (simp add: Q_def)
  ultimately have "\<not> {..<NBUF} \<subseteq> Q \<union> H" using card_mono [of "Q \<union> H" "{..<NBUF}"] by auto
  then obtain j where j: "j < NBUF" "j \<notin> Q" "j \<notin> H" by auto
  then have "b_refcnt (bufs s ! j) = 0"
    using calmD(6) [OF assms(1), of j] by (auto simp: free_buf_def base_refs_def Q_def)
  then have "find (\<lambda>i. b_refcnt (bufs s ! i) = 0) (rev (lru s)) \<noteq> None"
    using j bcache_invD(3) [OF inv] by (auto simp: find_None_iff)
  then obtain i where i: "find (\<lambda>i. b_refcnt (bufs s ! i) = 0) (rev (lru s)) = Some i" by auto
  then have "i \<in> set (rev (lru s))" using find_SomeD by fast
  then have "i < NBUF" using bcache_invD(3) [OF inv] by auto
  with i False show ?thesis by (auto simp: victim_def)
qed

lemma calm_victim_free:
  assumes "calm dev s P H" and "victim dev b s i" and "\<And>j. j \<in> H \<Longrightarrow> \<not> caches dev b s j"
  shows "i < NBUF" and "i \<notin> H" and "free_buf dev P (bufs s ! i)"
    and "caches dev b s i \<or> b_refcnt (bufs s ! i) = 0"
proof -
  show i: "i < NBUF" using assms(2) by (simp add: victim_def)
  show r: "caches dev b s i \<or> b_refcnt (bufs s ! i) = 0"
    using assms(2) by (auto simp: victim_def dest: find_SomeD)
  have "b_refcnt (bufs s ! j) \<noteq> 0" if "j \<in> H" for j
    using calmD(5) [OF assms(1) that] by (auto simp: held_buf_def base_refs_def)
  then show n: "i \<notin> H" using r assms(3) by blast
  show "free_buf dev P (bufs s ! i)" by (rule calmD(6) [OF assms(1) i n])
qed

lemma bread_inv:
  assumes inv: "bcache_inv s" and v: "victim ROOTDEV b s i" and nz: "b_refcnt (bufs s ! i) + 1 \<noteq> 0"
  shows "bcache_inv (upd_buf i (read_buf ROOTDEV b s) s)"
    and "content ROOTDEV x (upd_buf i (read_buf ROOTDEV b s) s) = content ROOTDEV x s"
proof -
  let ?s = "upd_buf i (read_buf ROOTDEV b s) s"
  have i: "i < NBUF" and r: "caches ROOTDEV b s i \<or> b_refcnt (bufs s ! i) = 0"
    using v by (auto simp: victim_def dest: find_SomeD)
  have other: "\<not> caches ROOTDEV b s j" if "j < NBUF" "j \<noteq> i" for j
    using v that bcache_invD(5) [OF inv, of i j] by (auto simp: victim_def caches_def same_block_def)
  show inv': "bcache_inv ?s"
    using i other nz inv length_content [OF inv, of ROOTDEV]
    by (intro bcache_inv_upd_buf) (auto simp: read_buf_def buf_ok_def same_block_def caches_def Let_def)
  show "content ROOTDEV x ?s = content ROOTDEV x s"
    using content_upd_buf [OF inv inv' i, of ROOTDEV x] r bcache_invD(4) [OF inv i]
      content_cached [OF inv _ i, of ROOTDEV x]
    by (auto simp: read_buf_def Let_def caches_def buf_ok_def split: if_splits)
qed

lemma calm_bread:
  assumes c: "calm dev s P H" and "card P + card H < NBUF \<or> b \<in> P" and "finite P"
    and "\<And>j. j \<in> H \<Longrightarrow> \<not> caches dev b s j"
  shows "\<exists>i s'. bread dev b s = Ok i s' \<and> calm dev s' P (insert i H) \<and> i \<notin> H \<and>
    b_blockno (bufs s' ! i) = b \<and> b_data (bufs s' ! i) = content dev b s \<and>
    (\<forall>j\<in>H. bufs s' ! j = bufs s ! j) \<and> (\<forall>x. content dev x s' = content dev x s) \<and>
    disk s' = disk s \<and> dwrites s' = dwrites s \<and> bframe s s'"
proof -
  obtain i where v: "victim dev b s i" using calm_victim [OF assms(1-3)] by blast
  note f = calm_victim_free [OF c v assms(4)]
  note d = calmD(1,2,8) [OF c]
  let ?s = "upd_buf i (read_buf dev b s) s"
  have r: "bread dev b s = Ok i ?s" using bread_Ok [OF d(2,1) v] f(3) by (simp add: free_buf_def)
  have other: "\<not> caches dev b s j" if "j < NBUF" "j \<noteq> i" for j
    using v that bcache_invD(5) [OF d(2), of i j] d(1) by (auto simp: victim_def caches_def same_block_def)
  have "b_refcnt (bufs s ! i) + 1 \<noteq> 0" using f(3) by (simp add: free_buf_def base_refs_def)
  from bread_inv [OF d(2) v [unfolded d(3)] this]
  have inv: "bcache_inv ?s" and cont: "content dev x ?s = content dev x s" for x by (simp_all add: d(3))
  have at: "bufs ?s ! j = (if j = i then read_buf dev b s (bufs s ! i) else bufs s ! j)" if "j < NBUF" for j
    using nth_upd_buf [OF d(2) that] by auto
  have pin: "b \<in> P \<Longrightarrow> caches dev b s i" using calmD(7) [OF c, of b] other by blast
  have held: "held_buf dev P (p_pid (myproc s)) (read_buf dev b s (bufs s ! i))"
    using f(3,4) pin by (auto simp: held_buf_def read_buf_def Let_def free_buf_def base_refs_def caches_def)
  have keep: "\<exists>j<NBUF. caches dev x ?s j" if "x \<in> P" for x
  proof -
    obtain j where j: "j < NBUF" "caches dev x s j" using calmD(7) [OF c \<open>x \<in> P\<close>] by blast
    then have "j \<noteq> i \<or> x = b"
      using f(3,4) that by (auto simp: free_buf_def base_refs_def caches_def)
    then show ?thesis using j at [of j] by (auto simp: caches_def read_buf_def Let_def)
  qed
  have "calm dev ?s P (insert i H)"
    using d inv calmD(3,4) [OF c] f(1) at held calmD(5,6) [OF c] keep by (auto simp: calm_def)
  then show ?thesis using r f at cont calmD(4) [OF c]
    by (auto simp: read_buf_def Let_def)
qed

lemma calm_held:
  assumes "calm dev s P H" and "i \<in> H"
  shows "i < NBUF" and "holdingsleep (buf_lock i) s" and "b_dev (bufs s ! i) = dev" and "b_valid (bufs s ! i)"
    and "content dev (b_blockno (bufs s ! i)) s = b_data (bufs s ! i)"
    and "length (b_data (bufs s ! i)) = BSIZE"
proof -
  show i: "i < NBUF" using calmD(4) [OF assms(1)] assms(2) by auto
  have h: "held_buf dev P (p_pid (myproc s)) (bufs s ! i)" by (rule calmD(5) [OF assms])
  then show "holdingsleep (buf_lock i) s" and "b_dev (bufs s ! i) = dev" and "b_valid (bufs s ! i)"
    by (simp_all add: held_buf_def holdingsleep_def)
  with i content_cached [OF calmD(2,1) [OF assms(1)] i]
  show "content dev (b_blockno (bufs s ! i)) s = b_data (bufs s ! i)" by (simp add: caches_def)
  show "length (b_data (bufs s ! i)) = BSIZE"
    using bcache_invD(4) [OF calmD(2) [OF assms(1)] i] by (simp add: buf_ok_def)
qed

lemma calm_transfer:
  assumes "calm dev s P H" and "bcache_inv s'" and "cur_ok s'" and "P' \<subseteq> P" and "H' \<subseteq> H"
    and "\<And>i. i \<in> H' \<Longrightarrow> i < NBUF \<Longrightarrow> held_buf dev P' (p_pid (myproc s')) (bufs s' ! i)"
    and "\<And>i. i < NBUF \<Longrightarrow> i \<notin> H' \<Longrightarrow> free_buf dev P' (bufs s' ! i)"
    and same: "\<And>i. i < NBUF \<Longrightarrow> same_block (bufs s' ! i) (bufs s ! i)"
  shows "calm dev s' P' H'"
proof -
  have "\<exists>i<NBUF. caches dev b s' i" if "b \<in> P'" for b
    using calmD(7) [OF assms(1), of b] that assms(4) same by (auto simp: caches_def same_block_def)
  then show ?thesis
    using assms calmD(4,8) [OF assms(1)] unfolding calm_def by auto
qed

lemma calm_set_data:
  assumes c: "calm dev s P H" and i: "i \<in> H" and "length X = BSIZE"
  shows "calm dev (set_data i X s) P H"
    and "j < NBUF \<Longrightarrow> bufs (set_data i X s) ! j = (if i = j then (bufs s ! j)\<lparr>b_data := X\<rparr> else bufs s ! j)"
    and "content dev x (set_data i X s) = (if x = b_blockno (bufs s ! i) then X else content dev x s)"
    and "disk (set_data i X s) = disk s" and "dwrites (set_data i X s) = dwrites s" and "bframe s (set_data i X s)"
proof -
  note d = calmD(1,2) [OF c] and h = calm_held [OF c i]
  have ok: "buf_ok (disk s) (bufs s ! i)" by (rule bcache_invD(4) [OF d(2) h(1)])
  have nz: "b_refcnt (bufs s ! i) \<noteq> 0" using calmD(5) [OF c i] by (auto simp: held_buf_def base_refs_def)
  have inv: "bcache_inv (set_data i X s)"
    unfolding set_data_def using h(1) ok nz assms(3) bcache_invD(5) [OF d(2)]
    by (intro bcache_inv_upd_buf [OF d(2)]) (auto simp: buf_ok_def same_block_def)
  show at: "bufs (set_data i X s) ! j = (if i = j then (bufs s ! j)\<lparr>b_data := X\<rparr> else bufs s ! j)"
    if "j < NBUF" for j using nth_upd_buf [OF d(2) that] by (simp add: set_data_def)
  show "content dev x (set_data i X s) = (if x = b_blockno (bufs s ! i) then X else content dev x s)"
    using content_upd_buf [OF d(2) inv [unfolded set_data_def] h(1) d(1), of x] h(3,4)
    by (auto simp: set_data_def caches_def)
  show "calm dev (set_data i X s) P H"
    by (rule calm_transfer [OF c inv])
      (use at calmD(3,5,6) [OF c] in \<open>auto simp: set_data_def same_block_def held_buf_def free_buf_def base_refs_def\<close>)
qed (simp_all add: set_data_def)

lemma calm_bwrite:
  assumes c: "calm dev s P H" and i: "i \<in> H"
  shows "\<exists>s'. bwrite i s = Ok () s' \<and> calm dev s' P H \<and> bufs s' = bufs s \<and>
    disk s' = (disk s)(b_blockno (bufs s ! i) := b_data (bufs s ! i)) \<and>
    dwrites s' = dwrites s @ [(b_blockno (bufs s ! i), b_data (bufs s ! i))] \<and>
    (\<forall>x. content dev x s' = content dev x s) \<and> bframe s s'"
proof -
  note d = calmD(1,2,8) [OF c] and h = calm_held [OF c i]
  define s' where "s' = disk_rw i True s"
  have r: "bwrite i s = Ok () s'" using h(2) by (simp add: bwrite_def s'_def)
  have f: "bufs s' = bufs s" "lru s' = lru s" "procs s' = procs s" "cur s' = cur s"
    "disk s' = (disk s)(b_blockno (bufs s ! i) := b_data (bufs s ! i))"
    "dwrites s' = dwrites s @ [(b_blockno (bufs s ! i), b_data (bufs s ! i))]"
    by (simp_all add: s'_def disk_rw_def Let_def)
  have nz: "b_refcnt (bufs s ! i) \<noteq> 0" using calmD(5) [OF c i] by (auto simp: held_buf_def base_refs_def)
  have "buf_ok (disk s') (bufs s ! j)" if "j < NBUF" for j
    using bcache_invD(4) [OF d(2) that] bcache_invD(5) [OF d(2) that h(1)] h(3) d(1,3) nz
    by (auto simp: buf_ok_def f same_block_def)
  then have inv: "bcache_inv s'" using d(2) h(6) by (auto simp: bcache_inv_def f)
  then have calm': "calm dev s' P H"
    by (rule calm_transfer [OF c])
      (use calmD(3,5,6) [OF c] in \<open>auto simp: f cur_ok_def myproc_def same_block_def\<close>)
  have "content dev x s' = content dev x s" for x
  proof (cases "x = b_blockno (bufs s ! i)")
    case True
    then show ?thesis using calm_held(5) [OF calm' i] h(5) by (simp add: f)
  next
    case False
    then show ?thesis by (simp add: content_def f split: option.split)
  qed
  moreover have "bframe s s'" unfolding bframe_def s'_def disk_rw_def
    by (rule exI [of _ "procs s"], rule exI [of _ "bufs s"], rule exI [of _ "lru s"], rule exI, rule exI)
      (simp add: Let_def)
  ultimately show ?thesis using r calm' f by blast
qed

lemma calm_bunpin:
  assumes c: "calm dev s P H" and i: "i \<in> H" and p: "b_blockno (bufs s ! i) \<in> P"
  shows "calm dev (bunpin i s) (P - {b_blockno (bufs s ! i)}) H"
    and "j < NBUF \<Longrightarrow> b_data (bufs (bunpin i s) ! j) = b_data (bufs s ! j) \<and>
           b_blockno (bufs (bunpin i s) ! j) = b_blockno (bufs s ! j)"
    and "content dev x (bunpin i s) = content dev x s"
    and "disk (bunpin i s) = disk s" and "dwrites (bunpin i s) = dwrites s" and "bframe s (bunpin i s)"
proof -
  let ?f = "\<lambda>b. b\<lparr>b_refcnt := b_refcnt b - 1\<rparr>"
  note d = calmD(1,2) [OF c] and h = calm_held [OF c i]
  have ok: "buf_ok (disk s) (bufs s ! i)" by (rule bcache_invD(4) [OF d(2) h(1)])
  have rc: "b_refcnt (bufs s ! i) = 2"
    using calmD(5) [OF c i] p by (auto simp: held_buf_def base_refs_def)
  have inv: "bcache_inv (upd_buf i ?f s)"
    using h(1) ok rc bcache_invD(5) [OF d(2)]
    by (intro bcache_inv_upd_buf [OF d(2)]) (auto simp: buf_ok_def same_block_def)
  have at: "bufs (upd_buf i ?f s) ! j = (if i = j then ?f (bufs s ! j) else bufs s ! j)"
    if "j < NBUF" for j using nth_upd_buf [OF d(2) that] by simp
  then show "j < NBUF \<Longrightarrow> b_data (bufs (bunpin i s) ! j) = b_data (bufs s ! j) \<and>
      b_blockno (bufs (bunpin i s) ! j) = b_blockno (bufs s ! j)"
    by (simp add: bunpin_def)
  show "content dev x (bunpin i s) = content dev x s"
    using content_upd_buf [OF d(2) inv h(1) d(1), of x] h(3,4,5) by (auto simp: bunpin_def caches_def)
  have base: "base_refs dev (P - {b_blockno (bufs s ! i)}) (bufs s ! j) = base_refs dev P (bufs s ! j)"
    if "j < NBUF" "j \<noteq> i" for j
    using bcache_invD(5) [OF d(2) that(1) h(1)] that h(3) d(1) by (auto simp: base_refs_def same_block_def)
  have mine: "held_buf dev (P - {b_blockno (bufs s ! i)}) pid (?f (bufs s ! i))"
    if "held_buf dev P pid (bufs s ! i)" for pid
    using that rc by (auto simp: held_buf_def base_refs_def)
  show "calm dev (bunpin i s) (P - {b_blockno (bufs s ! i)}) H"
    unfolding bunpin_def
    by (rule calm_transfer [OF c inv])
      (use i at mine base calmD(3,5,6) [OF c] in \<open>auto simp: same_block_def held_buf_def free_buf_def\<close>)
qed (simp_all add: bunpin_def)

lemma wakeup_bfields [simp]:
  "bufs (wakeup c s) = bufs s" "lru (wakeup c s) = lru s" "disk (wakeup c s) = disk s"
  "dwrites (wakeup c s) = dwrites s" "bframe s (wakeup c s)"
proof -
  show "bframe s (wakeup c s)" unfolding bframe_def wakeup_def
    by (rule exI, rule exI [of _ "bufs s"], rule exI [of _ "lru s"], rule exI [of _ "disk s"],
        rule exI [of _ "dwrites s"]) simp
qed (simp_all add: wakeup_def)

lemma wakeup_me: "cur_ok s \<Longrightarrow> myproc (wakeup c s) = myproc s \<and> cur_ok (wakeup c s)"
  by (auto simp: cur_ok_def myproc_def nth_wakeup)

lemma find_same_set:
  assumes "\<And>a b. P a \<Longrightarrow> P b \<Longrightarrow> a \<in> set xs \<Longrightarrow> b \<in> set xs \<Longrightarrow> a = b" and "set ys = set xs"
  shows "find P ys = find P xs"
proof -
  have "find P xs = Some i \<longleftrightarrow> i \<in> set xs \<and> P i" for i by (rule find_unique) (rule assms(1))
  moreover have "find P ys = Some i \<longleftrightarrow> i \<in> set ys \<and> P i" for i
    by (rule find_unique) (use assms in simp)
  ultimately have "find P ys = Some i \<longleftrightarrow> find P xs = Some i" for i using assms(2) by simp
  then show ?thesis by (metis option.exhaust)
qed

lemma content_lru:
  assumes "bcache_inv s" and "dev \<noteq> 0" and "set l = set (lru s)"
  shows "content dev x (s\<lparr>lru := l\<rparr>) = content dev x s"
proof -
  have "find (\<lambda>i. b_dev (bufs s ! i) = dev \<and> b_blockno (bufs s ! i) = x) l =
        find (\<lambda>i. b_dev (bufs s ! i) = dev \<and> b_blockno (bufs s ! i) = x) (lru s)"
    by (rule find_same_set) (use assms bcache_invD(3,5) [OF assms(1)] in \<open>auto simp: same_block_def\<close>)
  then show ?thesis by (simp add: content_def split: option.split)
qed

lemma bframe_lru: "bframe s t \<Longrightarrow> bframe s (t\<lparr>lru := l\<rparr>)"
proof -
  assume "bframe s t"
  then obtain pr bs m d w where "t = s\<lparr>procs := pr, bufs := bs, lru := m, disk := d, dwrites := w\<rparr>"
    unfolding bframe_def by blast
  then have "t\<lparr>lru := l\<rparr> = s\<lparr>procs := pr, bufs := bs, lru := l, disk := d, dwrites := w\<rparr>" by simp
  then show ?thesis unfolding bframe_def by blast
qed

lemma wakeup_upd_buf: "wakeup c (upd_buf i f s) = upd_buf i f (wakeup c s)"
  by (simp add: wakeup_def upd_buf_def cong: if_cong)

lemma sleeplock_set [simp]: "lk\<lparr>sl_locked := x, sl_pid := y\<rparr> = \<lparr>sl_locked = x, sl_pid = y\<rparr>"
  by (cases lk) simp

lemma brelse_Ok:
  "holdingsleep (buf_lock i) s \<Longrightarrow>
   brelse i s = Ok () (let t = upd_buf i (\<lambda>b. b\<lparr>b_lock := \<lparr>sl_locked = False, sl_pid = 0\<rparr>,
                                              b_refcnt := b_refcnt b - 1\<rparr>) (wakeup (ChBufLock i) s)
     in if b_refcnt (bufs t ! i) = 0 then t\<lparr>lru := i # remove1 i (lru t)\<rparr> else t)"
  by (simp add: brelse_def releasesleep_def wakeup_upd_buf upd_buf_twice comp_def Let_def)

lemma calm_brelse:
  assumes c: "calm dev s P H" and i: "i \<in> H"
    and clean: "b_blockno (bufs s ! i) \<notin> P \<Longrightarrow> b_data (bufs s ! i) = disk s (b_blockno (bufs s ! i))"
  shows "\<exists>s'. brelse i s = Ok () s' \<and> calm dev s' P (H - {i}) \<and>
    (\<forall>j\<in>H - {i}. bufs s' ! j = bufs s ! j) \<and>
    disk s' = disk s \<and> dwrites s' = dwrites s \<and> (\<forall>x. content dev x s' = content dev x s) \<and> bframe s s'"
proof -
  let ?f = "\<lambda>b. b\<lparr>b_lock := \<lparr>sl_locked = False, sl_pid = 0\<rparr>, b_refcnt := b_refcnt b - 1\<rparr>"
  note d = calmD(1,2) [OF c] and h = calm_held [OF c i]
  let ?w = "wakeup (ChBufLock i) s"
  let ?t = "upd_buf i ?f ?w"
  have wi: "bcache_inv ?w" using d(2) by (simp add: bcache_inv_def)
  have wc: "content dev x ?w = content dev x s" for x by (simp add: content_def split: option.split)
  have ok: "buf_ok (disk s) (bufs s ! i)" by (rule bcache_invD(4) [OF d(2) h(1)])
  have rc: "b_refcnt (bufs s ! i) = base_refs dev P (bufs s ! i) + 1"
    using calmD(5) [OF c i] by (auto simp: held_buf_def)
  have inv: "bcache_inv ?t"
    using h ok rc clean bcache_invD(5) [OF d(2)]
    by (intro bcache_inv_upd_buf [OF wi]) (auto simp: buf_ok_def same_block_def base_refs_def)
  have cont: "content dev x ?t = content dev x s" for x
    using content_upd_buf [OF wi inv h(1) d(1), of x] h(3,4,5) wc by (auto simp: caches_def)
  have at: "bufs ?t ! j = (if i = j then ?f (bufs s ! j) else bufs s ! j)" if "j < NBUF" for j
    using nth_upd_buf [OF wi that] by simp
  define s' where "s' = (if b_refcnt (bufs ?t ! i) = 0 then ?t\<lparr>lru := i # remove1 i (lru ?t)\<rparr> else ?t)"
  have lru': "set (i # remove1 i (lru ?t)) = set (lru ?t)" "distinct (i # remove1 i (lru ?t))"
    using bcache_invD(2,3) [OF d(2)] h(1) by auto
  have f: "bufs s' = bufs ?t" "disk s' = disk s" "dwrites s' = dwrites s" "procs s' = procs ?w" "cur s' = cur s"
    by (simp_all add: s'_def)
  have "brelse i s = Ok () s'" using brelse_Ok [OF h(2)] by (simp add: s'_def Let_def)
  moreover have inv': "bcache_inv s'" using inv lru' by (auto simp: s'_def bcache_inv_def)
  moreover have "calm dev s' P (H - {i})"
  proof (rule calm_transfer [OF c inv'])
    show "cur_ok s'" using wakeup_me [OF calmD(3) [OF c]] f by (simp add: cur_ok_def)
    have "p_pid (myproc s') = p_pid (myproc s)"
      using wakeup_me [OF calmD(3) [OF c], of "ChBufLock i"] f by (simp add: myproc_def)
    then show "held_buf dev P (p_pid (myproc s')) (bufs s' ! j)" if "j \<in> H - {i}" "j < NBUF" for j
      using that at calmD(5) [OF c, of j] by (auto simp: f)
    show "free_buf dev P (bufs s' ! j)" if "j < NBUF" "j \<notin> H - {i}" for j
      using that at calmD(6) [OF c, of j] rc by (auto simp: f free_buf_def base_refs_def)
    show "same_block (bufs s' ! j) (bufs s ! j)" if "j < NBUF" for j
      using at [OF that] by (simp add: f same_block_def)
  qed auto
  moreover have "content dev x s' = content dev x s" for x
    using cont content_lru [OF inv d(1) lru'(1)] by (simp add: s'_def)
  moreover have "bframe s ?t" by (rule bframe_trans [OF wakeup_bfields(5) bframe_upd_buf])
  then have "bframe s s'" by (simp add: s'_def bframe_lru)
  moreover have "\<forall>j\<in>H - {i}. bufs s' ! j = bufs s ! j"
    using at f(1) calmD(4) [OF c] by (metis Diff_iff insertI1 lessThan_iff subsetD)
  ultimately show ?thesis using f(2,3) by blast
qed

lemma calm_clean:
  assumes c: "calm dev s P {}" and "b \<notin> P"
  shows "content dev b s = disk s b"
proof (cases "\<exists>i<NBUF. caches dev b s i")
  case True
  then obtain i where i: "i < NBUF" "caches dev b s i" by blast
  then have "b_refcnt (bufs s ! i) = 0"
    using calmD(6) [OF c i(1)] assms(2) by (auto simp: free_buf_def base_refs_def caches_def)
  then show ?thesis
    using content_cached [OF calmD(2,1) [OF c] i] bcache_invD(4) [OF calmD(2) [OF c] i(1)] i(2)
    by (auto simp: buf_ok_def caches_def)
next
  case False
  then show ?thesis using content_uncached [OF calmD(2) [OF c]] by blast
qed

section \<open>The contract of the cache\<close>

text \<open>
  What the log relies on. \<open>quiet s P H\<close>: the caller holds the buffers \<open>H\<close>, nobody else holds
  one, and exactly the blocks \<open>P\<close> are pinned. \<open>wrote s W s'\<close>: the routine wrote exactly the
  blocks of \<open>W\<close> to disk, in this order.
\<close>

definition apply_writes :: "(u32 \<times> byte list) list \<Rightarrow> (u32 \<Rightarrow> byte list) \<Rightarrow> u32 \<Rightarrow> byte list" where
  "apply_writes w d = fold (\<lambda>(b, x) d. d(b := x)) w d"

lemma apply_writes_simps [simp]:
  "apply_writes [] d = d" "apply_writes ((b, x) # w) d = apply_writes w (d(b := x))"
  "apply_writes (v @ w) d = apply_writes w (apply_writes v d)"
  by (simp_all add: apply_writes_def)

lemma apply_writes_other: "b \<notin> fst ` set w \<Longrightarrow> apply_writes w d b = d b"
  by (induction w arbitrary: d) auto

locale block_cache =
  fixes rd :: "u32 \<Rightarrow> 's \<Rightarrow> (nat, 's) res"
    and put :: "nat \<Rightarrow> byte list \<Rightarrow> 's \<Rightarrow> 's"
    and wr :: "nat \<Rightarrow> 's \<Rightarrow> (unit, 's) res"
    and unpin :: "nat \<Rightarrow> 's \<Rightarrow> 's"
    and rel :: "nat \<Rightarrow> 's \<Rightarrow> (unit, 's) res"
    and quiet :: "'s \<Rightarrow> u32 set \<Rightarrow> nat set \<Rightarrow> bool"
    and blk :: "nat \<Rightarrow> 's \<Rightarrow> u32"
    and dat :: "nat \<Rightarrow> 's \<Rightarrow> byte list"
    and cont :: "u32 \<Rightarrow> 's \<Rightarrow> byte list"
    and ondisk :: "'s \<Rightarrow> u32 \<Rightarrow> byte list"
    and trace :: "'s \<Rightarrow> (u32 \<times> byte list) list"
    and frame :: "'s \<Rightarrow> 's \<Rightarrow> bool"
  assumes rd_ok: "quiet s P H \<Longrightarrow> finite P \<Longrightarrow> card P + card H < NBUF \<or> b \<in> P \<Longrightarrow>
      (\<And>j. j \<in> H \<Longrightarrow> blk j s \<noteq> b) \<Longrightarrow>
      \<exists>i s'. rd b s = Ok i s' \<and> quiet s' P (insert i H) \<and> i \<notin> H \<and> blk i s' = b \<and> dat i s' = cont b s \<and>
        (\<forall>j\<in>H. blk j s' = blk j s \<and> dat j s' = dat j s) \<and> (\<forall>x. cont x s' = cont x s) \<and>
        ondisk s' = ondisk s \<and> trace s' = trace s \<and> frame s s'"
    and put_ok: "quiet s P H \<Longrightarrow> i \<in> H \<Longrightarrow> length x = BSIZE \<Longrightarrow>
      quiet (put i x s) P H \<and> (\<forall>j\<in>H. blk j (put i x s) = blk j s \<and> dat j (put i x s) = (if j = i then x else dat j s)) \<and>
      (\<forall>b. cont b (put i x s) = (if b = blk i s then x else cont b s)) \<and>
      ondisk (put i x s) = ondisk s \<and> trace (put i x s) = trace s \<and> frame s (put i x s)"
    and wr_ok: "quiet s P H \<Longrightarrow> i \<in> H \<Longrightarrow>
      \<exists>s'. wr i s = Ok () s' \<and> quiet s' P H \<and> (\<forall>j\<in>H. blk j s' = blk j s \<and> dat j s' = dat j s) \<and>
        (\<forall>x. cont x s' = cont x s) \<and> ondisk s' = (ondisk s)(blk i s := dat i s) \<and>
        trace s' = trace s @ [(blk i s, dat i s)] \<and> frame s s'"
    and unpin_ok: "quiet s P H \<Longrightarrow> i \<in> H \<Longrightarrow> blk i s \<in> P \<Longrightarrow>
      quiet (unpin i s) (P - {blk i s}) H \<and> (\<forall>j\<in>H. blk j (unpin i s) = blk j s \<and> dat j (unpin i s) = dat j s) \<and>
      (\<forall>x. cont x (unpin i s) = cont x s) \<and>
      ondisk (unpin i s) = ondisk s \<and> trace (unpin i s) = trace s \<and> frame s (unpin i s)"
    and rel_ok: "quiet s P H \<Longrightarrow> i \<in> H \<Longrightarrow> (blk i s \<notin> P \<Longrightarrow> dat i s = ondisk s (blk i s)) \<Longrightarrow>
      \<exists>s'. rel i s = Ok () s' \<and> quiet s' P (H - {i}) \<and>
        (\<forall>j\<in>H - {i}. blk j s' = blk j s \<and> dat j s' = dat j s) \<and> (\<forall>x. cont x s' = cont x s) \<and>
        ondisk s' = ondisk s \<and> trace s' = trace s \<and> frame s s'"
    and clean: "quiet s P {} \<Longrightarrow> b \<notin> P \<Longrightarrow> cont b s = ondisk s b"
    and len: "quiet s P H \<Longrightarrow> length (cont b s) = BSIZE"
    and frame_refl: "frame s s"
    and frame_trans: "frame s t \<Longrightarrow> frame t u \<Longrightarrow> frame s u"
begin

lemma overwrite_block:
  assumes q: "quiet s P {}" "finite P" "card P < NBUF" and "b \<notin> P" and "length (f (cont b s)) = BSIZE"
  shows "\<exists>s'. andthen (rd b s) (\<lambda>i s. andthen (wr i (put i (f (dat i s)) s)) (\<lambda>_ s. rel i s)) = Ok () s' \<and>
    quiet s' P {} \<and> (\<forall>x. x \<noteq> b \<longrightarrow> cont x s' = cont x s) \<and>
    ondisk s' = (ondisk s)(b := f (cont b s)) \<and> trace s' = trace s @ [(b, f (cont b s))] \<and> frame s s'"
proof -
  from rd_ok [OF q(1,2), of b] q(3) obtain i s1 where
    1: "rd b s = Ok i s1" "quiet s1 P {i}" "blk i s1 = b" "dat i s1 = cont b s" "\<And>x. cont x s1 = cont x s"
      "ondisk s1 = ondisk s" "trace s1 = trace s" "frame s s1" by auto
  let ?s2 = "put i (f (dat i s1)) s1"
  from put_ok [OF 1(2), of i "f (dat i s1)"] assms(5) 1 have
    2: "quiet ?s2 P {i}" "blk i ?s2 = b" "dat i ?s2 = f (cont b s)" "\<And>x. x \<noteq> b \<Longrightarrow> cont x ?s2 = cont x s"
      "ondisk ?s2 = ondisk s" "trace ?s2 = trace s" "frame s1 ?s2" by auto
  from wr_ok [OF 2(1), of i] 2 obtain s3 where
    3: "wr i ?s2 = Ok () s3" "quiet s3 P {i}" "blk i s3 = b" "dat i s3 = f (cont b s)"
      "\<And>x. x \<noteq> b \<Longrightarrow> cont x s3 = cont x s" "ondisk s3 = (ondisk s)(b := f (cont b s))"
      "trace s3 = trace s @ [(b, f (cont b s))]" "frame ?s2 s3" by auto
  from rel_ok [OF 3(2), of i] 3 obtain s4 where
    4: "rel i s3 = Ok () s4" "quiet s4 P {}" "\<And>x. cont x s4 = cont x s3" "ondisk s4 = ondisk s3"
      "trace s4 = trace s3" "frame s3 s4" by auto
  have "frame s s4" using 1(8) 2(7) 3(8) 4(6) frame_trans by blast
  then show ?thesis using 1(1) 3 4 by (intro exI [of _ s4]) simp
qed

lemma read_two:
  assumes q: "quiet s P {}" "finite P" "card P + 1 < NBUF" and ab: "a \<notin> P" "a \<noteq> b"
  shows "\<exists>i j s1 s2. rd a s = Ok i s1 \<and> rd b s1 = Ok j s2 \<and> quiet s2 P {i, j} \<and> i \<noteq> j \<and>
    blk i s2 = a \<and> dat i s2 = cont a s \<and> blk j s2 = b \<and> dat j s2 = cont b s \<and>
    (\<forall>x. cont x s2 = cont x s) \<and> ondisk s2 = ondisk s \<and> trace s2 = trace s \<and> frame s s2"
proof -
  from rd_ok [OF q(1,2), of a] q(3) obtain i s1 where
    1: "rd a s = Ok i s1" "quiet s1 P {i}" "blk i s1 = a" "dat i s1 = cont a s" "\<And>x. cont x s1 = cont x s"
      "ondisk s1 = ondisk s" "trace s1 = trace s" "frame s s1" by auto
  from rd_ok [OF 1(2) q(2), of b] q(3) ab(2) 1 obtain j s2 where
    2: "rd b s1 = Ok j s2" "quiet s2 P {i, j}" "i \<noteq> j" "blk i s2 = a" "dat i s2 = cont a s"
      "blk j s2 = b" "dat j s2 = cont b s" "\<And>x. cont x s2 = cont x s"
      "ondisk s2 = ondisk s" "trace s2 = trace s" "frame s1 s2" by (auto simp: insert_commute)
  show ?thesis using 1(1) 2 frame_trans [OF 1(8) 2(11)] by blast
qed

lemma release_two:
  assumes q: "quiet s P {i, j}" "i \<noteq> j"
    and c: "blk i s \<notin> P \<Longrightarrow> dat i s = ondisk s (blk i s)" "blk j s \<notin> P \<Longrightarrow> dat j s = ondisk s (blk j s)"
  shows "\<exists>s'. andthen (rel i s) (\<lambda>_ s. rel j s) = Ok () s' \<and> quiet s' P {} \<and>
    (\<forall>x. cont x s' = cont x s) \<and> ondisk s' = ondisk s \<and> trace s' = trace s \<and> frame s s'"
proof -
  from rel_ok [OF q(1), of i] c(1) q(2) obtain s1 where
    1: "rel i s = Ok () s1" "quiet s1 P {j}" "blk j s1 = blk j s" "dat j s1 = dat j s" "\<And>x. cont x s1 = cont x s"
      "ondisk s1 = ondisk s" "trace s1 = trace s" "frame s s1" by (auto simp: insert_Diff_if)
  from rel_ok [OF 1(2), of j] c(2) 1 obtain s2 where
    2: "rel j s1 = Ok () s2" "quiet s2 P {}" "\<And>x. cont x s2 = cont x s" "ondisk s2 = ondisk s"
      "trace s2 = trace s" "frame s1 s2" by auto
  show ?thesis using 1(1) 2 frame_trans [OF 1(8) 2(6)] by auto
qed

lemma copy_to_first:
  assumes q: "quiet s P {}" "finite P" "card P + 1 < NBUF" and ab: "a \<notin> P" "a \<noteq> b"
  shows "\<exists>s'. andthen (rd a s) (\<lambda>i s. andthen (rd b s) (\<lambda>j s. andthen (wr i (put i (dat j s) s))
        (\<lambda>_ s. andthen (rel j s) (\<lambda>_ s. rel i s)))) = Ok () s' \<and>
    quiet s' P {} \<and> (\<forall>x. x \<noteq> a \<longrightarrow> cont x s' = cont x s) \<and>
    ondisk s' = (ondisk s)(a := cont b s) \<and> trace s' = trace s @ [(a, cont b s)] \<and> frame s s'"
proof -
  from read_two [OF assms] obtain i j s1 s2 where
    2: "rd a s = Ok i s1" "rd b s1 = Ok j s2" "quiet s2 P {i, j}" "i \<noteq> j" "blk i s2 = a" "blk j s2 = b"
      "dat j s2 = cont b s" "\<And>x. cont x s2 = cont x s" "ondisk s2 = ondisk s" "trace s2 = trace s" "frame s s2"
    by blast
  let ?s3 = "put i (dat j s2) s2"
  from put_ok [OF 2(3), of i "dat j s2"] len [OF q(1), of b] 2 have
    3: "quiet ?s3 P {i, j}" "blk i ?s3 = a" "dat i ?s3 = cont b s" "blk j ?s3 = b" "dat j ?s3 = cont b s"
      "\<And>x. x \<noteq> a \<Longrightarrow> cont x ?s3 = cont x s" "ondisk ?s3 = ondisk s" "trace ?s3 = trace s" "frame s2 ?s3"
    by auto
  from wr_ok [OF 3(1), of i] 3 obtain s4 where
    4: "wr i ?s3 = Ok () s4" "quiet s4 P {j, i}" "blk i s4 = a" "dat i s4 = cont b s" "blk j s4 = b"
      "dat j s4 = cont b s" "\<And>x. x \<noteq> a \<Longrightarrow> cont x s4 = cont x s" "ondisk s4 = (ondisk s)(a := cont b s)"
      "trace s4 = trace s @ [(a, cont b s)]" "frame ?s3 s4" by (auto simp: insert_commute)
  have "b \<notin> P \<Longrightarrow> cont b s = ondisk s b" by (rule clean [OF q(1)])
  with release_two [OF 4(2)] 2(4) 4 ab obtain s5 where
    5: "andthen (rel j s4) (\<lambda>_ s. rel i s) = Ok () s5" "quiet s5 P {}" "\<And>x. cont x s5 = cont x s4"
      "ondisk s5 = ondisk s4" "trace s5 = trace s4" "frame s4 s5" by fastforce
  have "frame s s5" using 2(11) 3(9) 4(10) 5(6) frame_trans by blast
  then show ?thesis using 2(1,2) 4 5 by (intro exI [of _ s5]) simp
qed

lemma copy_to_second:
  assumes q: "quiet s P {}" "finite P" "card P + 1 < NBUF" and ab: "a \<notin> P" "a \<noteq> b"
    and u: "u \<Longrightarrow> b \<in> P"
  shows "\<exists>s'. andthen (rd a s) (\<lambda>i s. andthen (rd b s) (\<lambda>j s. andthen (wr j (put j (dat i s) s))
        (\<lambda>_ s. andthen (rel i (if u then unpin j s else s)) (\<lambda>_ s. rel j s)))) = Ok () s' \<and>
    quiet s' (if u then P - {b} else P) {} \<and> (\<forall>x. x \<noteq> b \<longrightarrow> cont x s' = cont x s) \<and>
    ondisk s' = (ondisk s)(b := cont a s) \<and> trace s' = trace s @ [(b, cont a s)] \<and> frame s s'"
proof -
  from read_two [OF q ab] obtain i j s1 s2 where
    2: "rd a s = Ok i s1" "rd b s1 = Ok j s2" "quiet s2 P {i, j}" "i \<noteq> j" "blk i s2 = a" "blk j s2 = b"
      "dat i s2 = cont a s" "\<And>x. cont x s2 = cont x s" "ondisk s2 = ondisk s" "trace s2 = trace s" "frame s s2"
    by blast
  let ?s3 = "put j (dat i s2) s2"
  from put_ok [OF 2(3), of j "dat i s2"] len [OF q(1), of a] 2 have
    3: "quiet ?s3 P {i, j}" "blk i ?s3 = a" "dat i ?s3 = cont a s" "blk j ?s3 = b" "dat j ?s3 = cont a s"
      "\<And>x. x \<noteq> b \<Longrightarrow> cont x ?s3 = cont x s" "ondisk ?s3 = ondisk s" "trace ?s3 = trace s" "frame s2 ?s3"
    by auto
  from wr_ok [OF 3(1), of j] 3 obtain s4 where
    4: "wr j ?s3 = Ok () s4" "quiet s4 P {i, j}" "blk i s4 = a" "dat i s4 = cont a s" "blk j s4 = b"
      "dat j s4 = cont a s" "\<And>x. x \<noteq> b \<Longrightarrow> cont x s4 = cont x s" "ondisk s4 = (ondisk s)(b := cont a s)"
      "trace s4 = trace s @ [(b, cont a s)]" "frame ?s3 s4" by auto
  let ?s5 = "if u then unpin j s4 else s4" and ?P = "if u then P - {b} else P"
  from unpin_ok [OF 4(2), of j] u 4 have
    5: "quiet ?s5 ?P {i, j}" "blk i ?s5 = a" "dat i ?s5 = cont a s" "blk j ?s5 = b"
      "dat j ?s5 = cont a s" "\<And>x. x \<noteq> b \<Longrightarrow> cont x ?s5 = cont x s" "ondisk ?s5 = (ondisk s)(b := cont a s)"
      "trace ?s5 = trace s @ [(b, cont a s)]" "frame s4 ?s5" using frame_refl by auto
  have "cont a s = ondisk s a" by (rule clean [OF q(1) ab(1)])
  with release_two [OF 5(1) 2(4)] 5 ab obtain s6 where
    6: "andthen (rel i ?s5) (\<lambda>_ s. rel j s) = Ok () s6" "quiet s6 ?P {}" "\<And>x. cont x s6 = cont x ?s5"
      "ondisk s6 = ondisk ?s5" "trace s6 = trace ?s5" "frame ?s5 s6" by fastforce
  have "frame s s6" using 2(11) 3(9) 4(10) 5(9) 6(6) frame_trans by blast
  then show ?thesis using 2(1,2) 4(1) 5 6 by (intro exI [of _ s6]) simp
qed

end

interpretation bc: block_cache "bread ROOTDEV" set_data bwrite bunpin brelse "calm ROOTDEV"
  "\<lambda>i s. b_blockno (bufs s ! i)" "\<lambda>i s. b_data (bufs s ! i)" "content ROOTDEV" disk dwrites bframe
proof unfold_locales
  fix s :: "'z bstate_scheme" and P H b
  assume c: "calm ROOTDEV s P H" and "finite P" "card P + card H < NBUF \<or> b \<in> P"
    and "\<And>j. j \<in> H \<Longrightarrow> b_blockno (bufs s ! j) \<noteq> b"
  then show "\<exists>i s'. bread ROOTDEV b s = Ok i s' \<and> calm ROOTDEV s' P (insert i H) \<and> i \<notin> H \<and>
      b_blockno (bufs s' ! i) = b \<and> b_data (bufs s' ! i) = content ROOTDEV b s \<and>
      (\<forall>j\<in>H. b_blockno (bufs s' ! j) = b_blockno (bufs s ! j) \<and> b_data (bufs s' ! j) = b_data (bufs s ! j)) \<and>
      (\<forall>x. content ROOTDEV x s' = content ROOTDEV x s) \<and> disk s' = disk s \<and> dwrites s' = dwrites s \<and> bframe s s'"
    using calm_bread [OF c, of b] by (fastforce simp: caches_def)
next
  fix s :: "'z bstate_scheme" and P H i and x :: "byte list"
  assume c: "calm ROOTDEV s P H" "i \<in> H" "length x = BSIZE"
  show "calm ROOTDEV (set_data i x s) P H \<and>
      (\<forall>j\<in>H. b_blockno (bufs (set_data i x s) ! j) = b_blockno (bufs s ! j) \<and>
             b_data (bufs (set_data i x s) ! j) = (if j = i then x else b_data (bufs s ! j))) \<and>
      (\<forall>b. content ROOTDEV b (set_data i x s) = (if b = b_blockno (bufs s ! i) then x else content ROOTDEV b s)) \<and>
      disk (set_data i x s) = disk s \<and> dwrites (set_data i x s) = dwrites s \<and> bframe s (set_data i x s)"
    using calm_set_data [OF c] calm_held(1) [OF c(1)] by auto
next
  fix s :: "'z bstate_scheme" and P H i
  assume c: "calm ROOTDEV s P H" "i \<in> H"
  show "\<exists>s'. bwrite i s = Ok () s' \<and> calm ROOTDEV s' P H \<and>
      (\<forall>j\<in>H. b_blockno (bufs s' ! j) = b_blockno (bufs s ! j) \<and> b_data (bufs s' ! j) = b_data (bufs s ! j)) \<and>
      (\<forall>x. content ROOTDEV x s' = content ROOTDEV x s) \<and>
      disk s' = (disk s)(b_blockno (bufs s ! i) := b_data (bufs s ! i)) \<and>
      dwrites s' = dwrites s @ [(b_blockno (bufs s ! i), b_data (bufs s ! i))] \<and> bframe s s'"
    using calm_bwrite [OF c] by auto
next
  fix s :: "'z bstate_scheme" and P H i
  assume c: "calm ROOTDEV s P H" "i \<in> H" "b_blockno (bufs s ! i) \<in> P"
  show "calm ROOTDEV (bunpin i s) (P - {b_blockno (bufs s ! i)}) H \<and>
      (\<forall>j\<in>H. b_blockno (bufs (bunpin i s) ! j) = b_blockno (bufs s ! j) \<and>
             b_data (bufs (bunpin i s) ! j) = b_data (bufs s ! j)) \<and>
      (\<forall>x. content ROOTDEV x (bunpin i s) = content ROOTDEV x s) \<and>
      disk (bunpin i s) = disk s \<and> dwrites (bunpin i s) = dwrites s \<and> bframe s (bunpin i s)"
    using calm_bunpin [OF c] calm_held(1) [OF c(1)] by auto
next
  fix s :: "'z bstate_scheme" and P H i
  assume c: "calm ROOTDEV s P H" "i \<in> H"
    and "b_blockno (bufs s ! i) \<notin> P \<Longrightarrow> b_data (bufs s ! i) = disk s (b_blockno (bufs s ! i))"
  then show "\<exists>s'. brelse i s = Ok () s' \<and> calm ROOTDEV s' P (H - {i}) \<and>
      (\<forall>j\<in>H - {i}. b_blockno (bufs s' ! j) = b_blockno (bufs s ! j) \<and> b_data (bufs s' ! j) = b_data (bufs s ! j)) \<and>
      (\<forall>x. content ROOTDEV x s' = content ROOTDEV x s) \<and> disk s' = disk s \<and> dwrites s' = dwrites s \<and> bframe s s'"
    using calm_brelse [OF c] by fastforce
qed (auto intro: calm_clean length_content bframe_trans dest: calmD)

section \<open>Properties\<close>

text \<open>C8: Reading a block through the cache. When the block's buffer, or else the unused buffer
  that was released longest ago, is not locked, \<open>bread\<close> returns exactly that buffer, locked by
  the caller and holding the block's current contents; at most one buffer caches a block
  afterwards, and no block's contents change, whichever buffer was recycled. When the block
  is not cached and every buffer is in use it panics.\<close>
theorem bread_returns_current_block:
  assumes inv: "bcache_inv s"
  shows "(victim ROOTDEV b s i \<and> \<not> sl_locked (b_lock (bufs s ! i)) \<and> b_refcnt (bufs s ! i) \<noteq> - 1 \<longrightarrow>
      (\<exists>s'. bread ROOTDEV b s = Ok i s' \<and> bcache_inv s' \<and> holdingsleep (buf_lock i) s' \<and>
        b_dev (bufs s' ! i) = ROOTDEV \<and> b_blockno (bufs s' ! i) = b \<and> b_valid (bufs s' ! i) \<and>
        b_data (bufs s' ! i) = content ROOTDEV b s \<and>
        (\<forall>x. content ROOTDEV x s' = content ROOTDEV x s) \<and> disk s' = disk s)) \<and>
    ((\<forall>j<NBUF. \<not> caches ROOTDEV b s j \<and> b_refcnt (bufs s ! j) \<noteq> 0) \<longrightarrow>
      bread ROOTDEV b s = Panic ''bget: no buffers'')"
proof (intro conjI impI)
  assume a: "victim ROOTDEV b s i \<and> \<not> sl_locked (b_lock (bufs s ! i)) \<and> b_refcnt (bufs s ! i) \<noteq> - 1"
  let ?s = "upd_buf i (read_buf ROOTDEV b s) s"
  from a have "b_refcnt (bufs s ! i) + 1 \<noteq> 0" by (metis add_eq_0_iff2)
  from bread_inv [OF inv _ this] a have "bcache_inv ?s" "content ROOTDEV x ?s = content ROOTDEV x s" for x
    by blast+
  moreover have "bufs ?s ! i = read_buf ROOTDEV b s (bufs s ! i)"
    using nth_upd_buf [OF inv] a by (simp add: victim_def)
  moreover have "bread ROOTDEV b s = Ok i ?s" using bread_Ok [OF inv] a by simp
  ultimately show "\<exists>s'. bread ROOTDEV b s = Ok i s' \<and> bcache_inv s' \<and> holdingsleep (buf_lock i) s' \<and>
        b_dev (bufs s' ! i) = ROOTDEV \<and> b_blockno (bufs s' ! i) = b \<and> b_valid (bufs s' ! i) \<and>
        b_data (bufs s' ! i) = content ROOTDEV b s \<and>
        (\<forall>x. content ROOTDEV x s' = content ROOTDEV x s) \<and> disk s' = disk s"
    by (intro exI [of _ ?s]) (simp add: holdingsleep_def read_buf_def Let_def)
next
  assume a: "\<forall>j<NBUF. \<not> caches ROOTDEV b s j \<and> b_refcnt (bufs s ! j) \<noteq> 0"
  then have "find (\<lambda>i. b_dev (bufs s ! i) = ROOTDEV \<and> b_blockno (bufs s ! i) = b) (lru s) = None"
    using inv by (subst find_caches_None) auto
  moreover have "find (\<lambda>i. b_refcnt (bufs s ! i) = 0) (rev (lru s)) = None"
    using a bcache_invD(3) [OF inv] by (auto simp: find_None_iff)
  ultimately show "bread ROOTDEV b s = Panic ''bget: no buffers''"
    by (simp add: bread_def bget_def)
qed

definition empty_buf :: buf where
  "empty_buf = \<lparr>b_valid = False, b_disk = False, b_dev = 0, b_blockno = 0, b_lock = initsleeplock,
     b_refcnt = 0, b_data = replicate BSIZE 0\<rparr>"

definition idle_tf :: trapframe where
  "idle_tf = \<lparr>tf_kernel_satp = 0, tf_kernel_sp = 0, tf_kernel_trap = 0, tf_epc = 0, tf_kernel_hartid = 0,
     tf_ra = 0, tf_sp = 0, tf_gp = 0, tf_tp = 0, tf_t0 = 0, tf_t1 = 0, tf_t2 = 0, tf_s0 = 0, tf_s1 = 0,
     tf_a0 = 0, tf_a1 = 0, tf_a2 = 0, tf_a3 = 0, tf_a4 = 0, tf_a5 = 0, tf_a6 = 0, tf_a7 = 0, tf_s2 = 0,
     tf_s3 = 0, tf_s4 = 0, tf_s5 = 0, tf_s6 = 0, tf_s7 = 0, tf_s8 = 0, tf_s9 = 0, tf_s10 = 0, tf_s11 = 0,
     tf_t3 = 0, tf_t4 = 0, tf_t5 = 0, tf_t6 = 0\<rparr>"

definition idle_proc :: proc where
  "idle_proc = \<lparr>p_state = UNUSED, p_chan = None, p_killed = False, p_xstate = 0, p_pid = 0, p_fork_count = 0,
     p_parent = None, p_kstack = 0, p_sz = 0, p_pagetable = 0, p_tfpage = 0, p_tf = idle_tf,
     p_context = \<lparr>ctx_ra = 0, ctx_sp = 0, ctx_s = replicate 12 0\<rparr>, p_ofile = replicate NOFILE None,
     p_cwd = None, p_name = replicate 16 0, p_pending_signals = 0, p_signal_handlers = replicate NSIG (- 1),
     p_saved_trapframe = idle_tf, p_handling_signal = False, p_ipc_ready = False, p_ipc_len = 0,
     p_ipc_msg = replicate IPC_MAX_MSG 0\<rparr>"

definition boot_bstate :: bstate where
  "boot_bstate = binit \<lparr>mem = (\<lambda>_. 0), freelist = 0, kend = 0x80021000, etext = 0x80008000,
     trampoline = 0x80007000, procs = idle_proc\<lparr>p_state := RUNNING, p_pid := 1\<rparr> # replicate 63 idle_proc,
     cur = Some 0, nextpid = 2, initproc = Some 0, ticks = 0, forkret_pc = 0x80001000,
     bufs = replicate NBUF empty_buf, lru = [],
     disk = (\<lambda>b. replicate BSIZE (ucast b)), dwrites = []\<rparr>"

lemma boot_bstate_inv: "bcache_inv boot_bstate"
proof -
  have "set (lru boot_bstate) = {..<NBUF}" "distinct (lru boot_bstate)"
    by (simp_all add: boot_bstate_def binit_def fold_Cons_rev atLeast0LessThan)
  then show ?thesis
    by (auto simp: bcache_inv_def boot_bstate_def binit_def buf_ok_def empty_buf_def initsleeplock_def)
qed

theorem bread_returns_current_block_witness:
  "\<exists>s'. bread ROOTDEV 33 boot_bstate = Ok 0 s' \<and> bcache_inv s' \<and> b_data (bufs s' ! 0) = replicate BSIZE 33"
proof -
  have bufs: "bufs boot_bstate = replicate NBUF empty_buf"
    by (simp add: boot_bstate_def binit_def empty_buf_def)
  have "rev (lru boot_bstate) = 0 # [1..<NBUF]"
    by (simp add: boot_bstate_def binit_def fold_Cons_rev upt_conv_Cons)
  then have "find (\<lambda>i. b_refcnt (bufs boot_bstate ! i) = 0) (rev (lru boot_bstate)) = Some 0"
    by (simp add: bufs empty_buf_def)
  then have v: "victim ROOTDEV 33 boot_bstate 0" by (auto simp: victim_def caches_def bufs empty_buf_def)
  have u: "content ROOTDEV 33 boot_bstate = disk boot_bstate 33"
    by (rule content_uncached [OF boot_bstate_inv]) (simp add: caches_def bufs empty_buf_def)
  then have d: "content ROOTDEV 33 boot_bstate = replicate BSIZE 33"
    by (simp add: boot_bstate_def binit_def)
  have "\<not> sl_locked (b_lock (bufs boot_bstate ! 0))" "b_refcnt (bufs boot_bstate ! 0) \<noteq> - 1"
    by (simp_all add: bufs empty_buf_def initsleeplock_def)
  with v d bread_returns_current_block [OF boot_bstate_inv, of 33 0] show ?thesis by auto
qed

end
