(* ===== verification/Klog.thy ===== *)
theory Klog
  imports Bio
begin

text \<open>
  The write-ahead log, \<open>kernel/log.c\<close>. The in-memory header \<open>log.lh\<close> is \<open>lh_n\<close> and the array
  \<open>lh_block\<close>; the on-disk header has the same layout, a 32-bit count followed by 32-bit block
  numbers, and \<open>put_head\<close> and \<open>get_head\<close> are the stores and loads through the \<open>struct
  logheader *\<close> that points into a buffer. A count that the array cannot hold makes the loops
  run past it, a \<open>Fault\<close>. The progress message of a recovery is not modelled.

  The loops are shown to write exactly the blocks the header names, in order, and the main
  theorem states what a crash leaves: after any prefix of the disk writes of \<open>commit\<close>, the
  next boot recovers either the state before the transaction or the state after it.
\<close>

abbreviation MAXOPBLOCKS :: int where "MAXOPBLOCKS \<equiv> 10"
abbreviation LOGBLOCKS :: nat where "LOGBLOCKS \<equiv> 30"

record lstate = bstate +
  log_start :: u32
  log_outstanding :: int
  log_committing :: bool
  log_dev :: u32
  lh_n :: int
  lh_block :: "u32 list"

section \<open>The on-disk header\<close>

definition put_head :: "int \<Rightarrow> u32 list \<Rightarrow> byte list \<Rightarrow> byte list" where
  "put_head n blocks data =
     le_bytes 4 (word_of_int n :: u32) @ concat (map (le_bytes 4) (take (nat n) blocks)) @ drop (4 + 4 * nat n) data"

definition get_head_n :: "byte list \<Rightarrow> int" where
  "get_head_n data = sint (of_le (take 4 data) :: u32)"

definition get_head_block :: "byte list \<Rightarrow> nat \<Rightarrow> u32" where
  "get_head_block data i = of_le (take 4 (drop (4 + 4 * i) data))"

definition read_head :: "'z lstate_scheme \<Rightarrow> (unit, 'z lstate_scheme) res" where
  "read_head s =
     andthen (bread (log_dev s) (log_start s) s) (\<lambda>buf s.
       let data = b_data (bufs s ! buf); n = get_head_n data
       in if n > int LOGBLOCKS then Fault ''read_head: past log.lh.block''
          else let s = s\<lparr>lh_n := n,
                         lh_block := map (get_head_block data) [0..<nat n] @ drop (nat n) (lh_block s)\<rparr>
               in brelse buf s)"

definition write_head :: "'z lstate_scheme \<Rightarrow> (unit, 'z lstate_scheme) res" where
  "write_head s =
     andthen (bread (log_dev s) (log_start s) s) (\<lambda>buf s.
       if lh_n s > int LOGBLOCKS then Fault ''write_head: past log.lh.block''
       else let s = set_data buf (put_head (lh_n s) (lh_block s) (b_data (bufs s ! buf))) s
            in andthen (bwrite buf s) (\<lambda>_ s. brelse buf s))"

section \<open>Commit and recovery\<close>

definition install_one :: "bool \<Rightarrow> nat \<Rightarrow> 'z lstate_scheme \<Rightarrow> (unit, 'z lstate_scheme) res" where
  "install_one recovering tail s =
     andthen (bread (log_dev s) (log_start s + of_nat tail + 1) s) (\<lambda>lbuf s.
     andthen (bread (log_dev s) (lh_block s ! tail) s) (\<lambda>dbuf s.
     let s = set_data dbuf (b_data (bufs s ! lbuf)) s in
     andthen (bwrite dbuf s) (\<lambda>_ s.
     let s = (if \<not> recovering then bunpin dbuf s else s) in
     andthen (brelse lbuf s) (\<lambda>_ s. brelse dbuf s))))"

fun install_loop :: "bool \<Rightarrow> nat \<Rightarrow> nat \<Rightarrow> 'z lstate_scheme \<Rightarrow> (unit, 'z lstate_scheme) res" where
  "install_loop recovering 0 tail s = Ok () s"
| "install_loop recovering (Suc k) tail s =
     andthen (install_one recovering tail s) (\<lambda>_ s. install_loop recovering k (Suc tail) s)"

definition install_trans :: "bool \<Rightarrow> 'z lstate_scheme \<Rightarrow> (unit, 'z lstate_scheme) res" where
  "install_trans recovering s = install_loop recovering (nat (lh_n s)) 0 s"

definition recover_from_log :: "'z lstate_scheme \<Rightarrow> (unit, 'z lstate_scheme) res" where
  "recover_from_log s =
     andthen (read_head s) (\<lambda>_ s.
     andthen (install_trans True s) (\<lambda>_ s.
     write_head (s\<lparr>lh_n := 0\<rparr>)))"

definition initlog :: "u32 \<Rightarrow> u32 \<Rightarrow> 'z lstate_scheme \<Rightarrow> (unit, 'z lstate_scheme) res" where
  "initlog dev logstart s =
     (if 4 + 4 * LOGBLOCKS \<ge> BSIZE then Panic ''initlog: too big logheader''
      else recover_from_log (s\<lparr>log_start := logstart, log_dev := dev\<rparr>))"

definition write_log_one :: "nat \<Rightarrow> 'z lstate_scheme \<Rightarrow> (unit, 'z lstate_scheme) res" where
  "write_log_one tail s =
     andthen (bread (log_dev s) (log_start s + of_nat tail + 1) s) (\<lambda>to_buf s.
     andthen (bread (log_dev s) (lh_block s ! tail) s) (\<lambda>from_buf s.
     let s = set_data to_buf (b_data (bufs s ! from_buf)) s in
     andthen (bwrite to_buf s) (\<lambda>_ s.
     andthen (brelse from_buf s) (\<lambda>_ s. brelse to_buf s))))"

fun write_log_loop :: "nat \<Rightarrow> nat \<Rightarrow> 'z lstate_scheme \<Rightarrow> (unit, 'z lstate_scheme) res" where
  "write_log_loop 0 tail s = Ok () s"
| "write_log_loop (Suc k) tail s =
     andthen (write_log_one tail s) (\<lambda>_ s. write_log_loop k (Suc tail) s)"

definition write_log :: "'z lstate_scheme \<Rightarrow> (unit, 'z lstate_scheme) res" where
  "write_log s = write_log_loop (nat (lh_n s)) 0 s"

definition commit :: "'z lstate_scheme \<Rightarrow> (unit, 'z lstate_scheme) res" where
  "commit s =
     (if lh_n s > 0
      then andthen (write_log s) (\<lambda>_ s.
           andthen (write_head s) (\<lambda>_ s.
           andthen (install_trans False s) (\<lambda>_ s.
           write_head (s\<lparr>lh_n := 0\<rparr>))))
      else Ok () s)"

section \<open>Transactions\<close>

definition begin_op :: "'z lstate_scheme \<Rightarrow> (unit, 'z lstate_scheme) res" where
  "begin_op s =
     (if log_committing s then sleep ChLog s
      else if lh_n s + (log_outstanding s + 1) * MAXOPBLOCKS > int LOGBLOCKS then sleep ChLog s
      else Ok () (s\<lparr>log_outstanding := log_outstanding s + 1\<rparr>))"

definition end_op :: "'z lstate_scheme \<Rightarrow> (unit, 'z lstate_scheme) res" where
  "end_op s =
     (let s = s\<lparr>log_outstanding := log_outstanding s - 1\<rparr>
      in if log_committing s then Panic ''log.committing''
         else if log_outstanding s = 0
         then andthen (commit (s\<lparr>log_committing := True\<rparr>)) (\<lambda>_ s.
              Ok () (wakeup ChLog (s\<lparr>log_committing := False\<rparr>)))
         else Ok () (wakeup ChLog s))"

definition log_write :: "nat \<Rightarrow> 'z lstate_scheme \<Rightarrow> (unit, 'z lstate_scheme) res" where
  "log_write b s =
     (if lh_n s \<ge> int LOGBLOCKS then Panic ''too big a transaction''
      else if log_outstanding s < 1 then Panic ''log_write outside of trans''
      else let n = nat (lh_n s); blockno = b_blockno (bufs s ! b);
               i = (case find_idx (\<lambda>x. x = blockno) (take n (lh_block s)) of Some i \<Rightarrow> i | None \<Rightarrow> n);
               s = s\<lparr>lh_block := (lh_block s)[i := blockno]\<rparr>
           in if i = n then Ok () ((bpin b s)\<lparr>lh_n := lh_n s + 1\<rparr>) else Ok () s)"

section \<open>Laws of the header\<close>

lemma le4_round: "of_le (le_bytes 4 w) = (w :: u32)"
  by (rule of_le_le_bytes) simp

lemma take_concat_blocks:
  "i < length ws \<Longrightarrow> take 4 (drop (4 * i) (concat (map (le_bytes 4) ws) @ r)) = le_bytes 4 (ws ! i)"
proof (induction ws arbitrary: i)
  case (Cons w ws)
  then show ?case by (cases i) auto
qed simp

lemma length_concat_blocks [simp]: "length (concat (map (le_bytes 4) ws)) = 4 * length ws"
  by (induction ws) auto

lemma get_head_n_put:
  "0 \<le> n \<Longrightarrow> n \<le> int LOGBLOCKS \<Longrightarrow> get_head_n (put_head n bl d) = n"
  by (simp add: get_head_n_def put_head_def le4_round int_word_sint)

lemma get_head_block_put:
  "i < nat n \<Longrightarrow> nat n \<le> length bl \<Longrightarrow> get_head_block (put_head n bl d) i = bl ! i"
  by (simp add: get_head_block_def put_head_def take_concat_blocks [where r = "[]", simplified] le4_round)

lemma length_put_head:
  "nat n \<le> length bl \<Longrightarrow> 4 + 4 * nat n \<le> length d \<Longrightarrow> length (put_head n bl d) = length d"
  by (simp add: put_head_def)

section \<open>The loops write what the header names\<close>

lemma bframe_log:
  assumes "bframe s s'"
  shows "log_start s' = log_start s" and "log_dev s' = log_dev s" and "lh_n s' = lh_n s"
    and "lh_block s' = lh_block s" and "log_outstanding s' = log_outstanding s"
    and "log_committing s' = log_committing s"
  using assms by (auto simp: bframe_def)

lemma bread_frame: "bread dev b s = Ok i s' \<Longrightarrow> bframe s s'"
proof -
  assume "bread dev b s = Ok i s'"
  then show ?thesis
    by (auto simp: bread_def bget_def acquiresleep_def sleep_def disk_rw_def andthen_eq_Ok upd_buf_twice Let_def
        split: option.splits if_splits)
qed

definition wrote :: "'z bstate_scheme \<Rightarrow> (u32 \<times> byte list) list \<Rightarrow> 'z bstate_scheme \<Rightarrow> bool" where
  "wrote s w s' \<longleftrightarrow> bframe s s' \<and> dwrites s' = dwrites s @ w \<and> disk s' = apply_writes w (disk s)"

lemma wrote_refl: "wrote s [] s"
  by (simp add: wrote_def)

lemma wrote_trans: "wrote s v t \<Longrightarrow> wrote t w u \<Longrightarrow> wrote s (v @ w) u"
  by (auto simp: wrote_def intro: bframe_trans)

abbreviation log_blk :: "'z lstate_scheme \<Rightarrow> nat \<Rightarrow> u32" where
  "log_blk s t \<equiv> log_start s + of_nat t + 1"

lemma write_log_one_ok:
  assumes q: "calm ROOTDEV s P {}" "finite P" "card P + 1 < NBUF" and "log_dev s = ROOTDEV"
    and ab: "log_blk s t \<notin> P" "log_blk s t \<noteq> lh_block s ! t"
  shows "\<exists>s'. write_log_one t s = Ok () s' \<and> calm ROOTDEV s' P {} \<and>
    (\<forall>x. x \<noteq> log_blk s t \<longrightarrow> content ROOTDEV x s' = content ROOTDEV x s) \<and>
    wrote s [(log_blk s t, content ROOTDEV (lh_block s ! t) s)] s'"
proof -
  have "write_log_one t s =
    andthen (bread ROOTDEV (log_blk s t) s) (\<lambda>i s1. andthen (bread ROOTDEV (lh_block s ! t) s1) (\<lambda>j s1.
      andthen (bwrite i (set_data i (b_data (bufs s1 ! j)) s1)) (\<lambda>_ s1. andthen (brelse j s1) (\<lambda>_ s1. brelse i s1))))"
    unfolding write_log_one_def Let_def assms(4)
    by (rule andthen_cong) (auto dest!: bread_frame simp: bframe_log assms(4))
  with bc.copy_to_first [OF q ab] show ?thesis by (auto simp: wrote_def)
qed

lemma install_one_ok:
  assumes q: "calm ROOTDEV s P {}" "finite P" "card P + 1 < NBUF" and "log_dev s = ROOTDEV"
    and ab: "log_blk s t \<notin> P" "log_blk s t \<noteq> lh_block s ! t" and u: "\<not> r \<Longrightarrow> lh_block s ! t \<in> P"
  shows "\<exists>s'. install_one r t s = Ok () s' \<and> calm ROOTDEV s' (if r then P else P - {lh_block s ! t}) {} \<and>
    (\<forall>x. x \<noteq> lh_block s ! t \<longrightarrow> content ROOTDEV x s' = content ROOTDEV x s) \<and>
    wrote s [(lh_block s ! t, content ROOTDEV (log_blk s t) s)] s'"
proof -
  have "install_one r t s =
    andthen (bread ROOTDEV (log_blk s t) s) (\<lambda>i s1. andthen (bread ROOTDEV (lh_block s ! t) s1) (\<lambda>j s1.
      andthen (bwrite j (set_data j (b_data (bufs s1 ! i)) s1))
        (\<lambda>_ s1. andthen (brelse i (if \<not> r then bunpin j s1 else s1)) (\<lambda>_ s1. brelse j s1))))"
    unfolding install_one_def Let_def assms(4)
    by (rule andthen_cong) (auto dest!: bread_frame simp: bframe_log assms(4))
  with bc.copy_to_second [OF q ab, of "\<not> r"] u show ?thesis by (auto simp: wrote_def)
qed

lemma write_head_ok:
  assumes q: "calm ROOTDEV s P {}" "finite P" "card P < NBUF" and "log_dev s = ROOTDEV"
    and "log_start s \<notin> P" and "0 \<le> lh_n s" "lh_n s \<le> int LOGBLOCKS" and "length (lh_block s) = LOGBLOCKS"
  shows "\<exists>s'. write_head s = Ok () s' \<and> calm ROOTDEV s' P {} \<and>
    (\<forall>x. x \<noteq> log_start s \<longrightarrow> content ROOTDEV x s' = content ROOTDEV x s) \<and>
    wrote s [(log_start s, put_head (lh_n s) (lh_block s) (content ROOTDEV (log_start s) s))] s'"
proof -
  let ?f = "put_head (lh_n s) (lh_block s)"
  have "write_head s = andthen (bread ROOTDEV (log_start s) s) (\<lambda>i s1.
      andthen (bwrite i (set_data i (?f (b_data (bufs s1 ! i))) s1)) (\<lambda>_ s1. brelse i s1))"
    unfolding write_head_def Let_def assms(4)
    by (rule andthen_cong) (use assms(7) in \<open>auto dest!: bread_frame simp: bframe_log\<close>)
  moreover have "length (?f (content ROOTDEV (log_start s) s)) = BSIZE"
    using assms(6-8) bc.len [OF q(1), of "log_start s"] by (subst length_put_head) auto
  ultimately show ?thesis
    using bc.overwrite_block [OF q assms(5), of ?f] by (auto simp: wrote_def)
qed

lemma write_log_loop_ok:
  assumes "calm ROOTDEV s P {}" "finite P" "card P + 1 < NBUF" and "log_dev s = ROOTDEV"
    and "\<And>t. t < t0 + k \<Longrightarrow> log_blk s t \<notin> P \<and> lh_block s ! t \<in> P"
  shows "\<exists>s'. write_log_loop k t0 s = Ok () s' \<and> calm ROOTDEV s' P {} \<and>
    (\<forall>x\<in>P. content ROOTDEV x s' = content ROOTDEV x s) \<and>
    wrote s (map (\<lambda>t. (log_blk s t, content ROOTDEV (lh_block s ! t) s)) [t0..<t0 + k]) s'"
  using assms
proof (induction k arbitrary: t0 s)
  case 0
  then show ?case by (simp add: wrote_refl)
next
  case (Suc k)
  have "log_blk s t0 \<notin> P" "lh_block s ! t0 \<in> P" using Suc.prems(5) [of t0] by auto
  then have ne: "log_blk s t0 \<noteq> lh_block s ! t0" by auto
  from write_log_one_ok [OF Suc.prems(1-4) \<open>log_blk s t0 \<notin> P\<close> ne] obtain s1 where
    1: "write_log_one t0 s = Ok () s1" "calm ROOTDEV s1 P {}"
      "\<And>x. x \<noteq> log_blk s t0 \<Longrightarrow> content ROOTDEV x s1 = content ROOTDEV x s"
      "wrote s [(log_blk s t0, content ROOTDEV (lh_block s ! t0) s)] s1" by blast
  have fr: "bframe s s1" using 1(4) by (simp add: wrote_def)
  have keep: "content ROOTDEV x s1 = content ROOTDEV x s" if "x \<in> P" for x
    using 1(3) that \<open>log_blk s t0 \<notin> P\<close> by metis
  from Suc.IH [of s1 "Suc t0"] 1(2) Suc.prems fr obtain s2 where
    2: "write_log_loop k (Suc t0) s1 = Ok () s2" "calm ROOTDEV s2 P {}"
      "\<And>x. x \<in> P \<Longrightarrow> content ROOTDEV x s2 = content ROOTDEV x s1"
      "wrote s1 (map (\<lambda>t. (log_blk s t, content ROOTDEV (lh_block s ! t) s1)) [Suc t0..<t0 + Suc k]) s2"
    by (auto simp: bframe_log)
  have eq: "map (\<lambda>t. (log_blk s t, content ROOTDEV (lh_block s ! t) s1)) [Suc t0..<t0 + Suc k] =
        map (\<lambda>t. (log_blk s t, content ROOTDEV (lh_block s ! t) s)) [Suc t0..<t0 + Suc k]"
    using Suc.prems(5) keep by auto
  from wrote_trans [OF 1(4) 2(4) [unfolded eq]] have
    "wrote s (map (\<lambda>t. (log_blk s t, content ROOTDEV (lh_block s ! t) s)) [t0..<t0 + Suc k]) s2"
    by (simp add: upt_conv_Cons del: upt_Suc)
  then show ?case using 1(1) 2(1-3) keep by auto
qed

lemma install_loop_ok:
  assumes "calm ROOTDEV s P {}" "finite P" "card P + 1 < NBUF" and "log_dev s = ROOTDEV"
    and "\<And>t. t < t0 + k \<Longrightarrow> log_blk s t \<notin> P" and "\<And>t t'. t < t0 + k \<Longrightarrow> t' < t0 + k \<Longrightarrow> log_blk s t \<noteq> lh_block s ! t'"
    and "\<not> r \<Longrightarrow> inj_on ((!) (lh_block s)) {t0..<t0 + k} \<and> (!) (lh_block s) ` {t0..<t0 + k} \<subseteq> P"
  shows "\<exists>s'. install_loop r k t0 s = Ok () s' \<and>
    calm ROOTDEV s' (if r then P else P - (!) (lh_block s) ` {t0..<t0 + k}) {} \<and>
    wrote s (map (\<lambda>t. (lh_block s ! t, content ROOTDEV (log_blk s t) s)) [t0..<t0 + k]) s'"
  using assms
proof (induction k arbitrary: t0 s P)
  case 0
  then show ?case by (simp add: wrote_refl)
next
  case (Suc k)
  let ?b = "lh_block s ! t0" and ?P = "if r then P else P - {lh_block s ! t0}"
  have "log_blk s t0 \<notin> P" "log_blk s t0 \<noteq> ?b" "\<not> r \<Longrightarrow> ?b \<in> P"
    using Suc.prems(5) [of t0] Suc.prems(6) [of t0 t0] Suc.prems(7) by auto
  from install_one_ok [OF Suc.prems(1-4) this] obtain s1 where
    1: "install_one r t0 s = Ok () s1" "calm ROOTDEV s1 ?P {}"
      "\<And>x. x \<noteq> ?b \<Longrightarrow> content ROOTDEV x s1 = content ROOTDEV x s"
      "wrote s [(?b, content ROOTDEV (log_blk s t0) s)] s1" by blast
  have fr: "bframe s s1" using 1(4) by (simp add: wrote_def)
  have P: "finite ?P" "card ?P + 1 < NBUF" "\<And>x. x \<notin> P \<Longrightarrow> x \<notin> ?P"
    using Suc.prems(2,3) card_Diff1_le [of P ?b] by auto
  have ne: "lh_block s ! x \<noteq> ?b" if "\<not> r" "Suc t0 \<le> x" "x < t0 + Suc k" for x
    using Suc.prems(7) that inj_onD [of "(!) (lh_block s)" "{t0..<t0 + Suc k}" x t0] by auto
  have inj: "\<not> r \<Longrightarrow> inj_on ((!) (lh_block s)) {Suc t0..<Suc t0 + k} \<and> (!) (lh_block s) ` {Suc t0..<Suc t0 + k} \<subseteq> ?P"
    using Suc.prems(7) ne by (auto simp: inj_on_def)
  have rest: "content ROOTDEV (log_blk s t) s1 = content ROOTDEV (log_blk s t) s" if "t < t0 + Suc k" for t
    using 1(3) Suc.prems(6) [of t t0] that by simp
  have lb: "lh_block s1 = lh_block s" "log_start s1 = log_start s" "log_dev s1 = log_dev s"
    using fr by (simp_all add: bframe_log)
  have "\<exists>s2. install_loop r k (Suc t0) s1 = Ok () s2 \<and>
      calm ROOTDEV s2 (if r then ?P else ?P - (!) (lh_block s) ` {Suc t0..<Suc t0 + k}) {} \<and>
      wrote s1 (map (\<lambda>t. (lh_block s ! t, content ROOTDEV (log_blk s t) s1)) [Suc t0..<Suc t0 + k]) s2"
    by (rule Suc.IH [OF 1(2) P(1,2), of "Suc t0", unfolded lb]) (use Suc.prems(4-6) P(3) inj in auto)
  then obtain s2 where
    2: "install_loop r k (Suc t0) s1 = Ok () s2"
      "calm ROOTDEV s2 (if r then ?P else ?P - (!) (lh_block s) ` {Suc t0..<Suc t0 + k}) {}"
      "wrote s1 (map (\<lambda>t. (lh_block s ! t, content ROOTDEV (log_blk s t) s1)) [Suc t0..<Suc t0 + k]) s2"
    by blast
  have eq: "map (\<lambda>t. (lh_block s ! t, content ROOTDEV (log_blk s t) s1)) [Suc t0..<Suc t0 + k] =
        map (\<lambda>t. (lh_block s ! t, content ROOTDEV (log_blk s t) s)) [Suc t0..<Suc t0 + k]"
    using rest by auto
  have "{t0..<t0 + Suc k} = insert t0 {Suc t0..<Suc t0 + k}" by auto
  then have Peq: "(if r then ?P else ?P - (!) (lh_block s) ` {Suc t0..<Suc t0 + k}) =
      (if r then P else P - (!) (lh_block s) ` {t0..<t0 + Suc k})" by auto
  from wrote_trans [OF 1(4) 2(3) [unfolded eq]] have
    "wrote s (map (\<lambda>t. (lh_block s ! t, content ROOTDEV (log_blk s t) s)) [t0..<t0 + Suc k]) s2"
    by (simp add: upt_conv_Cons del: upt_Suc)
  then show ?case using 1(1) 2(1) 2(2) [unfolded Peq] by auto
qed

section \<open>Commit\<close>

lemma cache_view_log [simp]:
  "calm dev (s\<lparr>lh_n := n\<rparr>) P H = calm dev s P H" "calm dev (s\<lparr>lh_block := l\<rparr>) P H = calm dev s P H"
  "calm dev (s\<lparr>log_start := x\<rparr>) P H = calm dev s P H" "calm dev (s\<lparr>log_dev := x\<rparr>) P H = calm dev s P H"
  "calm dev (s\<lparr>log_committing := c\<rparr>) P H = calm dev s P H" "calm dev (s\<lparr>log_outstanding := j\<rparr>) P H = calm dev s P H"
  "content dev b (s\<lparr>lh_n := n\<rparr>) = content dev b s" "content dev b (s\<lparr>lh_block := l\<rparr>) = content dev b s"
  "content dev b (s\<lparr>log_start := x\<rparr>) = content dev b s" "content dev b (s\<lparr>log_dev := x\<rparr>) = content dev b s"
  "content dev b (s\<lparr>log_committing := c\<rparr>) = content dev b s"
  "content dev b (s\<lparr>log_outstanding := j\<rparr>) = content dev b s"
  by (simp_all add: calm_def bcache_inv_def cur_ok_def myproc_def caches_def content_def split: option.split)

definition log_area :: "u32 \<Rightarrow> u32 set" where
  "log_area start = (\<lambda>t. start + of_nat t) ` {..LOGBLOCKS}"

lemma of_nat_log_eq:
  assumes "a \<le> LOGBLOCKS" and "b \<le> LOGBLOCKS"
  shows "(of_nat a :: u32) = of_nat b \<longleftrightarrow> a = b"
proof -
  have "unat (of_nat a :: u32) = a" "unat (of_nat b :: u32) = b"
    using assms by (simp_all add: unat_of_nat_small)
  then show ?thesis by metis
qed

lemma log_blk_area:
  "t < LOGBLOCKS \<Longrightarrow> log_blk s t \<in> log_area (log_start s)" "log_start s \<in> log_area (log_start s)"
proof -
  assume "t < LOGBLOCKS"
  then show "log_blk s t \<in> log_area (log_start s)"
    unfolding log_area_def by (intro image_eqI [of _ _ "Suc t"]) auto
next
  show "log_start s \<in> log_area (log_start s)"
    unfolding log_area_def by (intro image_eqI [of _ _ 0]) auto
qed

lemma log_blk_distinct:
  "t < LOGBLOCKS \<Longrightarrow> t' < LOGBLOCKS \<Longrightarrow> log_blk s t = log_blk s t' \<longleftrightarrow> t = t'"
  "t < LOGBLOCKS \<Longrightarrow> log_blk s t \<noteq> log_start s"
  using of_nat_log_eq [of t t'] of_nat_log_eq [of "Suc t" 0] by (auto simp: add.assoc add.commute)

lemma apply_writes_map:
  "x \<in> set xs \<Longrightarrow> inj_on f (set xs) \<Longrightarrow> apply_writes (map (\<lambda>t. (f t, g t)) xs) d (f x) = g x"
proof (induction xs arbitrary: d)
  case (Cons y ys)
  show ?case
  proof (cases "x \<in> set ys")
    case True
    then show ?thesis using Cons by simp
  next
    case False
    then have "x = y" using Cons.prems by simp
    moreover have "f x \<notin> fst ` set (map (\<lambda>t. (f t, g t)) ys)"
      using False Cons.prems by (auto simp: inj_on_def \<open>x = y\<close>)
    ultimately show ?thesis by (simp add: apply_writes_other)
  qed
qed simp

lemma apply_writes_length:
  "(\<And>b. length (d b) = N) \<Longrightarrow> (\<And>b x. (b, x) \<in> set w \<Longrightarrow> length x = N) \<Longrightarrow> length (apply_writes w d b) = N"
proof (induction w arbitrary: d)
  case (Cons p w)
  have "length ((d(fst p := snd p)) c) = N" for c using Cons.prems(1,2) by (cases p) auto
  then have "length (apply_writes w (d(fst p := snd p)) b) = N" by (rule Cons.IH) (use Cons.prems(2) in auto)
  then show ?case by (cases p) simp
qed simp

text \<open>A state in which \<open>end_op\<close> may commit: each block of the header is pinned once, the
  header holds no block twice and none of the log itself, and no buffer is held. The cache
  must have two buffers to spare.\<close>

definition committable :: "'z lstate_scheme \<Rightarrow> bool" where
  "committable s \<longleftrightarrow> log_dev s = ROOTDEV \<and> length (lh_block s) = LOGBLOCKS \<and>
     0 < lh_n s \<and> nat (lh_n s) + 1 < NBUF \<and> distinct (take (nat (lh_n s)) (lh_block s)) \<and>
     set (take (nat (lh_n s)) (lh_block s)) \<inter> log_area (log_start s) = {} \<and>
     calm ROOTDEV s (set (take (nat (lh_n s)) (lh_block s))) {}"

definition tx_writes :: "'z lstate_scheme \<Rightarrow> (u32 \<times> byte list) list" where
  "tx_writes s =
     (let n = nat (lh_n s); new = (\<lambda>t. content ROOTDEV (lh_block s ! t) s);
          h = put_head (lh_n s) (lh_block s) (disk s (log_start s))
      in map (\<lambda>t. (log_blk s t, new t)) [0..<n] @ [(log_start s, h)] @
         map (\<lambda>t. (lh_block s ! t, new t)) [0..<n] @ [(log_start s, put_head 0 (lh_block s) h)])"

lemma commit_ok:
  assumes "committable s"
  shows "\<exists>s'. commit s = Ok () s' \<and> calm ROOTDEV s' {} {} \<and> lh_n s' = 0 \<and>
    dwrites s' = dwrites s @ tx_writes s \<and> disk s' = apply_writes (tx_writes s) (disk s)"
proof -
  define n where "n = nat (lh_n s)"
  define P where "P = set (take n (lh_block s))"
  let ?L = "log_blk s" and ?new = "\<lambda>t. content ROOTDEV (lh_block s ! t) s"
  let ?A = "map (\<lambda>t. (?L t, ?new t)) [0..<n]" and ?B = "map (\<lambda>t. (lh_block s ! t, ?new t)) [0..<n]"
  let ?h = "put_head (lh_n s) (lh_block s) (disk s (log_start s))"
  have c: "log_dev s = ROOTDEV" "length (lh_block s) = LOGBLOCKS" "0 < lh_n s" "n + 1 < NBUF"
    "distinct (take n (lh_block s))" "P \<inter> log_area (log_start s) = {}" "calm ROOTDEV s P {}"
    using assms by (auto simp: committable_def P_def n_def)
  have Pim: "P = (!) (lh_block s) ` {0..<n}" unfolding P_def using c(2,4) by (simp add: nth_image)
  have inj: "inj_on ((!) (lh_block s)) {0..<n}"
  proof -
    have "inj_on ((!) (take n (lh_block s))) {0..<n}" by (rule inj_on_nth [OF c(5)]) (use c(2,4) in auto)
    then show ?thesis by (simp add: inj_on_def)
  qed
  have "card P = n" using distinct_card [OF c(5)] c(2,4) by (simp add: P_def)
  moreover have "?L t \<notin> P" if "t < n" for t
    using c(4,6) log_blk_area(1) [of t s] that by (auto simp del: of_nat_add)
  ultimately have P: "finite P" "card P + 1 < NBUF" "log_start s \<notin> P" "\<And>t. t < n \<Longrightarrow> ?L t \<notin> P"
    "\<And>t. t < n \<Longrightarrow> lh_block s ! t \<in> P"
    using c(4,6) log_blk_area(2) [of s] by (auto simp: Pim)
  have L: "\<And>t. t < n \<Longrightarrow> ?L t \<noteq> log_start s" "inj_on ?L {0..<n}"
    using c(4) log_blk_distinct(1) [of _ _ s] log_blk_distinct(2) [of _ s] by (auto simp: inj_on_def)
  from write_log_loop_ok [OF c(7) P(1,2) c(1), of 0 n] P(4,5) obtain s1 where
    1: "write_log_loop n 0 s = Ok () s1" "calm ROOTDEV s1 P {}"
      "\<And>x. x \<in> P \<Longrightarrow> content ROOTDEV x s1 = content ROOTDEV x s" "wrote s ?A s1" by auto
  have fr1: "bframe s s1" and d1: "disk s1 = apply_writes ?A (disk s)" using 1(4) by (auto simp: wrote_def)
  have "disk s1 (log_start s) = disk s (log_start s)"
    unfolding d1 using L(1) by (intro apply_writes_other) auto
  then have h1: "content ROOTDEV (log_start s) s1 = disk s (log_start s)"
    using calm_clean [OF 1(2) P(3)] by simp
  have logd: "content ROOTDEV (?L t) s1 = ?new t" if "t < n" for t
    using calm_clean [OF 1(2), of "?L t"] P(4) that L(2) apply_writes_map [of t "[0..<n]" ?L ?new "disk s"]
    by (simp add: d1)
  have "0 \<le> lh_n s" "lh_n s \<le> int LOGBLOCKS" using c(3,4) by (auto simp: n_def)
  with write_head_ok [OF 1(2) P(1), unfolded bframe_log [OF fr1] h1] P(2,3) c(1,2) obtain s2 where
    2: "write_head s1 = Ok () s2" "calm ROOTDEV s2 P {}"
      "\<And>x. x \<noteq> log_start s \<Longrightarrow> content ROOTDEV x s2 = content ROOTDEV x s1" "wrote s1 [(log_start s, ?h)] s2"
    by auto
  have fr2: "bframe s s2" using 2(4) fr1 by (auto simp: wrote_def intro: bframe_trans)
  have ne: "?L t \<noteq> lh_block s ! t'" if "t < n" "t' < n" for t t' using P(4,5) that by metis
  have "\<exists>s'. install_loop False n 0 s2 = Ok () s' \<and> calm ROOTDEV s' (P - (!) (lh_block s) ` {0..<0 + n}) {} \<and>
      wrote s2 (map (\<lambda>t. (lh_block s ! t, content ROOTDEV (?L t) s2)) [0..<0 + n]) s'"
    using install_loop_ok [OF 2(2) P(1,2), of 0 n False, unfolded bframe_log [OF fr2]] c(1) P(4) ne inj Pim
    by simp
  moreover have "map (\<lambda>t. (lh_block s ! t, content ROOTDEV (?L t) s2)) [0..<n] = ?B"
    using logd 2(3) L(1) by auto
  ultimately obtain s3 where
    3: "install_loop False n 0 s2 = Ok () s3" "calm ROOTDEV s3 {} {}" "wrote s2 ?B s3"
    using Pim by auto
  have fr3: "bframe s s3" using 3(3) fr2 by (auto simp: wrote_def intro: bframe_trans)
  have w3: "wrote s (?A @ [(log_start s, ?h)] @ ?B) s3"
    by (rule wrote_trans [OF 1(4) wrote_trans [OF 2(4) 3(3)]])
  have "disk s3 (log_start s) = ?h"
    using w3 P(3,5) by (auto simp: wrote_def intro!: apply_writes_other [THEN trans])
  then have "content ROOTDEV (log_start s) (s3\<lparr>lh_n := 0\<rparr>) = ?h" using calm_clean [OF 3(2)] by simp
  moreover have "calm ROOTDEV (s3\<lparr>lh_n := 0\<rparr>) {} {}" using 3(2) by simp
  ultimately obtain s4 where
    4: "write_head (s3\<lparr>lh_n := 0\<rparr>) = Ok () s4" "calm ROOTDEV s4 {} {}"
      "wrote (s3\<lparr>lh_n := 0\<rparr>) [(log_start s, put_head 0 (lh_block s) ?h)] s4"
    using write_head_ok [of "s3\<lparr>lh_n := 0\<rparr>" "{}"] c(1,2) bframe_log [OF fr3] by auto
  have "commit s = Ok () s4"
    using c(3) 1(1) 2(1) 3(1) 4(1) bframe_log(3) [OF fr2]
    by (simp add: commit_def write_log_def install_trans_def n_def)
  moreover have "lh_n s4 = 0" using 4(3) by (auto simp: wrote_def bframe_log(3))
  moreover have "dwrites s4 = dwrites s @ tx_writes s" "disk s4 = apply_writes (tx_writes s) (disk s)"
    using w3 4(3) by (auto simp: wrote_def tx_writes_def n_def Let_def)
  ultimately show ?thesis using 4(2) by blast
qed

section \<open>Recovery\<close>

lemma read_head_ok:
  assumes c: "calm ROOTDEV s {} {}" and "log_dev s = ROOTDEV"
    and n: "get_head_n (disk s (log_start s)) \<le> int LOGBLOCKS"
  defines "h \<equiv> disk s (log_start s)"
  shows "\<exists>s'. read_head s = Ok () s' \<and> calm ROOTDEV s' {} {} \<and> disk s' = disk s \<and>
    log_dev s' = ROOTDEV \<and> log_start s' = log_start s \<and> lh_n s' = get_head_n h \<and>
    lh_block s' = map (get_head_block h) [0..<nat (get_head_n h)] @ drop (nat (get_head_n h)) (lh_block s)"
proof -
  from bc.rd_ok [OF c, of "log_start s"] obtain i s1 where
    1: "bread ROOTDEV (log_start s) s = Ok i s1" "calm ROOTDEV s1 {} {i}" "b_data (bufs s1 ! i) = h"
      "b_blockno (bufs s1 ! i) = log_start s" "disk s1 = disk s" "bframe s s1"
    using calm_clean [OF c, of "log_start s"] by (auto simp: h_def)
  let ?s2 = "s1\<lparr>lh_n := get_head_n h,
     lh_block := map (get_head_block h) [0..<nat (get_head_n h)] @ drop (nat (get_head_n h)) (lh_block s)\<rparr>"
  have "calm ROOTDEV ?s2 {} {i}" using 1(2) by simp
  from bc.rel_ok [OF this, of i] 1(3-5) obtain s3 where
    3: "brelse i ?s2 = Ok () s3" "calm ROOTDEV s3 {} {}" "disk s3 = disk s" "bframe ?s2 s3"
    by (auto simp: h_def)
  have "read_head s = Ok () s3"
    using 1(1,3) 3(1) n assms(2) bframe_log [OF 1(6)] by (simp add: read_head_def h_def)
  then show ?thesis using 3 bframe_log [OF 3(4)] bframe_log [OF 1(6)] assms(2) by auto
qed

lemma recover_ok:
  assumes c: "calm ROOTDEV s {} {}" and "log_dev s = ROOTDEV" and "length (lh_block s) = LOGBLOCKS"
  defines "h \<equiv> disk s (log_start s)"
  assumes n: "get_head_n h \<le> int LOGBLOCKS"
    and out: "\<And>t. t < nat (get_head_n h) \<Longrightarrow> get_head_block h t \<notin> log_area (log_start s)"
  shows "\<exists>s' x. recover_from_log s = Ok () s' \<and> calm ROOTDEV s' {} {} \<and>
    disk s' = apply_writes (map (\<lambda>t. (get_head_block h t, disk s (log_blk s t))) [0..<nat (get_head_n h)] @
                            [(log_start s, x)]) (disk s) \<and> get_head_n x = 0"
proof -
  let ?n = "nat (get_head_n h)"
  from read_head_ok [OF c assms(2) n [unfolded h_def]] obtain s1 where
    1: "read_head s = Ok () s1" "calm ROOTDEV s1 {} {}" "disk s1 = disk s" "log_dev s1 = ROOTDEV"
      "log_start s1 = log_start s" "lh_n s1 = get_head_n h"
      "lh_block s1 = map (get_head_block h) [0..<?n] @ drop ?n (lh_block s)" unfolding h_def by blast
  have bl: "lh_block s1 ! t = get_head_block h t" if "t < ?n" for t using 1(7) that by (simp add: nth_append)
  have len: "length (lh_block s1) = LOGBLOCKS" using 1(7) assms(3) n by simp
  have ne: "log_blk s t \<noteq> lh_block s1 ! t'" if "t < ?n" "t' < ?n" for t t'
    using log_blk_area(1) [of t s] out [OF that(2)] bl [OF that(2)] that n by (metis le_less_trans nat_le_iff not_le)
  have eq: "map (\<lambda>t. (lh_block s1 ! t, content ROOTDEV (log_blk s t) s1)) [0..<0 + ?n] =
      map (\<lambda>t. (get_head_block h t, disk s (log_blk s t))) [0..<?n]"
    using bl calm_clean [OF 1(2)] 1(3) by auto
  have "\<exists>s'. install_loop True ?n 0 s1 = Ok () s' \<and> calm ROOTDEV s' {} {} \<and>
      wrote s1 (map (\<lambda>t. (lh_block s1 ! t, content ROOTDEV (log_blk s t) s1)) [0..<0 + ?n]) s'"
    using install_loop_ok [OF 1(2), of 0 ?n True, unfolded 1(5)] 1(4) ne by simp
  then obtain s2 where
    2: "install_loop True ?n 0 s1 = Ok () s2" "calm ROOTDEV s2 {} {}"
      "wrote s1 (map (\<lambda>t. (get_head_block h t, disk s (log_blk s t))) [0..<?n]) s2" unfolding eq by blast
  have fr: "bframe s1 s2" using 2(3) by (simp add: wrote_def)
  have "calm ROOTDEV (s2\<lparr>lh_n := 0\<rparr>) {} {}" using 2(2) by simp
  from write_head_ok [OF this] obtain s3 where
    3: "write_head (s2\<lparr>lh_n := 0\<rparr>) = Ok () s3" "calm ROOTDEV s3 {} {}"
      "wrote (s2\<lparr>lh_n := 0\<rparr>)
         [(log_start s, put_head 0 (lh_block s1) (content ROOTDEV (log_start s) (s2\<lparr>lh_n := 0\<rparr>)))] s3"
    using 1(4,5) len bframe_log [OF fr] by auto
  moreover have "recover_from_log s = Ok () s3"
    using 1(1,6) 2(1) 3(1) by (simp add: recover_from_log_def install_trans_def)
  ultimately show ?thesis
    using 2(3) 3 1(3) by (intro exI [of _ s3] exI) (auto simp: wrote_def get_head_n_put)
qed

section \<open>Crash safety\<close>

text \<open>A machine that has just booted with the disk \<open>d\<close>: nothing cached is in use or differs
  from the disk.\<close>

definition booted :: "(u32 \<Rightarrow> byte list) \<Rightarrow> 'z lstate_scheme \<Rightarrow> bool" where
  "booted d s \<longleftrightarrow> calm ROOTDEV s {} {} \<and> disk s = d \<and> length (lh_block s) = LOGBLOCKS"

lemma recover_head:
  assumes b: "booted d s" and h: "d start = put_head (int n) bl x" "n \<le> LOGBLOCKS" "n \<le> length bl"
    and dist: "distinct (take n bl)" and out: "set (take n bl) \<inter> log_area start = {}"
  shows "\<exists>s'. initlog ROOTDEV start s = Ok () s' \<and> calm ROOTDEV s' {} {} \<and>
    (\<forall>i. i \<notin> log_area start \<longrightarrow> disk s' i = d i \<or> (\<exists>t<n. i = bl ! t)) \<and>
    (\<forall>t<n. disk s' (bl ! t) = d (start + of_nat t + 1))"
proof -
  let ?s = "s\<lparr>log_start := start, log_dev := ROOTDEV\<rparr>"
  have gn: "get_head_n (d start) = int n" using h by (simp add: get_head_n_put)
  have gb: "get_head_block (d start) t = bl ! t" if "t < n" for t using h that by (simp add: get_head_block_put)
  have inb: "bl ! t \<in> set (take n bl)" if "t < n" for t
    using that h(3) by (metis length_take min.absorb2 nth_mem nth_take)
  have inj: "inj_on ((!) bl) {0..<n}"
  proof -
    have "inj_on ((!) (take n bl)) {0..<n}" by (rule inj_on_nth [OF dist]) (use h(3) in auto)
    then show ?thesis by (simp add: inj_on_def)
  qed
  have c: "calm ROOTDEV ?s {} {}" "disk ?s = d" using b by (auto simp: booted_def)
  have eq: "map (\<lambda>t. (get_head_block (d start) t, d (start + of_nat t + 1))) [0..<n] =
      map (\<lambda>t. (bl ! t, d (start + of_nat t + 1))) [0..<n]" using gb by simp
  have "\<exists>s' x. recover_from_log ?s = Ok () s' \<and> calm ROOTDEV s' {} {} \<and>
      disk s' = apply_writes (map (\<lambda>t. (get_head_block (d start) t, d (start + of_nat t + 1))) [0..<n] @ [(start, x)]) d \<and>
      get_head_n x = 0"
    using recover_ok [OF c(1), unfolded c(2)] b gn gb h(2) out inb by (simp add: booted_def) blast
  then obtain s' x where s': "recover_from_log ?s = Ok () s'" "calm ROOTDEV s' {} {}"
    "disk s' = apply_writes (map (\<lambda>t. (bl ! t, d (start + of_nat t + 1))) [0..<n] @
       [(start, x)]) d"
    unfolding eq by blast
  have start: "start \<in> log_area start" using log_blk_area(2) [of ?s] by simp
  have "disk s' (bl ! t) = d (start + of_nat t + 1)" if "t < n" for t
  proof -
    have "bl ! t \<noteq> start" using inb [OF that] out start by blast
    then show ?thesis using s'(3) that inj apply_writes_map [of t "[0..<n]" "(!) bl"] by (auto dest: fun_cong)
  qed
  moreover have "disk s' i = d i \<or> (\<exists>t<n. i = bl ! t)" if "i \<notin> log_area start" for i
  proof -
    have "i \<noteq> start" using that start by blast
    then have "disk s' i = apply_writes (map (\<lambda>t. (bl ! t, d (start + of_nat t + 1))) [0..<n]) d i"
      using s'(3) by simp
    then show ?thesis using apply_writes_other [of i "map (\<lambda>t. (bl ! t, d (start + of_nat t + 1))) [0..<n]" d]
      by force
  qed
  moreover have "initlog ROOTDEV start s = Ok () s'" using s'(1) by (simp add: initlog_def)
  ultimately show ?thesis using s'(2) by blast
qed

lemma put_head_zero:
  assumes "get_head_n d = 0" and "4 \<le> length d"
  shows "d = put_head 0 bl d"
proof -
  have "(of_le (take 4 d) :: u32) = 0" 
    using assms(1) by (intro signed_word_eqI) (simp add: get_head_n_def)
  then have "take 4 d = le_bytes 4 (0 :: u32)"
    using le_bytes_of_le [of "take 4 d", where 'a = 32] assms(2) by simp
  then show ?thesis by (simp add: put_head_def) (metis append_take_drop_id)
qed

lemma committable_facts:
  assumes "committable s"
  defines "n \<equiv> nat (lh_n s)"
  shows "n < LOGBLOCKS" and "int n = lh_n s" and "n \<le> length (lh_block s)"
    and "\<And>t. t < n \<Longrightarrow> lh_block s ! t \<notin> log_area (log_start s)"
    and "inj_on ((!) (lh_block s)) {0..<n}"
    and "\<And>i. i \<notin> (!) (lh_block s) ` {0..<n} \<Longrightarrow> content ROOTDEV i s = disk s i"
proof -
  note c = assms(1) [unfolded committable_def, folded n_def]
  show le: "n < LOGBLOCKS" "int n = lh_n s" "n \<le> length (lh_block s)" using c by (auto simp: n_def)
  have im: "set (take n (lh_block s)) = (!) (lh_block s) ` {0..<n}" using le(3) by (simp add: nth_image)
  show "lh_block s ! t \<notin> log_area (log_start s)" if "t < n" for t
    using c that unfolding im by (auto simp: disjoint_iff)
  have "inj_on ((!) (take n (lh_block s))) {0..<n}" by (rule inj_on_nth) (use c le(3) in auto)
  then show "inj_on ((!) (lh_block s)) {0..<n}" by (simp add: inj_on_def)
  show "content ROOTDEV i s = disk s i" if "i \<notin> (!) (lh_block s) ` {0..<n}" for i
    using calm_clean [of ROOTDEV s "set (take n (lh_block s))" i] c that by (auto simp: im)
qed

lemma tx_prefix_disk:
  assumes "committable s" and "d = apply_writes (take k (tx_writes s)) (disk s)" and i: "i \<notin> log_area (log_start s)"
  defines "n \<equiv> nat (lh_n s)" and "h \<equiv> put_head (lh_n s) (lh_block s) (disk s (log_start s))"
  shows "k \<le> n \<Longrightarrow> d (log_start s) = disk s (log_start s) \<and> d i = disk s i"
    and "n < k \<Longrightarrow> k \<le> 2 * n + 1 \<Longrightarrow> d (log_start s) = h \<and>
      (\<forall>t<n. d (log_blk s t) = content ROOTDEV (lh_block s ! t) s) \<and>
      (i \<notin> (!) (lh_block s) ` {0..<n} \<longrightarrow> d i = disk s i)"
    and "2 * n + 1 < k \<Longrightarrow> d (log_start s) = put_head 0 (lh_block s) h \<and> d i = content ROOTDEV i s"
proof -
  let ?new = "\<lambda>t. content ROOTDEV (lh_block s ! t) s"
  let ?A = "map (\<lambda>t. (log_blk s t, ?new t)) [0..<n]" and ?B = "map (\<lambda>t. (lh_block s ! t, ?new t)) [0..<n]"
  note f = committable_facts [OF assms(1), folded n_def]
  have W: "tx_writes s = ?A @ [(log_start s, h)] @ ?B @ [(log_start s, put_head 0 (lh_block s) h)]"
    by (simp add: tx_writes_def n_def h_def Let_def)
  have keepA: "apply_writes (take j ?A) e x = e x" if "x \<notin> log_blk s ` {0..<n}" for j e x
    by (rule apply_writes_other) (use that in \<open>auto dest!: in_set_takeD\<close>)
  have keepB: "apply_writes (take j ?B) e x = e x" if "x \<notin> (!) (lh_block s) ` {0..<n}" for j e x
    by (rule apply_writes_other) (use that in \<open>auto dest!: in_set_takeD\<close>)
  have blk: "log_blk s t \<in> log_area (log_start s)" if "t < n" for t
    using log_blk_area(1) [of t s] that f(1) by simp
  have notA: "log_start s \<notin> log_blk s ` {0..<n}" "i \<notin> log_blk s ` {0..<n}"
    using f(1) log_blk_distinct(2) [of _ s] blk i by (auto simp del: add_cancel_left_right add_cancel_right_right)
  have notB: "log_start s \<notin> (!) (lh_block s) ` {0..<n}" "\<And>t. t < n \<Longrightarrow> log_blk s t \<notin> (!) (lh_block s) ` {0..<n}"
    using f(4) blk log_blk_area(2) [of s] by fastforce+
  have istart: "i \<noteq> log_start s" using i log_blk_area(2) [of s] by auto
  show "d (log_start s) = disk s (log_start s) \<and> d i = disk s i" if "k \<le> n"
  proof -
    have "d = apply_writes (take k ?A) (disk s)" using assms(2) that by (simp add: W)
    then show ?thesis using keepA notA by simp
  qed
  have injL: "inj_on (log_blk s) {0..<n}" using f(1) log_blk_distinct(1) [of _ _ s] by (auto simp: inj_on_def)
  show "d (log_start s) = h \<and> (\<forall>t<n. d (log_blk s t) = ?new t) \<and>
      (i \<notin> (!) (lh_block s) ` {0..<n} \<longrightarrow> d i = disk s i)" if "n < k" "k \<le> 2 * n + 1"
  proof -
    have "take k (tx_writes s) = ?A @ [(log_start s, h)] @ take (k - n - 1) ?B"
      using that by (simp add: W take_Cons')
    then have d: "d = apply_writes (take (k - n - 1) ?B) ((apply_writes ?A (disk s))(log_start s := h))"
      using assms(2) by simp
    have "d (log_start s) = h"
      unfolding d using keepB notB by simp
    moreover have "d (log_blk s t) = ?new t" if "t < n" for t
      unfolding d using keepB notB that apply_writes_map [of t "[0..<n]" "log_blk s" ?new] injL notA(1) by auto
    moreover have "d i = disk s i" if "i \<notin> (!) (lh_block s) ` {0..<n}"
      unfolding d using keepB keepA [where j = n] notA istart that by simp
    ultimately show ?thesis by blast
  qed
  show "d (log_start s) = put_head 0 (lh_block s) h \<and> d i = content ROOTDEV i s" if "2 * n + 1 < k"
  proof -
    have "d = (apply_writes ?B ((apply_writes ?A (disk s))(log_start s := h)))(log_start s := put_head 0 (lh_block s) h)"
      using assms(2) that by (simp add: W)
    moreover have "apply_writes ?B e i = content ROOTDEV i s" if "e i = disk s i" for e
    proof (cases "i \<in> (!) (lh_block s) ` {0..<n}")
      case True
      then show ?thesis using apply_writes_map [of _ "[0..<n]" "(!) (lh_block s)" ?new e] f(5) by auto
    next
      case False
      then show ?thesis using keepB [where j = n] f(6) [OF False] that by simp
    qed
    moreover have "apply_writes ?A (disk s) i = disk s i"
      using keepA [where j = n] notA by simp
    ultimately show ?thesis using istart by simp
  qed
qed

lemma crash_recovers:
  assumes c: "committable s" and z: "get_head_n (disk s (log_start s)) = 0" and "k \<le> length (tx_writes s)"
    and b: "booted (apply_writes (take k (tx_writes s)) (disk s)) b"
  shows "\<exists>r. initlog ROOTDEV (log_start s) b = Ok () r \<and>
    (\<forall>i. i \<notin> log_area (log_start s) \<longrightarrow>
       disk r i = (if k \<le> nat (lh_n s) then disk s i else content ROOTDEV i s))"
proof -
  define n where "n = nat (lh_n s)"
  define d where "d = apply_writes (take k (tx_writes s)) (disk s)"
  note f = committable_facts [OF c, folded n_def] and pre = tx_prefix_disk [OF c d_def, folded n_def]
  have b: "booted d b" using b by (simp add: d_def)
  obtain i0 where i0: "i0 \<notin> log_area (log_start s)"
    using c f(4) [of 0] by (auto simp: committable_def n_def)
  have "calm ROOTDEV s (set (take n (lh_block s))) {}" using c by (simp add: committable_def n_def)
  from bcache_invD(6) [OF calmD(2) [OF this], of "log_start s"] have len: "4 \<le> length (disk s (log_start s))" by simp
  have zero: "\<exists>r. initlog ROOTDEV (log_start s) b = Ok () r \<and> (\<forall>i. i \<notin> log_area (log_start s) \<longrightarrow> disk r i = d i)"
    if "d (log_start s) = put_head 0 bl x" for bl x
    using recover_head [OF b, of "log_start s" 0 bl x] that by auto
  consider "k \<le> n" | "n < k" "k \<le> 2 * n + 1" | "2 * n + 1 < k" by linarith
  then show ?thesis
  proof cases
    case 1
    then have "d (log_start s) = put_head 0 [] (disk s (log_start s))"
      using pre(1) [OF i0] put_head_zero [OF z len, of "[]"] by metis
    from zero [OF this] show ?thesis using 1 pre(1) by (auto simp: n_def)
  next
    case 2
    let ?bl = "lh_block s"
    have h: "d (log_start s) = put_head (int n) ?bl (disk s (log_start s))" using pre(2) [OF i0 2] f(2) by simp
    have dist: "distinct (take n ?bl)" "set (take n ?bl) \<inter> log_area (log_start s) = {}"
      using c by (auto simp: committable_def n_def)
    from recover_head [OF b h _ f(3) dist] f(1) obtain r where
      r: "initlog ROOTDEV (log_start s) b = Ok () r"
        "\<And>i. i \<notin> log_area (log_start s) \<Longrightarrow> disk r i = d i \<or> (\<exists>t<n. i = ?bl ! t)"
        "\<And>t. t < n \<Longrightarrow> disk r (?bl ! t) = d (log_blk s t)" by auto
    have "disk r i = content ROOTDEV i s" if i: "i \<notin> log_area (log_start s)" for i
    proof (cases "i \<in> (!) ?bl ` {0..<n}")
      case True
      then show ?thesis using r(3) pre(2) [OF i 2] by auto
    next
      case False
      then have "d i = disk s i" using pre(2) [OF i 2] by simp
      then show ?thesis using r(2) [OF i] f(6) [OF False] False by auto
    qed
    with r(1) 2 show ?thesis by (auto simp: n_def)
  next
    case 3
    then show ?thesis using zero pre(3) [OF i0] pre(3) by (fastforce simp: n_def)
  qed
qed

text \<open>C1: Crash safety of the log. Let a transaction be ready to commit, with an empty log on
  disk. Then \<open>commit\<close> returns after the disk writes \<open>tx_writes\<close>, and whatever prefix of these
  writes reached the disk when the machine stopped, the recovery of the next boot succeeds and
  leaves every block outside the log either as it was before the transaction or as the
  transaction left it in the cache, for all blocks alike: the old contents up to the write of
  the header, the new contents from that write on.\<close>
theorem log_commit_crash_atomic:
  assumes "committable s" and "get_head_n (disk s (log_start s)) = 0"
  shows "\<exists>s'. commit s = Ok () s' \<and> dwrites s' = dwrites s @ tx_writes s \<and> lh_n s' = 0 \<and>
    (\<forall>k b. k \<le> length (tx_writes s) \<longrightarrow> booted (apply_writes (take k (tx_writes s)) (disk s)) b \<longrightarrow>
       (\<exists>r. initlog ROOTDEV (log_start s) b = Ok () r \<and>
          (\<forall>i. i \<notin> log_area (log_start s) \<longrightarrow>
             disk r i = (if k \<le> nat (lh_n s) then disk s i else content ROOTDEV i s))))"
  using commit_ok [OF assms(1)] crash_recovers [OF assms] by blast

text \<open>A booted machine with an empty file system, and one whose transaction has filled
  block 50 in the cache.\<close>

definition demo_boot :: "(u32 \<Rightarrow> byte list) \<Rightarrow> lstate" where
  "demo_boot d = \<lparr>mem = mem boot_bstate, freelist = 0, kend = 0x80021000, etext = 0x80008000,
     trampoline = 0x80007000, procs = procs boot_bstate, cur = Some 0, nextpid = 2, initproc = Some 0,
     ticks = 0, forkret_pc = 0x80001000, bufs = bufs boot_bstate, lru = lru boot_bstate, disk = d, dwrites = [],
     log_start = 2, log_outstanding = 0, log_committing = False, log_dev = ROOTDEV, lh_n = 0,
     lh_block = replicate LOGBLOCKS 0\<rparr>"

definition demo_tx :: lstate where
  "demo_tx = (demo_boot (\<lambda>_. replicate BSIZE 0))
     \<lparr>bufs := empty_buf\<lparr>b_dev := ROOTDEV, b_blockno := 50, b_valid := True, b_refcnt := 1,
                        b_data := replicate BSIZE 7\<rparr> # replicate 29 empty_buf,
      lh_n := 1, lh_block := 50 # replicate 29 0\<rparr>"

lemma demo_bufs: "bufs boot_bstate = replicate NBUF empty_buf" "lru boot_bstate = rev [0..<NBUF]"
  "procs boot_bstate = idle_proc\<lparr>p_state := RUNNING, p_pid := 1\<rparr> # replicate 63 idle_proc"
  by (simp_all add: boot_bstate_def binit_def empty_buf_def fold_Cons_rev)

lemma demo_boot_booted: "(\<And>b. length (d b) = BSIZE) \<Longrightarrow> booted d (demo_boot d)"
  by (auto simp: booted_def calm_def bcache_inv_def demo_boot_def demo_bufs cur_ok_def buf_ok_def empty_buf_def
      free_buf_def base_refs_def initsleeplock_def atLeast0LessThan)

lemma demo_area: "(50 :: u32) \<notin> log_area 2"
proof
  assume "(50 :: u32) \<in> log_area 2"
  then obtain t where t: "t \<le> LOGBLOCKS" "(50 :: u32) = 2 + of_nat t" by (auto simp: log_area_def)
  then have "(of_nat t :: u32) = 48" by (simp add: algebra_simps)
  then have "t = 48" using t(1) unat_of_nat_small [of t, where 'a = 32] by simp
  with t(1) show False by simp
qed

lemma demo_tx_committable: "committable demo_tx"
proof -
  have lt: "j < NBUF \<Longrightarrow> j = 0 \<or> (\<exists>k<29. j = Suc k)" for j by (cases j) auto
  have at: "bufs demo_tx ! 0 = empty_buf\<lparr>b_dev := ROOTDEV, b_blockno := 50, b_valid := True, b_refcnt := 1,
      b_data := replicate BSIZE 7\<rparr>" "j \<noteq> 0 \<Longrightarrow> j < NBUF \<Longrightarrow> bufs demo_tx ! j = empty_buf" for j
    by (auto simp: demo_tx_def dest: lt)
  have "bcache_inv demo_tx"
    unfolding bcache_inv_def
  proof (intro conjI allI impI)
    show "buf_ok (disk demo_tx) (bufs demo_tx ! i)" if "i < NBUF" for i
      using at that by (cases "i = 0") (auto simp: buf_ok_def empty_buf_def initsleeplock_def)
    show "i = j" if "i < NBUF" "j < NBUF" "b_dev (bufs demo_tx ! i) \<noteq> 0" "same_block (bufs demo_tx ! i) (bufs demo_tx ! j)"
      for i j
      using at that by (cases "i = 0"; cases "j = 0") (auto simp: same_block_def empty_buf_def)
  qed (auto simp: demo_tx_def demo_boot_def demo_bufs)
  moreover have "free_buf ROOTDEV {50} (bufs demo_tx ! i)" if "i < NBUF" for i
    using at that by (cases "i = 0") (auto simp: free_buf_def base_refs_def empty_buf_def initsleeplock_def)
  moreover have "caches ROOTDEV 50 demo_tx 0" using at by (simp add: caches_def)
  moreover have "cur_ok demo_tx" by (simp add: cur_ok_def demo_tx_def demo_boot_def demo_bufs)
  ultimately have "calm ROOTDEV demo_tx {50} {}" by (auto simp: calm_def intro!: exI [of _ 0])
  then show ?thesis using demo_area by (simp add: committable_def demo_tx_def demo_boot_def)
qed

theorem log_commit_crash_atomic_witness:
  "committable demo_tx \<and> (\<exists>s'. commit demo_tx = Ok () s') \<and>
   (\<exists>r. initlog ROOTDEV 2 (demo_boot (apply_writes (take 1 (tx_writes demo_tx)) (disk demo_tx))) = Ok () r \<and>
        disk r 50 = replicate BSIZE 0) \<and>
   (\<exists>r. initlog ROOTDEV 2 (demo_boot (apply_writes (take 2 (tx_writes demo_tx)) (disk demo_tx))) = Ok () r \<and>
        disk r 50 = replicate BSIZE 7)"
proof -
  have z: "get_head_n (disk demo_tx (log_start demo_tx)) = 0"
    by (simp add: demo_tx_def demo_boot_def get_head_n_def numeral_eq_Suc)
  note t = log_commit_crash_atomic [OF demo_tx_committable z]
  have f: "log_start demo_tx = 2" "nat (lh_n demo_tx) = 1" "disk demo_tx 50 = replicate BSIZE 0"
    by (simp_all add: demo_tx_def demo_boot_def)
  have inv: "bcache_inv demo_tx"
    using demo_tx_committable by (auto simp: committable_def dest: calmD)
  have c: "content ROOTDEV 50 demo_tx = replicate BSIZE 7"
    using content_cached [OF inv, of ROOTDEV 0 50] by (simp add: caches_def demo_tx_def demo_boot_def)
  have len: "length (x) = BSIZE" if "(b, x) \<in> set (tx_writes demo_tx)" for b x
    using that c f by (auto simp: tx_writes_def Let_def demo_tx_def demo_boot_def put_head_def)
  have "booted (apply_writes (take k (tx_writes demo_tx)) (disk demo_tx))
      (demo_boot (apply_writes (take k (tx_writes demo_tx)) (disk demo_tx)))" for k
    using bcache_invD(6) [OF inv] len by (intro demo_boot_booted apply_writes_length) (auto dest: in_set_takeD)
  moreover have "2 \<le> length (tx_writes demo_tx)" by (simp add: tx_writes_def Let_def)
  ultimately have "\<exists>r. initlog ROOTDEV 2 (demo_boot (apply_writes (take k (tx_writes demo_tx)) (disk demo_tx))) = Ok () r \<and>
       disk r 50 = (if k \<le> 1 then replicate BSIZE 0 else replicate BSIZE 7)" if "k \<le> 2" for k
    using t that demo_area unfolding f(1,2) c [symmetric] f(3) [symmetric] by (metis (no_types, lifting) order_trans)
  from this [of 1] this [of 2] show ?thesis using t demo_tx_committable by auto
qed

section \<open>Log space\<close>

lemma bwrite_frame: "bwrite i s = Ok u s' \<Longrightarrow> bframe s s'"
proof -
  assume "bwrite i s = Ok u s'"
  then have "s' = disk_rw i True s" by (simp add: bwrite_def split: if_splits)
  then have "s' = s\<lparr>procs := procs s, bufs := bufs s, lru := lru s, disk := disk s', dwrites := dwrites s'\<rparr>"
    by (simp add: disk_rw_def Let_def)
  then show ?thesis unfolding bframe_def by blast
qed

lemma brelse_frame:
  assumes "brelse i s = Ok u s'"
  shows "bframe s s'"
proof -
  have "holdingsleep (buf_lock i) s" using assms by (simp add: brelse_def split: if_splits)
  from brelse_Ok [OF this] assms show ?thesis
    by (auto simp: Let_def intro!: bframe_lru bframe_trans [OF wakeup_bfields(5) bframe_upd_buf] split: if_splits)
qed

lemmas cache_frames = bread_frame bwrite_frame brelse_frame

lemma bframe_after: "bframe (set_data i x s) t \<Longrightarrow> bframe s t" "bframe (bunpin i s) t \<Longrightarrow> bframe s t"
  unfolding set_data_def bunpin_def by (blast intro: bframe_trans [OF bframe_upd_buf])+

lemma write_log_one_frame: "write_log_one t s = Ok u s' \<Longrightarrow> bframe s s'"
  by (auto simp: write_log_one_def andthen_eq_Ok dest!: cache_frames bframe_after) (meson bframe_trans)+

lemma install_one_frame: "install_one r t s = Ok u s' \<Longrightarrow> bframe s s'"
  by (auto simp: install_one_def andthen_eq_Ok dest!: cache_frames bframe_after split: if_splits) (meson bframe_trans)+

lemma write_head_frame: "write_head s = Ok u s' \<Longrightarrow> bframe s s'"
  by (auto simp: write_head_def andthen_eq_Ok Let_def dest!: cache_frames bframe_after split: if_splits)
    (meson bframe_trans)

lemma write_log_loop_frame: "write_log_loop k t s = Ok u s' \<Longrightarrow> bframe s s'"
  by (induction k arbitrary: t s) (auto simp: andthen_eq_Ok dest!: write_log_one_frame intro: bframe_trans)

lemma install_loop_frame: "install_loop r k t s = Ok u s' \<Longrightarrow> bframe s s'"
  by (induction k arbitrary: t s) (auto simp: andthen_eq_Ok dest!: install_one_frame intro: bframe_trans)

lemma bframe_lh:
  assumes "bframe s t"
  shows "bframe (s\<lparr>lh_n := n\<rparr>) (t\<lparr>lh_n := n\<rparr>)"
proof -
  obtain pr bs l d w where "t = s\<lparr>procs := pr, bufs := bs, lru := l, disk := d, dwrites := w\<rparr>"
    using assms unfolding bframe_def by blast
  then have "t\<lparr>lh_n := n\<rparr> = (s\<lparr>lh_n := n\<rparr>)\<lparr>procs := pr, bufs := bs, lru := l, disk := d, dwrites := w\<rparr>" by simp
  then show ?thesis unfolding bframe_def by blast
qed

lemma commit_frame:
  assumes "commit s = Ok u s'"
  shows "lh_n s' = min 0 (lh_n s)" and "log_outstanding s' = log_outstanding s"
    and "log_committing s' = log_committing s" and "length (lh_block s') = length (lh_block s)"
proof -
  have "bframe (s\<lparr>lh_n := 0\<rparr>) s'" if "lh_n s > 0"
  proof -
    from assms that obtain s1 s2 s3 where
      "write_log s = Ok () s1" "write_head s1 = Ok () s2" "install_trans False s2 = Ok () s3"
      and w: "write_head (s3\<lparr>lh_n := 0\<rparr>) = Ok u s'"
      by (auto simp: commit_def andthen_eq_Ok)
    then have "bframe s s3"
      unfolding write_log_def install_trans_def
      by (blast dest: write_log_loop_frame write_head_frame install_loop_frame intro: bframe_trans)
    then have "bframe (s\<lparr>lh_n := 0\<rparr>) (s3\<lparr>lh_n := 0\<rparr>)" by (rule bframe_lh)
    then show ?thesis using write_head_frame [OF w] by (rule bframe_trans)
  qed
  then show "lh_n s' = min 0 (lh_n s)" "log_outstanding s' = log_outstanding s"
    "log_committing s' = log_committing s" "length (lh_block s') = length (lh_block s)"
    using assms by (cases "lh_n s > 0"; auto simp: commit_def bframe_log)+
qed

text \<open>
  Runs of the log: \<open>log_run s us\<close> says that \<open>s\<close> is reached from an idle log by calls of the
  log's operations and by code that does not touch the log's fields, where \<open>us\<close> lists for
  each open operation the set of the blocks it has written. File system operations are
  written to change at most \<open>MAXOPBLOCKS\<close> blocks, each of them any number of times.
\<close>

inductive log_run :: "lstate \<Rightarrow> u32 set list \<Rightarrow> bool" where
  idle: "lh_n s = 0 \<Longrightarrow> log_outstanding s = 0 \<Longrightarrow> \<not> log_committing s \<Longrightarrow>
    length (lh_block s) = LOGBLOCKS \<Longrightarrow> log_run s []"
| begins: "log_run s us \<Longrightarrow> begin_op s = Ok () s' \<Longrightarrow> log_run s' ({} # us)"
| writes: "log_run s us \<Longrightarrow> i < length us \<Longrightarrow>
    b_blockno (bufs s ! b) \<in> us ! i \<or> card (us ! i) < nat MAXOPBLOCKS \<Longrightarrow> log_write b s = Ok () s' \<Longrightarrow>
    log_run s' (us[i := insert (b_blockno (bufs s ! b)) (us ! i)])"
| ends: "log_run s (us @ u # vs) \<Longrightarrow> end_op s = Ok () s' \<Longrightarrow> log_run s' (us @ vs)"
| other: "log_run s us \<Longrightarrow> lh_n s' = lh_n s \<Longrightarrow> lh_block s' = lh_block s \<Longrightarrow>
    log_outstanding s' = log_outstanding s \<Longrightarrow> log_committing s' = log_committing s \<Longrightarrow> log_run s' us"

definition logged :: "'z lstate_scheme \<Rightarrow> u32 list" where
  "logged s = take (nat (lh_n s)) (lh_block s)"

definition budget_left :: "u32 set list \<Rightarrow> int" where
  "budget_left us = (\<Sum>u\<leftarrow>us. MAXOPBLOCKS - int (card u))"

definition log_space :: "lstate \<Rightarrow> u32 set list \<Rightarrow> bool" where
  "log_space s us \<longleftrightarrow> \<not> log_committing s \<and> log_outstanding s = int (length us) \<and>
     (\<forall>u\<in>set us. int (card u) \<le> MAXOPBLOCKS \<and> u \<subseteq> set (logged s)) \<and> distinct (logged s) \<and>
     0 \<le> lh_n s \<and> lh_n s + budget_left us \<le> int LOGBLOCKS \<and> length (lh_block s) = LOGBLOCKS"

lemma budget_left_bounds:
  "\<forall>u\<in>set us. int (card u) \<le> MAXOPBLOCKS \<Longrightarrow> 0 \<le> budget_left us \<and> budget_left us \<le> MAXOPBLOCKS * int (length us)"
  by (induction us) (auto simp: budget_left_def)

lemma budget_left_update:
  "i < length us \<Longrightarrow> budget_left (us[i := u]) = budget_left us + int (card (us ! i)) - int (card u)"
proof (induction us arbitrary: i)
  case (Cons v us)
  then show ?case by (cases i) (auto simp: budget_left_def)
qed simp

lemma budget_left_pos:
  assumes "\<forall>u\<in>set us. int (card u) \<le> MAXOPBLOCKS" and "i < length us" and "card (us ! i) < nat MAXOPBLOCKS"
  shows "1 \<le> budget_left us"
proof -
  have "budget_left us = (\<Sum>u\<leftarrow>take i us. MAXOPBLOCKS - int (card u)) + (MAXOPBLOCKS - int (card (us ! i))) +
      (\<Sum>u\<leftarrow>drop (Suc i) us. MAXOPBLOCKS - int (card u))"
    unfolding budget_left_def using assms(2) by (subst id_take_nth_drop [of i us]) simp_all
  moreover have "0 \<le> (\<Sum>u\<leftarrow>take i us. MAXOPBLOCKS - int (card u))" "0 \<le> (\<Sum>u\<leftarrow>drop (Suc i) us. MAXOPBLOCKS - int (card u))"
    using assms(1) by (auto intro!: sum_list_nonneg dest!: in_set_takeD in_set_dropD)
  ultimately show ?thesis using assms(3) by simp
qed

lemma wakeup_log [simp]:
  "lh_n (wakeup c s) = lh_n s" "lh_block (wakeup c s) = lh_block s"
  "log_outstanding (wakeup c s) = log_outstanding s" "log_committing (wakeup c s) = log_committing s"
  by (simp_all add: wakeup_def)

text \<open>A block that is in the log already is absorbed, any other takes the next slot.\<close>

lemma log_write_logged:
  assumes "lh_n s < int LOGBLOCKS" and "1 \<le> log_outstanding s" and "0 \<le> lh_n s" and "length (lh_block s) = LOGBLOCKS"
  shows "\<exists>s'. log_write b s = Ok () s' \<and>
    lh_n s' = (if b_blockno (bufs s ! b) \<in> set (logged s) then lh_n s else lh_n s + 1) \<and>
    logged s' = (if b_blockno (bufs s ! b) \<in> set (logged s) then logged s else logged s @ [b_blockno (bufs s ! b)]) \<and>
    length (lh_block s') = length (lh_block s) \<and> log_outstanding s' = log_outstanding s \<and>
    log_committing s' = log_committing s \<and> map b_blockno (bufs s') = map b_blockno (bufs s)"
proof -
  let ?b = "b_blockno (bufs s ! b)" and ?n = "nat (lh_n s)"
  have n: "?n < length (lh_block s)" using assms(1,4) by simp
  show ?thesis
  proof (cases "find_idx (\<lambda>x. x = ?b) (take ?n (lh_block s))")
    case None
    then have "?b \<notin> set (logged s)" using find_from_None_iff [of "\<lambda>x. x = ?b" 0] by (auto simp: logged_def)
    moreover have "take (nat (lh_n s + 1)) ((lh_block s)[?n := ?b]) = take ?n (lh_block s) @ [?b]"
      using n assms(3) by (simp add: nat_add_distrib take_Suc_conv_app_nth)
    moreover have "log_write b s = Ok () (bpin b (s\<lparr>lh_block := (lh_block s)[?n := ?b]\<rparr>)\<lparr>lh_n := lh_n s + 1\<rparr>)"
      using None assms(1,2) by (simp add: log_write_def Let_def)
    moreover have "map b_blockno (list_modify b (\<lambda>b. b\<lparr>b_refcnt := b_refcnt b + 1\<rparr>) (bufs s)) = map b_blockno (bufs s)"
      by (rule nth_equalityI) (simp_all add: nth_list_modify)
    ultimately show ?thesis
      by (simp add: bpin_def upd_buf_def logged_def)
  next
    case (Some i)
    then have b: "i < ?n" "lh_block s ! i = ?b" using find_idx_SomeD [OF Some] by simp_all
    have "lh_block s ! i \<in> set (take ?n (lh_block s))" using b(1) n by (metis in_set_conv_nth length_take min.absorb4 nth_take)
    then have "?b \<in> set (logged s)" by (simp add: logged_def b(2))
    moreover have "(lh_block s)[i := ?b] = lh_block s" using b by (metis list_update_id)
    ultimately show ?thesis using Some b assms(1,2)
      by (simp add: log_write_def Let_def)
  qed
qed

lemma log_run_space: "log_run s us \<Longrightarrow> log_space s us"
proof (induction rule: log_run.induct)
  case (idle s)
  then show ?case by (simp add: log_space_def budget_left_def logged_def)
next
  case (begins s us s')
  then have "lh_n s + (log_outstanding s + 1) * MAXOPBLOCKS \<le> int LOGBLOCKS"
    "s' = s\<lparr>log_outstanding := log_outstanding s + 1\<rparr>"
    by (auto simp: begin_op_def sleep_def split: if_splits)
  with begins budget_left_bounds [of us] show ?case
    by (auto simp: log_space_def budget_left_def logged_def)
next
  case (writes s us i b s')
  let ?b = "b_blockno (bufs s ! b)"
  from writes have sp: "log_space s us" by simp
  have "1 \<le> log_outstanding s" using sp writes(2) by (cases us) (auto simp: log_space_def)
  moreover have "lh_n s < int LOGBLOCKS" using writes(4) by (auto simp: log_write_def split: if_splits)
  ultimately have w: "lh_n s' = (if ?b \<in> set (logged s) then lh_n s else lh_n s + 1)"
    "logged s' = (if ?b \<in> set (logged s) then logged s else logged s @ [?b])"
    "length (lh_block s') = LOGBLOCKS" "log_outstanding s' = log_outstanding s" "\<not> log_committing s'"
    using log_write_logged [of s b] sp writes(4) by (auto simp: log_space_def)
  have ui: "us ! i \<in> set us" using writes(2) by simp
  have new: "lh_n s' - lh_n s \<le> int (card (insert ?b (us ! i))) - int (card (us ! i))"
    using sp ui w(1) by (auto simp: log_space_def card_insert_if)
  have card: "int (card (insert ?b (us ! i))) \<le> MAXOPBLOCKS"
    using writes(3) sp ui by (auto simp: log_space_def card_insert_if)
  have "u \<subseteq> set (logged s')" if "u \<in> set (us[i := insert ?b (us ! i)])" for u
    using that sp ui w(2) by (auto simp: log_space_def dest!: set_update_subset_insert [THEN subsetD] split: if_splits)
  moreover have "\<forall>u\<in>set (us[i := insert ?b (us ! i)]). int (card u) \<le> MAXOPBLOCKS"
    using sp card by (auto simp: log_space_def dest!: set_update_subset_insert [THEN subsetD])
  ultimately show ?case
    using sp w new budget_left_update [OF writes(2), of "insert ?b (us ! i)"]
    by (auto simp: log_space_def)
next
  case (ends s us u vs s')
  then have sp: "log_space s (us @ u # vs)" by simp
  show ?case
  proof (cases "log_outstanding s = 1")
    case True
    then have "int (length us) + int (length vs) = 0" using sp by (simp add: log_space_def)
    then have "length us = 0" "length vs = 0" by linarith+
    then have e: "us @ vs = []" by simp
    from ends(2) True sp obtain s1 where
      "commit (s\<lparr>log_outstanding := 0, log_committing := True\<rparr>) = Ok () s1"
      "s' = wakeup ChLog (s1\<lparr>log_committing := False\<rparr>)"
      by (auto simp: end_op_def Let_def andthen_eq_Ok log_space_def)
    with commit_frame [OF this(1)] sp e show ?thesis by (simp add: log_space_def budget_left_def logged_def)
  next
    case False
    then have "s' = wakeup ChLog (s\<lparr>log_outstanding := log_outstanding s - 1\<rparr>)"
      using ends(2) sp by (auto simp: end_op_def Let_def log_space_def)
    then show ?thesis using sp by (auto simp: log_space_def budget_left_def logged_def)
  qed
next
  case (other s us s')
  then show ?case by (simp add: log_space_def logged_def)
qed

text \<open>C2: The log never overflows. In every run in which each operation between \<open>begin_op\<close> and
  \<open>end_op\<close> changes at most \<open>MAXOPBLOCKS\<close> distinct blocks, each any number of times, the header holds at most \<open>LOGBLOCKS\<close>
  blocks, every block written by an open operation exactly once; an open operation that has
  not used up its blocks can write one more; and the counter of outstanding operations is exact, so \<open>end_op\<close>
  starts a commit exactly when the last open operation ends. Writing again a block that an open operation has
  written is absorbed and returns as long as the log is not exactly full; with a full log it panics, although it needs
  no slot.\<close>
theorem log_space_suffices:
  assumes "log_run s us"
  shows "0 \<le> lh_n s \<and> lh_n s \<le> int LOGBLOCKS \<and> log_outstanding s = int (length us) \<and> \<not> log_committing s \<and>
    distinct (take (nat (lh_n s)) (lh_block s)) \<and> (\<forall>u\<in>set us. u \<subseteq> set (take (nat (lh_n s)) (lh_block s))) \<and>
    (\<forall>i b. i < length us \<and> card (us ! i) < nat MAXOPBLOCKS \<longrightarrow> (\<exists>s'. log_write b s = Ok () s')) \<and>
    (\<forall>i b. i < length us \<and> b_blockno (bufs s ! b) \<in> us ! i \<longrightarrow>
       (if lh_n s < int LOGBLOCKS then \<exists>s'. log_write b s = Ok () s' \<and> lh_n s' = lh_n s
        else log_write b s = Panic ''too big a transaction''))"
proof -
  have sp: "log_space s us" by (rule log_run_space [OF assms])
  have out: "1 \<le> log_outstanding s" if "i < length us" for i using sp that by (cases us) (auto simp: log_space_def)
  have "\<exists>s'. log_write b s = Ok () s'" if i: "i < length us" "card (us ! i) < nat MAXOPBLOCKS" for i b
  proof -
    have "1 \<le> budget_left us" using budget_left_pos [OF _ i] sp by (simp add: log_space_def)
    then show ?thesis using log_write_logged [of s b] sp out [OF i(1)] by (auto simp: log_space_def)
  qed
  moreover have "if lh_n s < int LOGBLOCKS then \<exists>s'. log_write b s = Ok () s' \<and> lh_n s' = lh_n s
        else log_write b s = Panic ''too big a transaction''"
    if i: "i < length us" "b_blockno (bufs s ! b) \<in> us ! i" for i b
  proof -
    have "b_blockno (bufs s ! b) \<in> set (logged s)" using i sp nth_mem [OF i(1)] by (auto simp: log_space_def)
    then show ?thesis using log_write_logged [of s b] sp out [OF i(1)] by (auto simp: log_space_def log_write_def)
  qed
  ultimately show ?thesis using sp budget_left_bounds [of us] by (auto simp: log_space_def logged_def)
qed

theorem log_space_suffices_witness:
  "log_run ((demo_boot (\<lambda>_. replicate BSIZE 0))\<lparr>log_outstanding := 1\<rparr>) [{}] \<and>
   (\<exists>s'. log_write 0 ((demo_boot (\<lambda>_. replicate BSIZE 0))\<lparr>log_outstanding := 1\<rparr>) = Ok () s')"
proof -
  let ?s = "demo_boot (\<lambda>_. replicate BSIZE 0)"
  have "log_run ?s []" by (rule log_run.idle) (simp_all add: demo_boot_def)
  moreover have "begin_op ?s = Ok () (?s\<lparr>log_outstanding := 1\<rparr>)" by (simp add: begin_op_def demo_boot_def)
  ultimately have "log_run (?s\<lparr>log_outstanding := 1\<rparr>) [{}]" by (rule log_run.begins)
  with log_space_suffices [OF this] show ?thesis by auto
qed

lemma log_run_write_new:
  assumes "log_run s us" and "i < length us" and "card (us ! i) < nat MAXOPBLOCKS" and "b_blockno (bufs s ! b) \<notin> set (logged s)"
  shows "\<exists>s'. log_run s' (us[i := insert (b_blockno (bufs s ! b)) (us ! i)]) \<and> lh_n s' = lh_n s + 1 \<and>
    logged s' = logged s @ [b_blockno (bufs s ! b)] \<and> map b_blockno (bufs s') = map b_blockno (bufs s)"
proof -
  have sp: "log_space s us" by (rule log_run_space [OF assms(1)])
  then have "1 \<le> budget_left us" using budget_left_pos [OF _ assms(2,3)] by (simp add: log_space_def)
  moreover have "1 \<le> log_outstanding s" using sp assms(2) by (cases us) (auto simp: log_space_def)
  ultimately obtain s' where w: "log_write b s = Ok () s'" and r: "lh_n s' = lh_n s + 1"
    "logged s' = logged s @ [b_blockno (bufs s ! b)]" "map b_blockno (bufs s') = map b_blockno (bufs s)"
    using log_write_logged [of s b] sp assms(4) by (auto simp: log_space_def)
  with log_run.writes [OF assms(1,2) disjI2 w] assms(3) show ?thesis by blast
qed

lemma log_run_fill:
  assumes "log_run s us" and "i < length us" and "card (us ! i) + length bs \<le> nat MAXOPBLOCKS"
    and "\<forall>b\<in>set bs. b < length (bufs s)" and "distinct (logged s @ map (\<lambda>b. b_blockno (bufs s ! b)) bs)"
  shows "\<exists>s'. log_run s' (us[i := us ! i \<union> set (map (\<lambda>b. b_blockno (bufs s ! b)) bs)]) \<and>
    lh_n s' = lh_n s + int (length bs) \<and> logged s' = logged s @ map (\<lambda>b. b_blockno (bufs s ! b)) bs \<and>
    map b_blockno (bufs s') = map b_blockno (bufs s)"
  using assms
proof (induction bs arbitrary: s us)
  case Nil
  then show ?case by auto
next
  case (Cons b bs)
  let ?x = "b_blockno (bufs s ! b)"
  from log_run_write_new [of s us i b] Cons.prems obtain s1 where
    s1: "log_run s1 (us[i := insert ?x (us ! i)])" "lh_n s1 = lh_n s + 1" "logged s1 = logged s @ [?x]"
    "map b_blockno (bufs s1) = map b_blockno (bufs s)" by auto
  have len: "length (bufs s1) = length (bufs s)" using arg_cong [OF s1(4), of length] by simp
  have eq: "map (\<lambda>b. b_blockno (bufs s1 ! b)) bs = map (\<lambda>b. b_blockno (bufs s ! b)) bs"
    using Cons.prems(4) s1(4) len by (auto simp: map_eq_conv) (metis nth_map)
  have "card (insert ?x (us ! i)) \<le> card (us ! i) + 1" by (simp add: card_insert_if)
  then have "card (us[i := insert ?x (us ! i)] ! i) + length bs \<le> nat MAXOPBLOCKS"
    using Cons.prems(2,3) by simp
  from Cons.IH [OF s1(1) _ this] Cons.prems obtain s2 where
    "log_run s2 (us[i := insert ?x (us ! i), i := us[i := insert ?x (us ! i)] ! i \<union> set (map (\<lambda>b. b_blockno (bufs s1 ! b)) bs)])"
    "lh_n s2 = lh_n s1 + int (length bs)" "logged s2 = logged s1 @ map (\<lambda>b. b_blockno (bufs s1 ! b)) bs"
    "map b_blockno (bufs s2) = map b_blockno (bufs s1)"
    by (auto simp: eq s1(3) len)
  then show ?case using s1 eq Cons.prems(2) by (intro exI [of _ s2]) simp
qed

text \<open>A boot state whose cache holds the blocks 0 to 29.\<close>

definition demo_cached :: lstate where
  "demo_cached = (demo_boot (\<lambda>_. replicate BSIZE 0))
     \<lparr>bufs := map (\<lambda>i. empty_buf\<lparr>b_dev := ROOTDEV, b_blockno := of_nat i, b_valid := True\<rparr>) [0..<NBUF]\<rparr>"

lemma demo_cached_bufs:
  assumes "map b_blockno (bufs s) = map b_blockno (bufs demo_cached)"
  shows "length (bufs s) = NBUF" and "i < NBUF \<Longrightarrow> b_blockno (bufs s ! i) = of_nat i"
proof -
  show "length (bufs s) = NBUF" using arg_cong [OF assms, of length] by (simp add: demo_cached_def)
  then show "b_blockno (bufs s ! i) = of_nat i" if "i < NBUF"
    using arg_cong [OF assms, of "\<lambda>xs. xs ! i"] that by (simp add: demo_cached_def)
qed

lemma distinct_block_numbers: "distinct (map (of_nat :: nat \<Rightarrow> u32) [0..<30])"
  by code_simp

definition blocks :: "nat \<Rightarrow> u32 list" where
  "blocks j = map of_nat [0..<j]"

definition block_range :: "nat \<Rightarrow> u32 list" where
  "block_range j = map of_nat [j..<j + 10]"

lemma blocks_append: "blocks (j + 10) = blocks j @ block_range j"
  unfolding blocks_def block_range_def map_append [symmetric] by (rule arg_cong [OF upt_add_eq_append]) simp

lemma distinct_blocks:
  assumes "j \<le> 30" shows "distinct (blocks j)"
proof -
  have "blocks j = take j (map of_nat [0..<30])" unfolding blocks_def take_map using assms by (subst take_upt) (rule refl | simp only: add_0)+
  then show ?thesis using distinct_take [OF distinct_block_numbers] by metis
qed

lemma card_block_range: "j + 10 \<le> 30 \<Longrightarrow> card (set (block_range j)) = 10"
  using distinct_blocks [of "j + 10"] distinct_card [of "block_range j"] by (simp add: blocks_append block_range_def)

lemma demo_fill:
  assumes "log_run s us" and "i < length us" and "us ! i = {}" and "lh_n s = int j" and "logged s = blocks j"
    and "map b_blockno (bufs s) = map b_blockno (bufs demo_cached)" and "j + 10 \<le> 30"
  shows "\<exists>s'. log_run s' (us[i := set (block_range j)]) \<and> lh_n s' = int (j + 10) \<and>
    logged s' = blocks (j + 10) \<and> map b_blockno (bufs s') = map b_blockno (bufs demo_cached)"
proof -
  note b = demo_cached_bufs [OF assms(6)]
  have m: "map (\<lambda>b. b_blockno (bufs s ! b)) [j..<j + 10] = block_range j"
    unfolding block_range_def using assms(7) b(2) by (intro map_cong) auto
  have "\<exists>s'. log_run s' (us[i := us ! i \<union> set (map (\<lambda>b. b_blockno (bufs s ! b)) [j..<j + 10])]) \<and>
    lh_n s' = lh_n s + int (length [j..<j + 10]) \<and> logged s' = logged s @ map (\<lambda>b. b_blockno (bufs s ! b)) [j..<j + 10] \<and>
    map b_blockno (bufs s') = map b_blockno (bufs s)"
  proof (rule log_run_fill [OF assms(1,2)])
    show "\<forall>b\<in>set [j..<j + 10]. b < length (bufs s)" using assms(7) b(1) by auto
    show "distinct (logged s @ map (\<lambda>b. b_blockno (bufs s ! b)) [j..<j + 10])"
      using distinct_blocks [OF assms(7)] unfolding m assms(5) blocks_append .
    show "card (us ! i) + length [j..<j + 10] \<le> nat MAXOPBLOCKS" unfolding assms(3) length_upt by simp
  qed
  then show ?thesis unfolding m blocks_append assms(3-6) length_upt by simp
qed

text \<open>C0: Three operations can be admitted together and write ten blocks each, which fills the log
  exactly. An operation that then writes one of its own blocks again needs no slot, since the block would be
  absorbed, but \<open>log_write\<close> tests for a full log before it looks for the block and panics.\<close>
theorem log_full_rewrite_panics:
  "\<exists>s us b. log_run s us \<and> length us = 3 \<and> (\<forall>u\<in>set us. card u = 10) \<and> (\<exists>u\<in>set us. b_blockno (bufs s ! b) \<in> u) \<and>
     b_blockno (bufs s ! b) \<in> set (take (nat (lh_n s)) (lh_block s)) \<and> log_write b s = Panic ''too big a transaction''"
proof -
  let ?s = "\<lambda>n. demo_cached\<lparr>log_outstanding := n\<rparr>"
  have "log_run demo_cached []" by (rule log_run.idle) (simp_all add: demo_cached_def demo_boot_def)
  moreover have "begin_op demo_cached = Ok () (?s 1)" "begin_op (?s 1) = Ok () (?s 2)" "begin_op (?s 2) = Ok () (?s 3)"
    by (simp_all add: begin_op_def demo_cached_def demo_boot_def)
  ultimately have r0: "log_run (?s 3) [{}, {}, {}]" by (blast intro: log_run.begins)
  have l0: "lh_n (?s 3) = int 0" "logged (?s 3) = blocks 0" by (simp_all add: logged_def blocks_def demo_cached_def demo_boot_def)
  obtain s1 where s1: "log_run s1 [set (block_range 0), {}, {}]" "lh_n s1 = int 10" "logged s1 = blocks 10"
    "map b_blockno (bufs s1) = map b_blockno (bufs demo_cached)"
    using demo_fill [OF r0 _ _ l0, of 0] by auto
  obtain s2 where s2: "log_run s2 [set (block_range 0), set (block_range 10), {}]" "lh_n s2 = int 20" "logged s2 = blocks 20"
    "map b_blockno (bufs s2) = map b_blockno (bufs demo_cached)"
    using demo_fill [OF s1(1) _ _ s1(2-4), of 1] by auto
  obtain s3 where s3: "log_run s3 [set (block_range 0), set (block_range 10), set (block_range 20)]" "lh_n s3 = int 30"
    "logged s3 = blocks 30" "map b_blockno (bufs s3) = map b_blockno (bufs demo_cached)"
    using demo_fill [OF s2(1) _ _ s2(2-4), of 2] by auto
  have b0: "b_blockno (bufs s3 ! 0) = of_nat 0" using demo_cached_bufs(2) [OF s3(4), of 0] by simp
  have "log_write 0 s3 = Panic ''too big a transaction''" using s3(2) by (simp add: log_write_def)
  moreover have u: "b_blockno (bufs s3 ! 0) \<in> set (block_range 0)" unfolding b0 block_range_def set_map by (rule imageI) simp
  moreover have "b_blockno (bufs s3 ! 0) \<in> set (take (nat (lh_n s3)) (lh_block s3))"
    using u log_run_space [OF s3(1)] by (auto simp: log_space_def logged_def)
  ultimately show ?thesis using s3(1) card_block_range [of 0] card_block_range [of 10] card_block_range [of 20]
    by (intro exI [of _ s3] exI [of _ "[set (block_range 0), set (block_range 10), set (block_range 20)]"] exI [of _ 0]) simp
qed

end
