(* ===== verification/Vm.thy ===== *)
theory Vm
  imports Kstate
begin

text \<open>
  Sv39 page tables, \<open>kernel/vm.c\<close> and the macros of \<open>kernel/riscv.h\<close> and
  \<open>kernel/memlayout.h\<close>. A page table is a tree of pages in the machine's memory; the
  routines read and write its entries there. A routine that copies from a kernel buffer
  takes a view of the buffer, so that a length that runs past the buffer reads what lies
  behind it, as in the source. \<open>freewalk\<close> recurses on the contents of memory; its first argument bounds
  the depth, three for a tree that \<open>walk\<close> built. \<open>mappages\<close> counts its iterations, as
  many as there are pages in the range, and faults if the test \<open>a == last\<close> has not
  stopped it by then.
\<close>

abbreviation PTE_V :: u64 where "PTE_V \<equiv> 1"
abbreviation PTE_R :: u64 where "PTE_R \<equiv> 2"
abbreviation PTE_W :: u64 where "PTE_W \<equiv> 4"
abbreviation PTE_X :: u64 where "PTE_X \<equiv> 8"
abbreviation PTE_U :: u64 where "PTE_U \<equiv> 16"

definition PA2PTE :: "u64 \<Rightarrow> u64" where
  "PA2PTE pa = push_bit 10 (drop_bit 12 pa)"

definition PTE2PA :: "u64 \<Rightarrow> u64" where
  "PTE2PA pte = push_bit 12 (drop_bit 10 pte)"

definition PTE_FLAGS :: "u64 \<Rightarrow> u64" where
  "PTE_FLAGS pte = pte AND 0x3FF"

definition PX :: "nat \<Rightarrow> u64 \<Rightarrow> u64" where
  "PX level va = drop_bit (12 + 9 * level) va AND 0x1FF"

abbreviation MAXVA :: u64 where "MAXVA \<equiv> 0x4000000000"
abbreviation TRAMPOLINE :: u64 where "TRAMPOLINE \<equiv> MAXVA - PGSIZE"
abbreviation TRAPFRAME :: u64 where "TRAPFRAME \<equiv> TRAMPOLINE - PGSIZE"

definition KSTACK :: "nat \<Rightarrow> u64" where
  "KSTACK p = TRAMPOLINE - (of_nat p + 1) * 2 * PGSIZE"

section \<open>Walking and mapping\<close>

fun walk_from :: "nat \<Rightarrow> u64 \<Rightarrow> u64 \<Rightarrow> bool \<Rightarrow> 'z machine_scheme \<Rightarrow> (u64, 'z machine_scheme) res" where
  "walk_from 0 pagetable va alloc s = Ok (pagetable + 8 * PX 0 va) s"
| "walk_from (Suc l) pagetable va alloc s =
     (let pte = pagetable + 8 * PX (Suc l) va; v = load64 (mem s) pte
      in if v AND PTE_V \<noteq> 0 then walk_from l (PTE2PA v) va alloc s
         else if \<not> alloc then Ok 0 s
         else andthen (kalloc s) (\<lambda>pg s.
           if pg = 0 then Ok 0 s
           else let s = s\<lparr>mem := memset (mem s) pg 0 4096\<rparr>;
                    s = s\<lparr>mem := store64 (mem s) pte (PA2PTE pg OR PTE_V)\<rparr>
                in walk_from l pg va alloc s))"

definition walk :: "u64 \<Rightarrow> u64 \<Rightarrow> bool \<Rightarrow> 'z machine_scheme \<Rightarrow> (u64, 'z machine_scheme) res" where
  "walk pagetable va alloc s =
     (if va \<ge> MAXVA then Panic ''walk'' else walk_from 2 pagetable va alloc s)"

definition walkaddr :: "u64 \<Rightarrow> u64 \<Rightarrow> 'z machine_scheme \<Rightarrow> (u64, 'z machine_scheme) res" where
  "walkaddr pagetable va s =
     (if va \<ge> MAXVA then Ok 0 s
      else andthen (walk pagetable va False s) (\<lambda>pte s.
        if pte = 0 then Ok 0 s
        else let v = load64 (mem s) pte
             in if v AND PTE_V = 0 then Ok 0 s
                else if v AND PTE_U = 0 then Ok 0 s
                else Ok (PTE2PA v) s))"

fun mappages_loop ::
  "nat \<Rightarrow> u64 \<Rightarrow> u64 \<Rightarrow> u64 \<Rightarrow> u64 \<Rightarrow> u64 \<Rightarrow> 'z machine_scheme \<Rightarrow> (int, 'z machine_scheme) res" where
  "mappages_loop 0 pagetable a last_a pa perm s = Fault ''mappages: past the range''"
| "mappages_loop (Suc n) pagetable a last_a pa perm s =
     andthen (walk pagetable a True s) (\<lambda>pte s.
       if pte = 0 then Ok (- 1) s
       else if load64 (mem s) pte AND PTE_V \<noteq> 0 then Panic ''mappages: remap''
       else let s = s\<lparr>mem := store64 (mem s) pte (PA2PTE pa OR perm OR PTE_V)\<rparr>
            in if a = last_a then Ok 0 s
               else mappages_loop n pagetable (a + PGSIZE) last_a (pa + PGSIZE) perm s)"

definition mappages ::
  "u64 \<Rightarrow> u64 \<Rightarrow> u64 \<Rightarrow> u64 \<Rightarrow> u64 \<Rightarrow> 'z machine_scheme \<Rightarrow> (int, 'z machine_scheme) res" where
  "mappages pagetable va sz pa perm s =
     (if va mod PGSIZE \<noteq> 0 then Panic ''mappages: va not aligned''
      else if sz mod PGSIZE \<noteq> 0 then Panic ''mappages: size not aligned''
      else if sz = 0 then Panic ''mappages: size''
      else mappages_loop (unat sz div 4096) pagetable va (va + sz - PGSIZE) pa perm s)"

definition ismapped :: "u64 \<Rightarrow> u64 \<Rightarrow> 'z machine_scheme \<Rightarrow> (bool, 'z machine_scheme) res" where
  "ismapped pagetable va s =
     andthen (walk pagetable va False s) (\<lambda>pte s.
       if pte = 0 then Ok False s else Ok (load64 (mem s) pte AND PTE_V \<noteq> 0) s)"

definition uvmcreate :: "'z machine_scheme \<Rightarrow> (u64, 'z machine_scheme) res" where
  "uvmcreate s =
     andthen (kalloc s) (\<lambda>pagetable s.
       if pagetable = 0 then Ok 0 s
       else Ok pagetable (s\<lparr>mem := memset (mem s) pagetable 0 4096\<rparr>))"

section \<open>Kernel mappings\<close>

definition kvmmap ::
  "u64 \<Rightarrow> u64 \<Rightarrow> u64 \<Rightarrow> u64 \<Rightarrow> u64 \<Rightarrow> 'z machine_scheme \<Rightarrow> (unit, 'z machine_scheme) res" where
  "kvmmap kpgtbl va pa sz perm s =
     andthen (mappages kpgtbl va sz pa perm s) (\<lambda>r s.
       if r \<noteq> 0 then Panic ''kvmmap'' else Ok () s)"

fun proc_mapstacks_from :: "nat \<Rightarrow> nat \<Rightarrow> u64 \<Rightarrow> 'z machine_scheme \<Rightarrow> (unit, 'z machine_scheme) res" where
  "proc_mapstacks_from 0 p kpgtbl s = Ok () s"
| "proc_mapstacks_from (Suc n) p kpgtbl s =
     andthen (kalloc s) (\<lambda>pa s.
       if pa = 0 then Panic ''kalloc''
       else andthen (kvmmap kpgtbl (KSTACK p) pa PGSIZE (PTE_R OR PTE_W) s) (\<lambda>_ s.
         proc_mapstacks_from n (Suc p) kpgtbl s))"

definition proc_mapstacks :: "u64 \<Rightarrow> 'z machine_scheme \<Rightarrow> (unit, 'z machine_scheme) res" where
  "proc_mapstacks kpgtbl s = proc_mapstacks_from NPROC 0 kpgtbl s"

abbreviation UART0 :: u64 where "UART0 \<equiv> 0x10000000"
abbreviation VIRTIO0 :: u64 where "VIRTIO0 \<equiv> 0x10001000"
abbreviation PLIC :: u64 where "PLIC \<equiv> 0x0c000000"

definition kvmmake :: "'z machine_scheme \<Rightarrow> (u64, 'z machine_scheme) res" where
  "kvmmake s =
     andthen (kalloc s) (\<lambda>kpgtbl s.
     if kpgtbl = 0 then Fault ''kvmmake: memset of a null page''
     else let s = s\<lparr>mem := memset (mem s) kpgtbl 0 4096\<rparr> in
     andthen (kvmmap kpgtbl UART0 UART0 PGSIZE (PTE_R OR PTE_W) s) (\<lambda>_ s.
     andthen (kvmmap kpgtbl VIRTIO0 VIRTIO0 PGSIZE (PTE_R OR PTE_W) s) (\<lambda>_ s.
     andthen (kvmmap kpgtbl PLIC PLIC 0x4000000 (PTE_R OR PTE_W) s) (\<lambda>_ s.
     andthen (kvmmap kpgtbl KERNBASE KERNBASE (etext s - KERNBASE) (PTE_R OR PTE_X) s) (\<lambda>_ s.
     andthen (kvmmap kpgtbl (etext s) (etext s) (PHYSTOP - etext s) (PTE_R OR PTE_W) s) (\<lambda>_ s.
     andthen (kvmmap kpgtbl TRAMPOLINE (trampoline s) PGSIZE (PTE_R OR PTE_X) s) (\<lambda>_ s.
     andthen (proc_mapstacks kpgtbl s) (\<lambda>_ s. Ok kpgtbl s))))))))"

section \<open>User memory\<close>

lemma walk_Ok_MAXVA: "walk pagetable va alloc s = Ok p s' \<Longrightarrow> va < MAXVA"
  by (auto simp: walk_def split: if_splits)

lemma step_below_MAXVA:
  assumes "(a :: u64) < MAXVA"
  shows "18446744073709551616 - unat (a + PGSIZE) < 18446744073709551616 - unat a"
proof -
  have "unat a < 0x4000000000" using assms by (simp add: word_less_nat_alt)
  then have "unat (a + PGSIZE) = unat a + 4096"
    by (subst unat_add_small) auto
  then show ?thesis using \<open>unat a < 0x4000000000\<close> by simp
qed

function uvmunmap_loop ::
  "u64 \<Rightarrow> u64 \<Rightarrow> u64 \<Rightarrow> bool \<Rightarrow> 'z machine_scheme \<Rightarrow> (unit, 'z machine_scheme) res" where
  "uvmunmap_loop pagetable a end_a do_free s =
     (if a < end_a
      then andthen (walk pagetable a False s) (\<lambda>pte s.
        if pte = 0 then uvmunmap_loop pagetable (a + PGSIZE) end_a do_free s
        else if load64 (mem s) pte AND PTE_V = 0
        then uvmunmap_loop pagetable (a + PGSIZE) end_a do_free s
        else andthen (if do_free then kfree (PTE2PA (load64 (mem s) pte)) s else Ok () s) (\<lambda>_ s.
          let s = s\<lparr>mem := store64 (mem s) pte 0\<rparr>
          in uvmunmap_loop pagetable (a + PGSIZE) end_a do_free s))
      else Ok () s)"
  by pat_completeness auto
termination
  by (relation "measure (\<lambda>(_, a, _, _, _). 2 ^ 64 - unat a)")
    (auto dest!: walk_Ok_MAXVA intro: step_below_MAXVA)

declare uvmunmap_loop.simps [simp del]

definition uvmunmap ::
  "u64 \<Rightarrow> u64 \<Rightarrow> u64 \<Rightarrow> bool \<Rightarrow> 'z machine_scheme \<Rightarrow> (unit, 'z machine_scheme) res" where
  "uvmunmap pagetable va npages do_free s =
     (if va mod PGSIZE \<noteq> 0 then Panic ''uvmunmap: not aligned''
      else uvmunmap_loop pagetable va (va + npages * PGSIZE) do_free s)"

definition uvmdealloc ::
  "u64 \<Rightarrow> u64 \<Rightarrow> u64 \<Rightarrow> 'z machine_scheme \<Rightarrow> (u64, 'z machine_scheme) res" where
  "uvmdealloc pagetable oldsz newsz s =
     (if newsz \<ge> oldsz then Ok oldsz s
      else andthen
        (if PGROUNDUP newsz < PGROUNDUP oldsz
         then let npages = cint ((PGROUNDUP oldsz - PGROUNDUP newsz) div PGSIZE)
              in uvmunmap pagetable (PGROUNDUP newsz) (int_reg npages) True s
         else Ok () s)
        (\<lambda>_ s. Ok newsz s))"

lemma mappages_page_Ok_MAXVA:
  "mappages pagetable va PGSIZE pa perm s = Ok r s' \<Longrightarrow> va < MAXVA"
  by (auto simp: mappages_def res_simps split: if_splits dest!: walk_Ok_MAXVA)

function uvmalloc_loop ::
  "u64 \<Rightarrow> u64 \<Rightarrow> u64 \<Rightarrow> u64 \<Rightarrow> u64 \<Rightarrow> 'z machine_scheme \<Rightarrow> (u64, 'z machine_scheme) res" where
  "uvmalloc_loop pagetable a oldsz newsz xperm s =
     (if a < newsz
      then andthen (kalloc s) (\<lambda>mem0 s.
        if mem0 = 0
        then andthen (uvmdealloc pagetable a oldsz s) (\<lambda>_ s. Ok 0 s)
        else let s = s\<lparr>mem := memset (mem s) mem0 0 4096\<rparr>
             in andthen (mappages pagetable a PGSIZE mem0 (PTE_R OR PTE_U OR xperm) s) (\<lambda>r s.
               if r \<noteq> 0
               then andthen (kfree mem0 s) (\<lambda>_ s.
                    andthen (uvmdealloc pagetable a oldsz s) (\<lambda>_ s. Ok 0 s))
               else uvmalloc_loop pagetable (a + PGSIZE) oldsz newsz xperm s))
      else Ok newsz s)"
  by pat_completeness auto
termination
  by (relation "measure (\<lambda>(_, a, _, _, _, _). 2 ^ 64 - unat a)")
    (auto dest!: mappages_page_Ok_MAXVA intro: step_below_MAXVA)

declare uvmalloc_loop.simps [simp del]

definition uvmalloc ::
  "u64 \<Rightarrow> u64 \<Rightarrow> u64 \<Rightarrow> u64 \<Rightarrow> 'z machine_scheme \<Rightarrow> (u64, 'z machine_scheme) res" where
  "uvmalloc pagetable oldsz newsz xperm s =
     (if newsz < oldsz then Ok oldsz s
      else uvmalloc_loop pagetable (PGROUNDUP oldsz) (PGROUNDUP oldsz) newsz xperm s)"

function freewalk :: "nat \<Rightarrow> u64 \<Rightarrow> 'z machine_scheme \<Rightarrow> (unit, 'z machine_scheme) res"
  and freewalk_loop :: "nat \<Rightarrow> nat \<Rightarrow> u64 \<Rightarrow> 'z machine_scheme \<Rightarrow> (unit, 'z machine_scheme) res" where
  "freewalk 0 pagetable s = Fault ''freewalk: too deep''"
| "freewalk (Suc d) pagetable s =
     andthen (freewalk_loop d 512 pagetable s) (\<lambda>_ s. kfree pagetable s)"
| "freewalk_loop d 0 pagetable s = Ok () s"
| "freewalk_loop d (Suc n) pagetable s =
     (let at = pagetable + 8 * of_nat (512 - Suc n); pte = load64 (mem s) at
      in if pte AND PTE_V \<noteq> 0 \<and> pte AND (PTE_R OR PTE_W OR PTE_X) = 0
         then andthen (freewalk d (PTE2PA pte) s) (\<lambda>_ s.
           let s = s\<lparr>mem := store64 (mem s) at 0\<rparr> in freewalk_loop d n pagetable s)
         else if pte AND PTE_V \<noteq> 0 then Panic ''freewalk: leaf''
         else freewalk_loop d n pagetable s)"
  by pat_completeness auto
termination
  by (relation "measures [case_sum (\<lambda>(d, _, _). 2 * d) (\<lambda>(d, n, _, _). 2 * d + 1),
      case_sum (\<lambda>_. 0) (\<lambda>(d, n, _, _). n)]") auto

definition uvmfree :: "u64 \<Rightarrow> u64 \<Rightarrow> 'z machine_scheme \<Rightarrow> (unit, 'z machine_scheme) res" where
  "uvmfree pagetable sz s =
     andthen (if sz > 0 then uvmunmap pagetable 0 (PGROUNDUP sz div PGSIZE) True s else Ok () s)
       (\<lambda>_ s. freewalk 3 pagetable s)"

function uvmcopy_loop ::
  "u64 \<Rightarrow> u64 \<Rightarrow> u64 \<Rightarrow> u64 \<Rightarrow> 'z machine_scheme \<Rightarrow> (int, 'z machine_scheme) res" where
  "uvmcopy_loop old new i sz s =
     (if i < sz
      then andthen (walk old i False s) (\<lambda>pte s.
        if pte = 0 then uvmcopy_loop old new (i + PGSIZE) sz s
        else if load64 (mem s) pte AND PTE_V = 0 then uvmcopy_loop old new (i + PGSIZE) sz s
        else let pa = PTE2PA (load64 (mem s) pte); flags = PTE_FLAGS (load64 (mem s) pte)
             in andthen (kalloc s) (\<lambda>mem0 s.
               if mem0 = 0
               then andthen (uvmunmap new 0 (i div PGSIZE) True s) (\<lambda>_ s. Ok (- 1) s)
               else let s = s\<lparr>mem := memmove (mem s) mem0 pa 4096\<rparr>
                    in andthen (mappages new i PGSIZE mem0 flags s) (\<lambda>r s.
                      if r \<noteq> 0
                      then andthen (kfree mem0 s) (\<lambda>_ s.
                           andthen (uvmunmap new 0 (i div PGSIZE) True s) (\<lambda>_ s. Ok (- 1) s))
                      else uvmcopy_loop old new (i + PGSIZE) sz s)))
      else Ok 0 s)"
  by pat_completeness auto
termination
  by (relation "measure (\<lambda>(_, _, i, _, _). 2 ^ 64 - unat i)")
    (auto dest!: walk_Ok_MAXVA intro: step_below_MAXVA)

declare uvmcopy_loop.simps [simp del]

definition uvmcopy :: "u64 \<Rightarrow> u64 \<Rightarrow> u64 \<Rightarrow> 'z machine_scheme \<Rightarrow> (int, 'z machine_scheme) res" where
  "uvmcopy old new sz s = uvmcopy_loop old new 0 sz s"

definition uvmclear :: "u64 \<Rightarrow> u64 \<Rightarrow> 'z machine_scheme \<Rightarrow> (unit, 'z machine_scheme) res" where
  "uvmclear pagetable va s =
     andthen (walk pagetable va False s) (\<lambda>pte s.
       if pte = 0 then Panic ''uvmclear''
       else Ok () (s\<lparr>mem := store64 (mem s) pte (load64 (mem s) pte AND NOT PTE_U)\<rparr>))"

definition vmfault ::
  "u64 \<Rightarrow> u64 \<Rightarrow> 'z pstate_scheme \<Rightarrow> (u64, 'z pstate_scheme) res" where
  "vmfault pagetable va s =
     (if va \<ge> p_sz (myproc s) then Ok 0 s
      else let va = PGROUNDDOWN va in
        andthen (ismapped pagetable va s) (\<lambda>mapped s.
        if mapped then Ok 0 s
        else andthen (kalloc s) (\<lambda>mem0 s.
          if mem0 = 0 then Ok 0 s
          else let s = s\<lparr>mem := memset (mem s) mem0 0 4096\<rparr>
               in andthen (mappages (p_pagetable (myproc s)) va PGSIZE mem0 (PTE_W OR PTE_U OR PTE_R) s) (\<lambda>r s.
                 if r \<noteq> 0 then andthen (kfree mem0 s) (\<lambda>_ s. Ok 0 s)
                 else Ok mem0 s))))"

section \<open>Copying between user and kernel\<close>

definition page_part :: "u64 \<Rightarrow> u64 \<Rightarrow> u64" where
  "page_part va len = (let n = PGSIZE - (va - PGROUNDDOWN va) in if n > len then len else n)"

lemma offset_in_page: "unat (va - PGROUNDDOWN va) = unat va mod 4096"
proof -
  have "PGROUNDDOWN va \<le> va"
    by (simp add: word_le_nat_alt unat_PGROUNDDOWN)
  then have "unat (va - PGROUNDDOWN va) = unat va - unat (PGROUNDDOWN va)"
    by (rule unat_sub)
  then show ?thesis
    by (simp add: unat_PGROUNDDOWN minus_mult_div_eq_mod)
qed

lemma unat_page_part: "unat (page_part va len) = min (unat len) (4096 - unat va mod 4096)"
proof -
  have "va - PGROUNDDOWN va \<le> PGSIZE"
    by (simp add: word_le_nat_alt offset_in_page)
  then have "unat (PGSIZE - (va - PGROUNDDOWN va)) = 4096 - unat va mod 4096"
    by (simp add: unat_sub offset_in_page)
  then show ?thesis
    by (auto simp: page_part_def Let_def word_less_nat_alt)
qed

lemma page_part_le: "page_part va len \<le> len"
  by (simp add: word_le_nat_alt unat_page_part)

lemma page_part_step: "0 < len \<Longrightarrow> unat (len - page_part va len) < unat len"
  by (simp add: unat_sub page_part_le unat_page_part word_less_nat_alt)

function copyout_loop ::
  "u64 \<Rightarrow> u64 \<Rightarrow> view \<Rightarrow> nat \<Rightarrow> u64 \<Rightarrow> 'z pstate_scheme \<Rightarrow> (int, 'z pstate_scheme) res" where
  "copyout_loop pagetable dstva src off len s =
     (if len > 0
      then let va0 = PGROUNDDOWN dstva in
        if va0 \<ge> MAXVA then Ok (- 1) s
        else andthen (walkaddr pagetable va0 s) (\<lambda>pa0 s.
             andthen (if pa0 = 0 then vmfault pagetable va0 s else Ok pa0 s) (\<lambda>pa0 s.
             if pa0 = 0 then Ok (- 1) s
             else andthen (walk pagetable va0 False s) (\<lambda>pte s.
               if pte = 0 then Fault ''copyout: null pte''
               else if load64 (mem s) pte AND PTE_W = 0 then Ok (- 1) s
               else let n = page_part dstva len;
                        s = s\<lparr>mem := mem_write (mem s) (pa0 + (dstva - va0))
                               (map (\<lambda>i. src (off + i)) [0..<unat n])\<rparr>
                    in copyout_loop pagetable (va0 + PGSIZE) src (off + unat n) (len - n) s)))
      else Ok 0 s)"
  by pat_completeness auto
termination
  by (relation "measure (\<lambda>(_, _, _, _, len, _). unat len)") (auto intro: page_part_step)

declare copyout_loop.simps [simp del]

definition copyout ::
  "u64 \<Rightarrow> u64 \<Rightarrow> view \<Rightarrow> u64 \<Rightarrow> 'z pstate_scheme \<Rightarrow> (int, 'z pstate_scheme) res" where
  "copyout pagetable dstva src len s = copyout_loop pagetable dstva src 0 len s"

function copyin_loop ::
  "u64 \<Rightarrow> byte list \<Rightarrow> u64 \<Rightarrow> u64 \<Rightarrow> 'z pstate_scheme \<Rightarrow> (int \<times> byte list, 'z pstate_scheme) res" where
  "copyin_loop pagetable dst srcva len s =
     (if len > 0
      then let va0 = PGROUNDDOWN srcva in
        andthen (walkaddr pagetable va0 s) (\<lambda>pa0 s.
        andthen (if pa0 = 0 then vmfault pagetable va0 s else Ok pa0 s) (\<lambda>pa0 s.
          if pa0 = 0 then Ok (- 1, dst) s
          else let n = page_part srcva len
               in copyin_loop pagetable (dst @ mem_read (mem s) (pa0 + (srcva - va0)) (unat n))
                    (va0 + PGSIZE) (len - n) s))
      else Ok (0, dst) s)"
  by pat_completeness auto
termination
  by (relation "measure (\<lambda>(_, _, _, len, _). unat len)") (auto intro: page_part_step)

declare copyin_loop.simps [simp del]

definition copyin ::
  "u64 \<Rightarrow> u64 \<Rightarrow> u64 \<Rightarrow> 'z pstate_scheme \<Rightarrow> (int \<times> byte list, 'z pstate_scheme) res" where
  "copyin pagetable srcva len s = copyin_loop pagetable [] srcva len s"

fun copystr_page :: "memory \<Rightarrow> u64 \<Rightarrow> nat \<Rightarrow> byte list \<times> bool" where
  "copystr_page m a 0 = ([], False)"
| "copystr_page m a (Suc n) =
     (if m a = 0 then ([0], True)
      else (case copystr_page m (a + 1) n of (bs, got_null) \<Rightarrow> (m a # bs, got_null)))"

function copyinstr_loop ::
  "u64 \<Rightarrow> byte list \<Rightarrow> u64 \<Rightarrow> u64 \<Rightarrow> 'z machine_scheme \<Rightarrow> (int \<times> byte list, 'z machine_scheme) res" where
  "copyinstr_loop pagetable dst srcva mx s =
     (if mx > 0
      then let va0 = PGROUNDDOWN srcva in
        andthen (walkaddr pagetable va0 s) (\<lambda>pa0 s.
          if pa0 = 0 then Ok (- 1, dst) s
          else let n = page_part srcva mx in
            (case copystr_page (mem s) (pa0 + (srcva - va0)) (unat n) of (bs, got_null) \<Rightarrow>
              if got_null then Ok (0, dst @ bs) s
              else copyinstr_loop pagetable (dst @ bs) (va0 + PGSIZE) (mx - n) s))
      else Ok (- 1, dst) s)"
  by pat_completeness auto
termination
  by (relation "measure (\<lambda>(_, _, _, mx, _). unat mx)") (auto intro: page_part_step)

declare copyinstr_loop.simps [simp del]

definition copyinstr ::
  "u64 \<Rightarrow> u64 \<Rightarrow> u64 \<Rightarrow> 'z machine_scheme \<Rightarrow> (int \<times> byte list, 'z machine_scheme) res" where
  "copyinstr pagetable srcva mx s = copyinstr_loop pagetable [] srcva mx s"

definition either_copyout ::
  "bool \<Rightarrow> u64 \<Rightarrow> view \<Rightarrow> u64 \<Rightarrow> 'z pstate_scheme \<Rightarrow> (int, 'z pstate_scheme) res" where
  "either_copyout user_dst dst src len s =
     (if user_dst then copyout (p_pagetable (myproc s)) dst src len s
      else Ok 0 (s\<lparr>mem := mem_write (mem s) dst (map src [0..<unat len])\<rparr>))"

definition either_copyin ::
  "bool \<Rightarrow> u64 \<Rightarrow> u64 \<Rightarrow> 'z pstate_scheme \<Rightarrow> (int \<times> byte list, 'z pstate_scheme) res" where
  "either_copyin user_src src len s =
     (if user_src then copyin (p_pagetable (myproc s)) src len s
      else Ok (0, mem_read (mem s) src (unat len)) s)"

end
