(* ===== verification/Fs.thy ===== *)
theory Fs
  imports Klog Vm
begin

text \<open>
  The file system, \<open>kernel/fs.c\<close> with the on-disk structures of \<open>kernel/fs.h\<close>: the block
  allocator, inodes, file contents, directories and path names. An in-memory inode is an
  index into \<open>itable\<close>; a null pointer is \<open>None\<close>. Structures inside a block are read and
  written through their byte layout. \<open>readi\<close> copies to user memory, to physical memory or to
  a local variable of its caller (\<open>rdst\<close>), and returns the bytes of the last kind; \<open>writei\<close>
  copies from user memory or from a local variable (\<open>wsrc\<close>). A C string is the list of its
  characters before the NUL. The console messages of \<open>balloc\<close>, \<open>ialloc\<close> and \<open>ireclaim\<close> are
  not modelled.
\<close>

section \<open>Structures\<close>

abbreviation NINODE :: nat where "NINODE \<equiv> 50"
abbreviation NDIRECT :: nat where "NDIRECT \<equiv> 12"
abbreviation NINDIRECT :: nat where "NINDIRECT \<equiv> 256"
abbreviation MAXFILE :: nat where "MAXFILE \<equiv> 268"
abbreviation IPB :: nat where "IPB \<equiv> 16"
abbreviation BPB :: nat where "BPB \<equiv> 8192"
abbreviation DIRSIZ :: nat where "DIRSIZ \<equiv> 14"
abbreviation ROOTINO :: u32 where "ROOTINO \<equiv> 1"
abbreviation FSMAGIC :: u32 where "FSMAGIC \<equiv> 0x10203040"
abbreviation T_DIR :: u16 where "T_DIR \<equiv> 1"
abbreviation T_FILE :: u16 where "T_FILE \<equiv> 2"
abbreviation T_DEVICE :: u16 where "T_DEVICE \<equiv> 3"

record superblock =
  sb_magic :: u32
  sb_size :: u32
  sb_nblocks :: u32
  sb_ninodes :: u32
  sb_nlog :: u32
  sb_logstart :: u32
  sb_inodestart :: u32
  sb_bmapstart :: u32

record dinode =
  d_type :: u16
  d_major :: u16
  d_minor :: u16
  d_nlink :: u16
  d_size :: u32
  d_addrs :: "u32 list"

record inode =
  i_dev :: u32
  i_inum :: u32
  i_ref :: int
  i_lock :: sleeplock
  i_valid :: bool
  i_type :: u16
  i_major :: u16
  i_minor :: u16
  i_nlink :: u16
  i_size :: u32
  i_addrs :: "u32 list"

record stat =
  st_dev :: u32
  st_ino :: u32
  st_type :: u16
  st_nlink :: u16
  st_size :: u64

record fstate = lstate +
  sb :: superblock
  itable :: "inode list"

definition IBLOCK :: "u32 \<Rightarrow> superblock \<Rightarrow> u32" where
  "IBLOCK i b = i div 16 + sb_inodestart b"

definition BBLOCK :: "u32 \<Rightarrow> superblock \<Rightarrow> u32" where
  "BBLOCK b sbk = b div 8192 + sb_bmapstart sbk"

definition bytes_at :: "nat \<Rightarrow> nat \<Rightarrow> byte list \<Rightarrow> byte list" where
  "bytes_at off n data = take n (drop off data)"

definition store_at :: "nat \<Rightarrow> byte list \<Rightarrow> byte list \<Rightarrow> byte list" where
  "store_at off new data = take off data @ new @ drop (off + length new) data"

definition get16 :: "byte list \<Rightarrow> nat \<Rightarrow> u16" where
  "get16 data off = of_le (bytes_at off 2 data)"

definition get32 :: "byte list \<Rightarrow> nat \<Rightarrow> u32" where
  "get32 data off = of_le (bytes_at off 4 data)"

definition dinode_bytes :: "dinode \<Rightarrow> byte list" where
  "dinode_bytes d = le_bytes 2 (d_type d) @ le_bytes 2 (d_major d) @ le_bytes 2 (d_minor d) @
     le_bytes 2 (d_nlink d) @ le_bytes 4 (d_size d) @ concat (map (le_bytes 4) (d_addrs d))"

definition get_dinode :: "byte list \<Rightarrow> nat \<Rightarrow> dinode" where
  "get_dinode data k =
     (let o0 = 64 * k
      in \<lparr>d_type = get16 data o0, d_major = get16 data (o0 + 2), d_minor = get16 data (o0 + 4),
          d_nlink = get16 data (o0 + 6), d_size = get32 data (o0 + 8),
          d_addrs = map (\<lambda>i. get32 data (o0 + 12 + 4 * i)) [0..<Suc NDIRECT]\<rparr>)"

definition put_dinode :: "nat \<Rightarrow> dinode \<Rightarrow> byte list \<Rightarrow> byte list" where
  "put_dinode k d data = store_at (64 * k) (dinode_bytes d) data"

definition upd_inode :: "nat \<Rightarrow> (inode \<Rightarrow> inode) \<Rightarrow> 'z fstate_scheme \<Rightarrow> 'z fstate_scheme" where
  "upd_inode i f s = s\<lparr>itable := list_modify i f (itable s)\<rparr>"

abbreviation ino_lock :: "nat \<Rightarrow> 'z fstate_scheme \<Rightarrow> sleeplock" where
  "ino_lock i s \<equiv> i_lock (itable s ! i)"

abbreviation upd_ino_lock :: "nat \<Rightarrow> (sleeplock \<Rightarrow> sleeplock) \<Rightarrow> 'z fstate_scheme \<Rightarrow> 'z fstate_scheme" where
  "upd_ino_lock i f s \<equiv> upd_inode i (\<lambda>ip. ip\<lparr>i_lock := f (i_lock ip)\<rparr>) s"

definition readsb :: "u32 \<Rightarrow> 'z fstate_scheme \<Rightarrow> (superblock, 'z fstate_scheme) res" where
  "readsb dev s =
     andthen (bread dev 1 s) (\<lambda>bp s.
       let d = b_data (bufs s ! bp);
           b = \<lparr>sb_magic = get32 d 0, sb_size = get32 d 4, sb_nblocks = get32 d 8, sb_ninodes = get32 d 12,
                sb_nlog = get32 d 16, sb_logstart = get32 d 20, sb_inodestart = get32 d 24,
                sb_bmapstart = get32 d 28\<rparr>
       in andthen (brelse bp s) (\<lambda>_ s. Ok b s))"

section \<open>Blocks\<close>

definition bzero :: "u32 \<Rightarrow> u32 \<Rightarrow> 'z fstate_scheme \<Rightarrow> (unit, 'z fstate_scheme) res" where
  "bzero dev bno s =
     andthen (bread dev bno s) (\<lambda>bp s.
     andthen (log_write bp (set_data bp (replicate BSIZE 0) s)) (\<lambda>_ s. brelse bp s))"

definition bit_set :: "byte list \<Rightarrow> nat \<Rightarrow> bool" where
  "bit_set data bi \<longleftrightarrow> data ! (bi div 8) AND push_bit (bi mod 8) 1 \<noteq> 0"

definition mark_bit :: "nat \<Rightarrow> byte list \<Rightarrow> byte list" where
  "mark_bit bi data = data[bi div 8 := data ! (bi div 8) OR push_bit (bi mod 8) 1]"

definition clear_bit :: "nat \<Rightarrow> byte list \<Rightarrow> byte list" where
  "clear_bit bi data = data[bi div 8 := data ! (bi div 8) AND NOT (push_bit (bi mod 8) 1)]"

function balloc_loop :: "nat \<Rightarrow> u32 \<Rightarrow> nat \<Rightarrow> 'z fstate_scheme \<Rightarrow> (u32, 'z fstate_scheme) res" where
  "balloc_loop sz dev b s =
     (if b < sz
      then andthen (bread dev (BBLOCK (of_nat b) (sb s)) s) (\<lambda>bp s.
        case find (\<lambda>bi. \<not> bit_set (b_data (bufs s ! bp)) bi) [0..<min BPB (sz - b)] of
          Some bi \<Rightarrow>
            andthen (log_write bp (set_data bp (mark_bit bi (b_data (bufs s ! bp))) s)) (\<lambda>_ s.
            andthen (brelse bp s) (\<lambda>_ s.
            andthen (bzero dev (of_nat (b + bi)) s) (\<lambda>_ s. Ok (of_nat (b + bi)) s)))
        | None \<Rightarrow> andthen (brelse bp s) (\<lambda>_ s. balloc_loop sz dev (b + BPB) s))
      else Ok 0 s)"
  by pat_completeness auto
termination
  by (relation "measure (\<lambda>(sz, _, b, _). sz - b)") auto

declare balloc_loop.simps [simp del]

definition balloc :: "u32 \<Rightarrow> 'z fstate_scheme \<Rightarrow> (u32, 'z fstate_scheme) res" where
  "balloc dev s = balloc_loop (unat (sb_size (sb s))) dev 0 s"

definition bfree :: "u32 \<Rightarrow> u32 \<Rightarrow> 'z fstate_scheme \<Rightarrow> (unit, 'z fstate_scheme) res" where
  "bfree dev b s =
     andthen (bread dev (BBLOCK b (sb s)) s) (\<lambda>bp s.
       let bi = unat b mod BPB
       in if \<not> bit_set (b_data (bufs s ! bp)) bi then Panic ''freeing free block''
          else andthen (log_write bp (set_data bp (clear_bit bi (b_data (bufs s ! bp))) s)) (\<lambda>_ s. brelse bp s))"

section \<open>Inodes\<close>

definition iinit :: "'z fstate_scheme \<Rightarrow> 'z fstate_scheme" where
  "iinit s = s\<lparr>itable := map (\<lambda>ip. ip\<lparr>i_lock := initsleeplock\<rparr>) (itable s)\<rparr>"

definition iget :: "u32 \<Rightarrow> u32 \<Rightarrow> 'z fstate_scheme \<Rightarrow> (nat, 'z fstate_scheme) res" where
  "iget dev inum s =
     (case find_idx (\<lambda>ip. i_ref ip > 0 \<and> i_dev ip = dev \<and> i_inum ip = inum) (itable s) of
        Some i \<Rightarrow> Ok i (upd_inode i (\<lambda>ip. ip\<lparr>i_ref := i_ref ip + 1\<rparr>) s)
      | None \<Rightarrow>
          (case find_idx (\<lambda>ip. i_ref ip = 0) (itable s) of
             None \<Rightarrow> Panic ''iget: no inodes''
           | Some i \<Rightarrow>
               Ok i (upd_inode i (\<lambda>ip. ip\<lparr>i_dev := dev, i_inum := inum, i_ref := 1, i_valid := False\<rparr>) s)))"

definition idup :: "nat \<Rightarrow> 'z fstate_scheme \<Rightarrow> 'z fstate_scheme" where
  "idup i s = upd_inode i (\<lambda>ip. ip\<lparr>i_ref := i_ref ip + 1\<rparr>) s"

function ialloc_loop :: "nat \<Rightarrow> u32 \<Rightarrow> u16 \<Rightarrow> nat \<Rightarrow> 'z fstate_scheme \<Rightarrow> (nat option, 'z fstate_scheme) res" where
  "ialloc_loop ninodes dev type inum s =
     (if inum < ninodes
      then andthen (bread dev (IBLOCK (of_nat inum) (sb s)) s) (\<lambda>bp s.
        let data = b_data (bufs s ! bp)
        in if d_type (get_dinode data (inum mod IPB)) = 0
           then let d = \<lparr>d_type = type, d_major = 0, d_minor = 0, d_nlink = 0, d_size = 0,
                         d_addrs = replicate (Suc NDIRECT) 0\<rparr>
                in andthen (log_write bp (set_data bp (put_dinode (inum mod IPB) d data) s)) (\<lambda>_ s.
                   andthen (brelse bp s) (\<lambda>_ s.
                   andthen (iget dev (of_nat inum) s) (\<lambda>ip s. Ok (Some ip) s)))
           else andthen (brelse bp s) (\<lambda>_ s. ialloc_loop ninodes dev type (Suc inum) s))
      else Ok None s)"
  by pat_completeness auto
termination
  by (relation "measure (\<lambda>(ninodes, _, _, inum, _). ninodes - inum)") auto

declare ialloc_loop.simps [simp del]

definition ialloc :: "u32 \<Rightarrow> u16 \<Rightarrow> 'z fstate_scheme \<Rightarrow> (nat option, 'z fstate_scheme) res" where
  "ialloc dev type s = ialloc_loop (unat (sb_ninodes (sb s))) dev type 1 s"

definition dinode_of :: "inode \<Rightarrow> dinode" where
  "dinode_of ip = \<lparr>d_type = i_type ip, d_major = i_major ip, d_minor = i_minor ip, d_nlink = i_nlink ip,
     d_size = i_size ip, d_addrs = i_addrs ip\<rparr>"

definition iupdate :: "nat \<Rightarrow> 'z fstate_scheme \<Rightarrow> (unit, 'z fstate_scheme) res" where
  "iupdate i s =
     (let ip = itable s ! i in
      andthen (bread (i_dev ip) (IBLOCK (i_inum ip) (sb s)) s) (\<lambda>bp s.
      andthen (log_write bp (set_data bp (put_dinode (unat (i_inum ip) mod IPB) (dinode_of ip) (b_data (bufs s ! bp))) s))
        (\<lambda>_ s. brelse bp s)))"

definition ilock :: "nat \<Rightarrow> 'z fstate_scheme \<Rightarrow> (unit, 'z fstate_scheme) res" where
  "ilock i s =
     (if i_ref (itable s ! i) < 1 then Panic ''ilock''
      else andthen (acquiresleep (ino_lock i) (upd_ino_lock i) (ChInodeLock i) s) (\<lambda>_ s.
        if \<not> i_valid (itable s ! i)
        then let inum = i_inum (itable s ! i) in
          andthen (bread (i_dev (itable s ! i)) (IBLOCK inum (sb s)) s) (\<lambda>bp s.
          let d = get_dinode (b_data (bufs s ! bp)) (unat inum mod IPB);
              s = upd_inode i (\<lambda>ip. ip\<lparr>i_type := d_type d, i_major := d_major d, i_minor := d_minor d,
                                       i_nlink := d_nlink d, i_size := d_size d, i_addrs := d_addrs d\<rparr>) s
          in andthen (brelse bp s) (\<lambda>_ s.
             let s = upd_inode i (\<lambda>ip. ip\<lparr>i_valid := True\<rparr>) s
             in if i_type (itable s ! i) = 0 then Panic ''ilock: no type'' else Ok () s))
        else Ok () s))"

definition iunlock :: "nat \<Rightarrow> 'z fstate_scheme \<Rightarrow> (unit, 'z fstate_scheme) res" where
  "iunlock i s =
     (if \<not> holdingsleep (ino_lock i) s \<or> i_ref (itable s ! i) < 1 then Panic ''iunlock''
      else Ok () (releasesleep (upd_ino_lock i) (ChInodeLock i) s))"

fun itrunc_direct :: "nat \<Rightarrow> nat \<Rightarrow> nat \<Rightarrow> 'z fstate_scheme \<Rightarrow> (unit, 'z fstate_scheme) res" where
  "itrunc_direct 0 i ip s = Ok () s"
| "itrunc_direct (Suc k) i ip s =
     andthen
       (let addr = i_addrs (itable s ! ip) ! i
        in if addr \<noteq> 0
           then andthen (bfree (i_dev (itable s ! ip)) addr s) (\<lambda>_ s.
                Ok () (upd_inode ip (\<lambda>n. n\<lparr>i_addrs := (i_addrs n)[i := 0]\<rparr>) s))
           else Ok () s)
       (\<lambda>_ s. itrunc_direct k (Suc i) ip s)"

fun itrunc_indirect :: "u32 \<Rightarrow> u32 list \<Rightarrow> 'z fstate_scheme \<Rightarrow> (unit, 'z fstate_scheme) res" where
  "itrunc_indirect dev [] s = Ok () s"
| "itrunc_indirect dev (a # as) s =
     andthen (if a \<noteq> 0 then bfree dev a s else Ok () s) (\<lambda>_ s. itrunc_indirect dev as s)"

definition itrunc :: "nat \<Rightarrow> 'z fstate_scheme \<Rightarrow> (unit, 'z fstate_scheme) res" where
  "itrunc ip s =
     andthen (itrunc_direct NDIRECT 0 ip s) (\<lambda>_ s.
     andthen
       (let addr = i_addrs (itable s ! ip) ! NDIRECT; dev = i_dev (itable s ! ip)
        in if addr \<noteq> 0
           then andthen (bread dev addr s) (\<lambda>bp s.
                let a = map (\<lambda>j. get32 (b_data (bufs s ! bp)) (4 * j)) [0..<NINDIRECT]
                in andthen (itrunc_indirect dev a s) (\<lambda>_ s.
                   andthen (brelse bp s) (\<lambda>_ s.
                   andthen (bfree dev addr s) (\<lambda>_ s.
                   Ok () (upd_inode ip (\<lambda>n. n\<lparr>i_addrs := (i_addrs n)[NDIRECT := 0]\<rparr>) s)))))
           else Ok () s)
       (\<lambda>_ s. iupdate ip (upd_inode ip (\<lambda>n. n\<lparr>i_size := 0\<rparr>) s)))"

definition iput :: "nat \<Rightarrow> 'z fstate_scheme \<Rightarrow> (unit, 'z fstate_scheme) res" where
  "iput i s =
     (let ip = itable s ! i in
      andthen
        (if i_ref ip = 1 \<and> i_valid ip \<and> i_nlink ip = 0
         then andthen (acquiresleep (ino_lock i) (upd_ino_lock i) (ChInodeLock i) s) (\<lambda>_ s.
              andthen (itrunc i s) (\<lambda>_ s.
              andthen (iupdate i (upd_inode i (\<lambda>n. n\<lparr>i_type := 0\<rparr>) s)) (\<lambda>_ s.
              Ok () (releasesleep (upd_ino_lock i) (ChInodeLock i)
                       (upd_inode i (\<lambda>n. n\<lparr>i_valid := False\<rparr>) s)))))
         else Ok () s)
        (\<lambda>_ s. Ok () (upd_inode i (\<lambda>n. n\<lparr>i_ref := i_ref n - 1\<rparr>) s)))"

definition iunlockput :: "nat \<Rightarrow> 'z fstate_scheme \<Rightarrow> (unit, 'z fstate_scheme) res" where
  "iunlockput i s = andthen (iunlock i s) (\<lambda>_ s. iput i s)"

function ireclaim_loop :: "nat \<Rightarrow> u32 \<Rightarrow> nat \<Rightarrow> 'z fstate_scheme \<Rightarrow> (unit, 'z fstate_scheme) res" where
  "ireclaim_loop ninodes dev inum s =
     (if inum < ninodes
      then andthen (bread dev (IBLOCK (of_nat inum) (sb s)) s) (\<lambda>bp s.
        let d = get_dinode (b_data (bufs s ! bp)) (inum mod IPB) in
        andthen (if d_type d \<noteq> 0 \<and> d_nlink d = 0
                 then andthen (iget dev (of_nat inum) s) (\<lambda>ip s. Ok (Some ip) s)
                 else Ok None s) (\<lambda>ip s.
        andthen (brelse bp s) (\<lambda>_ s.
        andthen (case ip of
                   None \<Rightarrow> Ok () s
                 | Some i \<Rightarrow>
                     andthen (begin_op s) (\<lambda>_ s. andthen (ilock i s) (\<lambda>_ s. andthen (iunlock i s) (\<lambda>_ s.
                     andthen (iput i s) (\<lambda>_ s. end_op s))))) (\<lambda>_ s.
        ireclaim_loop ninodes dev (Suc inum) s))))
      else Ok () s)"
  by pat_completeness auto
termination
  by (relation "measure (\<lambda>(ninodes, _, inum, _). ninodes - inum)") auto

declare ireclaim_loop.simps [simp del]

definition ireclaim :: "u32 \<Rightarrow> 'z fstate_scheme \<Rightarrow> (unit, 'z fstate_scheme) res" where
  "ireclaim dev s = ireclaim_loop (unat (sb_ninodes (sb s))) dev 1 s"

definition fsinit :: "u32 \<Rightarrow> 'z fstate_scheme \<Rightarrow> (unit, 'z fstate_scheme) res" where
  "fsinit dev s =
     andthen (readsb dev s) (\<lambda>b s.
       let s = s\<lparr>sb := b\<rparr>
       in if sb_magic b \<noteq> FSMAGIC then Panic ''invalid file system''
          else andthen (initlog dev (sb_logstart b) s) (\<lambda>_ s. ireclaim dev s))"

section \<open>File contents\<close>

definition bmap :: "nat \<Rightarrow> u32 \<Rightarrow> 'z fstate_scheme \<Rightarrow> (u32, 'z fstate_scheme) res" where
  "bmap ip bn s =
     (let dev = i_dev (itable s ! ip) in
      if unat bn < NDIRECT
      then let addr = i_addrs (itable s ! ip) ! unat bn
           in if addr = 0
              then andthen (balloc dev s) (\<lambda>addr s.
                   if addr = 0 then Ok 0 s
                   else Ok addr (upd_inode ip (\<lambda>n. n\<lparr>i_addrs := (i_addrs n)[unat bn := addr]\<rparr>) s))
              else Ok addr s
      else let bn = unat bn - NDIRECT in
      if bn < NINDIRECT
      then andthen
        (let addr = i_addrs (itable s ! ip) ! NDIRECT
         in if addr = 0
            then andthen (balloc dev s) (\<lambda>addr s.
                 if addr = 0 then Ok 0 s
                 else Ok addr (upd_inode ip (\<lambda>n. n\<lparr>i_addrs := (i_addrs n)[NDIRECT := addr]\<rparr>) s))
            else Ok addr s)
        (\<lambda>addr s.
           if addr = 0 then Ok 0 s
           else andthen (bread dev addr s) (\<lambda>bp s.
             let a = get32 (b_data (bufs s ! bp)) (4 * bn)
             in andthen
               (if a = 0
                then andthen (balloc dev s) (\<lambda>addr s.
                     if addr \<noteq> 0
                     then andthen (log_write bp (set_data bp (store_at (4 * bn) (le_bytes 4 addr) (b_data (bufs s ! bp))) s))
                            (\<lambda>_ s. Ok addr s)
                     else Ok addr s)
                else Ok a s)
               (\<lambda>addr s. andthen (brelse bp s) (\<lambda>_ s. Ok addr s))))
      else Panic ''bmap: out of range'')"

definition stati :: "nat \<Rightarrow> 'z fstate_scheme \<Rightarrow> stat" where
  "stati i s =
     (let ip = itable s ! i
      in \<lparr>st_dev = i_dev ip, st_ino = i_inum ip, st_type = i_type ip, st_nlink = i_nlink ip,
          st_size = ucast (i_size ip)\<rparr>)"

datatype rdst = RUser u64 | RMem u64 | RLocal
datatype wsrc = WUser u64 | WLocal "byte list"

definition copy_chunk :: "u32 \<Rightarrow> u32 \<Rightarrow> u32 \<Rightarrow> u32" where
  "copy_chunk n tot off = min (n - tot) (1024 - off mod 1024)"

lemma unat_copy_chunk:
  "tot \<le> n \<Longrightarrow> unat (copy_chunk n tot off) = min (unat n - unat tot) (1024 - unat off mod 1024)"
proof -
  assume le: "tot \<le> n"
  have m: "off mod 1024 \<le> 1024" by (simp add: word_le_nat_alt unat_mod)
  have "unat (1024 - off mod 1024) = 1024 - unat off mod 1024"
    by (simp add: unat_sub [OF m] unat_mod)
  moreover have "unat (n - tot) = unat n - unat tot" using le by (rule unat_sub)
  ultimately show ?thesis by (simp add: copy_chunk_def min_def word_le_nat_alt)
qed

lemma copy_chunk_step:
  assumes "tot < n"
  shows "unat (n - (tot + copy_chunk n tot off)) < unat (n - tot)"
proof -
  let ?m = "copy_chunk n tot off"
  have le: "tot \<le> n" using assms by simp
  have u: "unat ?m = min (unat n - unat tot) (1024 - unat off mod 1024)" by (rule unat_copy_chunk [OF le])
  have d: "unat (n - tot) = unat n - unat tot" by (rule unat_sub [OF le])
  then have "?m \<le> n - tot" using u by (simp add: word_le_nat_alt)
  then have "unat ((n - tot) - ?m) = unat (n - tot) - unat ?m" by (rule unat_sub)
  moreover have "unat tot < unat n" using assms by (simp add: word_less_nat_alt)
  moreover have "0 < unat ?m" using u calculation by simp
  ultimately show ?thesis unfolding diff_diff_eq [symmetric] using d by simp
qed

function readi_loop ::
  "nat \<Rightarrow> rdst \<Rightarrow> u32 \<Rightarrow> u32 \<Rightarrow> u32 \<Rightarrow> byte list \<Rightarrow> 'z fstate_scheme \<Rightarrow> (int \<times> byte list, 'z fstate_scheme) res" where
  "readi_loop ip dst n tot off acc s =
     (if tot < n
      then andthen (bmap ip (off div 1024) s) (\<lambda>addr s.
        if addr = 0 then Ok (sint tot, acc) s
        else andthen (bread (i_dev (itable s ! ip)) addr s) (\<lambda>bp s.
          let m = copy_chunk n tot off; src = drop (unat off mod BSIZE) (b_data (bufs s ! bp)) in
          andthen
            (case dst of
               RUser va \<Rightarrow> either_copyout True (va + ucast tot) (at_list src) (ucast m) s
             | RMem pa \<Rightarrow> either_copyout False (pa + ucast tot) (at_list src) (ucast m) s
             | RLocal \<Rightarrow> Ok 0 s)
            (\<lambda>r s.
               if r = - 1 then andthen (brelse bp s) (\<lambda>_ s. Ok (- 1, acc) s)
               else andthen (brelse bp s) (\<lambda>_ s.
                    readi_loop ip dst n (tot + m) (off + m) (acc @ take (unat m) src) s)))
        )
      else Ok (sint tot, acc) s)"
  by pat_completeness auto
termination
  by (relation "measure (\<lambda>(_, _, n, tot, _, _, _). unat (n - tot))") (auto intro: copy_chunk_step)

declare readi_loop.simps [simp del]

definition readi ::
  "nat \<Rightarrow> rdst \<Rightarrow> u32 \<Rightarrow> u32 \<Rightarrow> 'z fstate_scheme \<Rightarrow> (int \<times> byte list, 'z fstate_scheme) res" where
  "readi ip dst off n s =
     (let sz = i_size (itable s ! ip)
      in if off > sz \<or> off + n < off then Ok (0, []) s
         else let n = (if off + n > sz then sz - off else n)
              in readi_loop ip dst n 0 off [] s)"

function writei_loop ::
  "nat \<Rightarrow> wsrc \<Rightarrow> u32 \<Rightarrow> u32 \<Rightarrow> u32 \<Rightarrow> 'z fstate_scheme \<Rightarrow> (u32 \<times> u32, 'z fstate_scheme) res" where
  "writei_loop ip src n tot off s =
     (if tot < n
      then andthen (bmap ip (off div 1024) s) (\<lambda>addr s.
        if addr = 0 then Ok (tot, off) s
        else andthen (bread (i_dev (itable s ! ip)) addr s) (\<lambda>bp s.
          let m = copy_chunk n tot off in
          andthen
            (case src of
               WUser va \<Rightarrow> either_copyin True (va + ucast tot) (ucast m) s
             | WLocal bs \<Rightarrow> Ok (0, take (unat m) (drop (unat tot) bs)) s)
            (\<lambda>(r, bs) s.
               let s = set_data bp (store_at (unat off mod BSIZE) bs (b_data (bufs s ! bp))) s
               in if r = - 1 then andthen (brelse bp s) (\<lambda>_ s. Ok (tot, off) s)
                  else andthen (log_write bp s) (\<lambda>_ s.
                       andthen (brelse bp s) (\<lambda>_ s.
                       writei_loop ip src n (tot + m) (off + m) s)))))
      else Ok (tot, off) s)"
  by pat_completeness auto
termination
  by (relation "measure (\<lambda>(_, _, n, tot, _, _). unat (n - tot))") (auto intro: copy_chunk_step)

declare writei_loop.simps [simp del]

definition writei :: "nat \<Rightarrow> wsrc \<Rightarrow> u32 \<Rightarrow> u32 \<Rightarrow> 'z fstate_scheme \<Rightarrow> (int, 'z fstate_scheme) res" where
  "writei ip src off n s =
     (if off > i_size (itable s ! ip) \<or> off + n < off then Ok (- 1) s
      else if off + n > of_nat (MAXFILE * BSIZE) then Ok (- 1) s
      else andthen (writei_loop ip src n 0 off s) (\<lambda>(tot, off) s.
        let s = (if off > i_size (itable s ! ip) then upd_inode ip (\<lambda>i. i\<lparr>i_size := off\<rparr>) s else s)
        in andthen (iupdate ip s) (\<lambda>_ s. Ok (sint tot) s)))"

section \<open>Directories\<close>

definition de_inum :: "byte list \<Rightarrow> u16" where
  "de_inum de = get16 de 0"

definition de_name :: "byte list \<Rightarrow> byte list" where
  "de_name de = drop 2 de"

definition namecmp :: "byte list \<Rightarrow> byte list \<Rightarrow> int" where
  "namecmp n m = strncmp (at_list n) (at_list m) DIRSIZ"

function dirlookup_loop ::
  "nat \<Rightarrow> nat \<Rightarrow> byte list \<Rightarrow> nat \<Rightarrow> 'z fstate_scheme \<Rightarrow> ((nat \<times> u32) option, 'z fstate_scheme) res" where
  "dirlookup_loop sz dp name off s =
     (if off < sz
      then andthen (readi dp RLocal (of_nat off) 16 s) (\<lambda>(r, de) s.
        if r \<noteq> 16 then Panic ''dirlookup read''
        else if de_inum de \<noteq> 0 \<and> namecmp name (de_name de) = 0
        then andthen (iget (i_dev (itable s ! dp)) (ucast (de_inum de)) s) (\<lambda>ip s. Ok (Some (ip, of_nat off)) s)
        else dirlookup_loop sz dp name (off + 16) s)
      else Ok None s)"
  by pat_completeness auto
termination
  by (relation "measure (\<lambda>(sz, _, _, off, _). sz - off)") auto

declare dirlookup_loop.simps [simp del]

definition dirlookup :: "nat \<Rightarrow> byte list \<Rightarrow> 'z fstate_scheme \<Rightarrow> ((nat \<times> u32) option, 'z fstate_scheme) res" where
  "dirlookup dp name s =
     (if i_type (itable s ! dp) \<noteq> T_DIR then Panic ''dirlookup not DIR''
      else dirlookup_loop (unat (i_size (itable s ! dp))) dp name 0 s)"

function dirlink_scan :: "nat \<Rightarrow> nat \<Rightarrow> nat \<Rightarrow> 'z fstate_scheme \<Rightarrow> (nat, 'z fstate_scheme) res" where
  "dirlink_scan sz dp off s =
     (if off < sz
      then andthen (readi dp RLocal (of_nat off) 16 s) (\<lambda>(r, de) s.
        if r \<noteq> 16 then Panic ''dirlink read''
        else if de_inum de = 0 then Ok off s
        else dirlink_scan sz dp (off + 16) s)
      else Ok off s)"
  by pat_completeness auto
termination
  by (relation "measure (\<lambda>(sz, _, off, _). sz - off)") auto

declare dirlink_scan.simps [simp del]

definition dirlink :: "nat \<Rightarrow> byte list \<Rightarrow> u32 \<Rightarrow> 'z fstate_scheme \<Rightarrow> (int, 'z fstate_scheme) res" where
  "dirlink dp name inum s =
     andthen (dirlookup dp name s) (\<lambda>r s.
       case r of
         Some (ip, _) \<Rightarrow> andthen (iput ip s) (\<lambda>_ s. Ok (- 1) s)
       | None \<Rightarrow>
           andthen (dirlink_scan (unat (i_size (itable s ! dp))) dp 0 s) (\<lambda>off s.
             let de = le_bytes 2 (ucast inum :: u16) @ strncpy (at_list name) DIRSIZ
             in andthen (writei dp (WLocal de) (of_nat off) 16 s) (\<lambda>r s.
                if r \<noteq> 16 then Ok (- 1) s else Ok 0 s)))"

section \<open>Paths\<close>

abbreviation slash :: byte where "slash \<equiv> 47"

definition skipelem :: "byte list \<Rightarrow> (byte list \<times> byte list) option" where
  "skipelem path =
     (let path = dropWhile (\<lambda>c. c = slash) path
      in if path = [] then None
         else let elem = takeWhile (\<lambda>c. c \<noteq> slash) path;
                  rest = dropWhile (\<lambda>c. c \<noteq> slash) path
              in Some (take DIRSIZ elem, dropWhile (\<lambda>c. c = slash) rest))"

lemma skipelem_shorter: "skipelem path = Some (name, rest) \<Longrightarrow> length rest < length path"
proof -
  assume "skipelem path = Some (name, rest)"
  then have p: "dropWhile (\<lambda>c. c = slash) path \<noteq> []"
    and r: "rest = dropWhile (\<lambda>c. c = slash) (dropWhile (\<lambda>c. c \<noteq> slash) (dropWhile (\<lambda>c. c = slash) path))"
    by (auto simp: skipelem_def Let_def split: if_splits)
  have "hd (dropWhile (\<lambda>c. c = slash) path) \<noteq> slash" using hd_dropWhile [OF p] by simp
  with p obtain x xs where x: "dropWhile (\<lambda>c. c = slash) path = x # xs" "x \<noteq> slash"
    by (cases "dropWhile (\<lambda>c. c = slash) path") auto
  have "length rest \<le> length xs"
    unfolding r x using x(2) by (simp add: order_trans [OF length_dropWhile_le length_dropWhile_le])
  moreover have "length (x # xs) \<le> length path" using x length_dropWhile_le by metis
  ultimately show ?thesis by simp
qed

function namex_loop ::
  "bool \<Rightarrow> nat \<Rightarrow> byte list \<Rightarrow> byte list \<Rightarrow> 'z fstate_scheme \<Rightarrow> (nat option \<times> byte list, 'z fstate_scheme) res" where
  "namex_loop nameiparent ip path name s =
     (case skipelem path of
        None \<Rightarrow>
          if nameiparent then andthen (iput ip s) (\<lambda>_ s. Ok (None, name) s) else Ok (Some ip, name) s
      | Some (name, path) \<Rightarrow>
          andthen (ilock ip s) (\<lambda>_ s.
          if i_type (itable s ! ip) \<noteq> T_DIR
          then andthen (iunlockput ip s) (\<lambda>_ s. Ok (None, name) s)
          else if nameiparent \<and> path = []
          then andthen (iunlock ip s) (\<lambda>_ s. Ok (Some ip, name) s)
          else andthen (dirlookup ip name s) (\<lambda>r s.
            case r of
              None \<Rightarrow> andthen (iunlockput ip s) (\<lambda>_ s. Ok (None, name) s)
            | Some (nxt, _) \<Rightarrow>
                andthen (iunlockput ip s) (\<lambda>_ s. namex_loop nameiparent nxt path name s))))"
  by pat_completeness auto
termination
  by (relation "measure (\<lambda>(_, _, path, _, _). length path)") (auto dest: skipelem_shorter)

declare namex_loop.simps [simp del]

definition namex ::
  "byte list \<Rightarrow> bool \<Rightarrow> 'z fstate_scheme \<Rightarrow> (nat option \<times> byte list, 'z fstate_scheme) res" where
  "namex path nameiparent s =
     andthen
       (if path \<noteq> [] \<and> hd path = slash then iget ROOTDEV ROOTINO s
        else (case p_cwd (myproc s) of None \<Rightarrow> Fault ''namex: null cwd'' | Some i \<Rightarrow> Ok i (idup i s)))
       (\<lambda>ip s. namex_loop nameiparent ip path [] s)"

definition namei :: "byte list \<Rightarrow> 'z fstate_scheme \<Rightarrow> (nat option, 'z fstate_scheme) res" where
  "namei path s = andthen (namex path False s) (\<lambda>(ip, _) s. Ok ip s)"

definition nameiparent :: "byte list \<Rightarrow> 'z fstate_scheme \<Rightarrow> (nat option \<times> byte list, 'z fstate_scheme) res" where
  "nameiparent path s = namex path True s"

end
