(* ===== verification/Printf.thy ===== *)
theory Printf
  imports Fs
begin

text \<open>
  Console output: the transmit side of the serial port driver \<open>kernel/uart.c\<close>, \<open>consputc\<close> of
  \<open>kernel/console.c\<close>, the formatted output of \<open>kernel/printf.c\<close> and \<open>procdump\<close> of
  \<open>kernel/proc.c\<close>. The port is represented by the sequence of its register writes
  (\<open>uart_w\<close>, pairs of register and value, oldest first) and by the bytes it has received and
  the kernel has not read yet (\<open>uart_rx\<close>). \<open>uartputc_sync\<close> polls until the transmitter is idle;
  the model takes the write that follows. The flags \<open>panicking\<close> and \<open>panicked\<close> are clear in every
  state of the model, because a panic ends it. A variable argument of \<open>printf\<close> is a register
  or a string; reading one that was not passed is a fault.
\<close>

section \<open>The port\<close>

record uartstate = fstate +
  uart_w :: "(nat \<times> byte) list"
  uart_rx :: "byte list"
  tx_busy :: bool

abbreviation THR :: nat where "THR \<equiv> 0"
abbreviation IER :: nat where "IER \<equiv> 1"
abbreviation FCR :: nat where "FCR \<equiv> 2"
abbreviation LCR :: nat where "LCR \<equiv> 3"

definition WriteReg :: "nat \<Rightarrow> byte \<Rightarrow> 'z uartstate_scheme \<Rightarrow> 'z uartstate_scheme" where
  "WriteReg reg v s = s\<lparr>uart_w := uart_w s @ [(reg, v)]\<rparr>"

definition uartinit :: "'z uartstate_scheme \<Rightarrow> 'z uartstate_scheme" where
  "uartinit s =
     (let s = WriteReg IER 0 s;
          s = WriteReg LCR 0x80 s;
          s = WriteReg 0 3 s;
          s = WriteReg 1 0 s;
          s = WriteReg LCR 3 s;
          s = WriteReg FCR (1 OR 6) s
      in WriteReg IER (2 OR 1) s)"

definition uartputc_sync :: "int \<Rightarrow> 'z uartstate_scheme \<Rightarrow> 'z uartstate_scheme" where
  "uartputc_sync c s = WriteReg THR (word_of_int c) s"

definition uartgetc :: "'z uartstate_scheme \<Rightarrow> int \<times> 'z uartstate_scheme" where
  "uartgetc s = (case uart_rx s of [] \<Rightarrow> (- 1, s) | c # cs \<Rightarrow> (uint c, s\<lparr>uart_rx := cs\<rparr>))"

text \<open>
  \<open>uartwrite\<close> goes on with byte \<open>i\<close> of the buffer. Its result is the index of the next byte to
  send: the length of the buffer when all have been sent, a smaller one when the port is busy
  and the caller has gone to sleep.
\<close>

fun uartwrite :: "byte list \<Rightarrow> nat \<Rightarrow> 'z uartstate_scheme \<Rightarrow> nat \<times> 'z uartstate_scheme" where
  "uartwrite [] i s = (i, s)"
| "uartwrite (c # cs) i s =
     (if tx_busy s
      then (i, upd_proc (me s) (\<lambda>p. p\<lparr>p_chan := Some ChUart, p_state := SLEEPING\<rparr>) s)
      else uartwrite cs (Suc i) ((WriteReg THR c s)\<lparr>tx_busy := True\<rparr>))"

section \<open>Formatted output\<close>

abbreviation BACKSPACE :: int where "BACKSPACE \<equiv> 256"

definition consputc :: "int \<Rightarrow> 'z uartstate_scheme \<Rightarrow> 'z uartstate_scheme" where
  "consputc c s =
     (if c = BACKSPACE then uartputc_sync 8 (uartputc_sync 32 (uartputc_sync 8 s))
      else uartputc_sync c s)"

fun consputs :: "byte list \<Rightarrow> 'z uartstate_scheme \<Rightarrow> 'z uartstate_scheme" where
  "consputs [] s = s"
| "consputs (c # cs) s = consputs cs (consputc (uint c) s)"

definition digits :: "byte list" where
  "digits = ascii ''0123456789abcdef''"

text \<open>The digits in the order \<open>printint\<close> stores them, the last one first; the bases are 10 and 16.\<close>

function digits_rev :: "u64 \<Rightarrow> u64 \<Rightarrow> byte list" where
  "digits_rev x base =
     digits ! unat (x mod base) #
     (if base < 2 \<or> x div base = 0 then [] else digits_rev (x div base) base)"
  by pat_completeness auto
termination
proof (relation "measure (\<lambda>(x, _). unat x)")
  fix x base :: u64
  assume a: "\<not> (base < 2 \<or> x div base = 0)"
  then have "x \<noteq> 0" and "2 \<le> base" by auto
  then have "0 < unat x" and "2 \<le> unat base" by (auto simp: unat_gt_0 word_le_nat_alt)
  then show "((x div base, base), x, base) \<in> measure (\<lambda>(x, _). unat x)"
    by (simp add: unat_div)
qed simp

declare digits_rev.simps [simp del]

definition printint_buf :: "u64 \<Rightarrow> u64 \<Rightarrow> bool \<Rightarrow> byte list" where
  "printint_buf xx base sign =
     (let neg = (sign \<and> sint xx < 0); x = (if neg then - xx else xx)
      in digits_rev x base @ (if neg then ascii ''-'' else []))"

definition printint :: "u64 \<Rightarrow> u64 \<Rightarrow> bool \<Rightarrow> 'z uartstate_scheme \<Rightarrow> 'z uartstate_scheme" where
  "printint xx base sign s = consputs (rev (printint_buf xx base sign)) s"

fun hexdigits :: "nat \<Rightarrow> u64 \<Rightarrow> byte list" where
  "hexdigits 0 x = []"
| "hexdigits (Suc k) x = digits ! unat (drop_bit 60 x) # hexdigits k (push_bit 4 x)"

definition printptr :: "u64 \<Rightarrow> 'z uartstate_scheme \<Rightarrow> 'z uartstate_scheme" where
  "printptr x s = consputs (ascii ''0x'' @ hexdigits 16 x) s"

datatype parg = PReg u64 | PStr "byte list option"

datatype conv =
    CInt | CLong | CUint | CUlong | CHex | CHexl | CPtr | CChar | CStr | CPercent | CStop | CUnknown byte

text \<open>The conversion after a \<open>%\<close> and the number of characters it takes.\<close>

definition parse_conv :: "byte list \<Rightarrow> conv \<times> nat" where
  "parse_conv fmt =
     (let c0 = at_list fmt 0; c1 = at_list fmt 1; c2 = at_list fmt 2;
          is = (\<lambda>c ch. c = (of_char ch :: byte))
      in if is c0 CHR ''d'' then (CInt, 1)
         else if is c0 CHR ''l'' \<and> is c1 CHR ''d'' then (CLong, 2)
         else if is c0 CHR ''l'' \<and> is c1 CHR ''l'' \<and> is c2 CHR ''d'' then (CLong, 3)
         else if is c0 CHR ''u'' then (CUint, 1)
         else if is c0 CHR ''l'' \<and> is c1 CHR ''u'' then (CUlong, 2)
         else if is c0 CHR ''l'' \<and> is c1 CHR ''l'' \<and> is c2 CHR ''u'' then (CUlong, 3)
         else if is c0 CHR ''x'' then (CHex, 1)
         else if is c0 CHR ''l'' \<and> is c1 CHR ''x'' then (CHexl, 2)
         else if is c0 CHR ''l'' \<and> is c1 CHR ''l'' \<and> is c2 CHR ''x'' then (CHexl, 3)
         else if is c0 CHR ''p'' then (CPtr, 1)
         else if is c0 CHR ''c'' then (CChar, 1)
         else if is c0 CHR ''s'' then (CStr, 1)
         else if is c0 CHR ''%'' then (CPercent, 1)
         else if c0 = 0 then (CStop, 0)
         else (CUnknown c0, 1))"

fun print_reg :: "conv \<Rightarrow> u64 \<Rightarrow> 'z uartstate_scheme \<Rightarrow> 'z uartstate_scheme" where
  "print_reg CInt w s = printint (word_of_int (cint w)) 10 True s"
| "print_reg CLong w s = printint w 10 True s"
| "print_reg CUint w s = printint (ucast (ucast w :: u32)) 10 False s"
| "print_reg CUlong w s = printint w 10 False s"
| "print_reg CHex w s = printint (ucast (ucast w :: u32)) 16 False s"
| "print_reg CHexl w s = printint w 16 False s"
| "print_reg CPtr w s = printptr w s"
| "print_reg CChar w s = consputc (cint w) s"
| "print_reg _ w s = s"

fun printf_loop :: "byte list \<Rightarrow> parg list \<Rightarrow> 'z uartstate_scheme \<Rightarrow> (unit, 'z uartstate_scheme) res" where
  "printf_loop [] args s = Ok () s"
| "printf_loop (cx # rest) args s =
     (if cx \<noteq> of_char CHR ''%'' then printf_loop rest args (consputc (uint cx) s)
      else (case parse_conv rest of (cv, n) \<Rightarrow>
        (case cv of
           CPercent \<Rightarrow> printf_loop (drop n rest) args (consputs (ascii ''%'') s)
         | CStop \<Rightarrow> Ok () s
         | CUnknown c0 \<Rightarrow> printf_loop (drop n rest) args (consputs (ascii ''%'' @ [c0]) s)
         | CStr \<Rightarrow>
             (case args of
                PStr str # args \<Rightarrow>
                  printf_loop (drop n rest) args
                    (consputs (case str of None \<Rightarrow> ascii ''(null)'' | Some cs \<Rightarrow> cs) s)
              | _ \<Rightarrow> Fault ''printf: missing argument'')
         | _ \<Rightarrow>
             (case args of
                PReg w # args \<Rightarrow> printf_loop (drop n rest) args (print_reg cv w s)
              | _ \<Rightarrow> Fault ''printf: missing argument''))))"

definition printf :: "string \<Rightarrow> parg list \<Rightarrow> 'z uartstate_scheme \<Rightarrow> (unit, 'z uartstate_scheme) res" where
  "printf fmt args s = printf_loop (ascii fmt) args s"

section \<open>The process listing\<close>

fun state_name :: "procstate \<Rightarrow> string" where
  "state_name UNUSED = ''unused''"
| "state_name USED = ''used''"
| "state_name SLEEPING = ''sleep ''"
| "state_name RUNNABLE = ''runble''"
| "state_name RUNNING = ''run   ''"
| "state_name ZOMBIE = ''zombie''"

fun procdump_loop :: "proc list \<Rightarrow> 'z uartstate_scheme \<Rightarrow> (unit, 'z uartstate_scheme) res" where
  "procdump_loop [] s = Ok () s"
| "procdump_loop (p # ps) s =
     (if p_state p = UNUSED then procdump_loop ps s
      else andthen (printf ''%d %s %s''
               [PReg (int_reg (p_pid p)), PStr (Some (ascii (state_name (p_state p)))),
                PStr (Some (cstr (length (p_name p)) (at_list (p_name p))))] s) (\<lambda>_ s.
           andthen (printf [CHR 0x0A] [] s) (\<lambda>_ s. procdump_loop ps s)))"

definition procdump :: "'z uartstate_scheme \<Rightarrow> (unit, 'z uartstate_scheme) res" where
  "procdump s = andthen (printf [CHR 0x0A] [] s) (\<lambda>_ s. procdump_loop (procs s) s)"

section \<open>Output only extends the trace\<close>

definition emit :: "byte list \<Rightarrow> 'z uartstate_scheme \<Rightarrow> 'z uartstate_scheme" where
  "emit bs s = s\<lparr>uart_w := uart_w s @ map (Pair THR) bs\<rparr>"

lemma emit_emit [simp]: "emit bs (emit as s) = emit (as @ bs) s"
  by (simp add: emit_def)

lemma emit_Nil [simp]: "emit [] s = s"
  by (simp add: emit_def)

lemma consputc_byte: "consputc (uint (c :: byte)) s = emit [c] s"
proof -
  have "uint c < 256" using uint_bounded [of c] by simp
  then show ?thesis by (simp add: consputc_def uartputc_sync_def WriteReg_def emit_def)
qed

lemma consputc_backspace: "consputc BACKSPACE s = emit [8, 32, 8] s"
  by (simp add: consputc_def uartputc_sync_def WriteReg_def emit_def)

lemma consputs_emit [simp]: "consputs cs s = emit cs s"
  by (induction cs arbitrary: s) (simp_all add: consputc_byte)

lemma consputc_emits: "\<exists>bs. consputc c s = emit bs s"
  by (cases "c = BACKSPACE") (auto simp: consputc_def uartputc_sync_def WriteReg_def emit_def
        intro: exI [of _ "[8, 32, 8]"] exI [of _ "[word_of_int c]"])

lemma print_reg_emits: "\<exists>bs. print_reg cv w s = emit bs s"
  by (cases cv) (auto simp: printint_def printptr_def consputc_emits intro: exI [of _ "[]"])

lemma printf_loop_emits: "printf_loop fmt args s = Ok () t \<Longrightarrow> \<exists>bs. t = emit bs s"
proof (induction "length fmt" arbitrary: fmt args s rule: less_induct)
  case less
  have go: "\<exists>bs. t = emit bs s"
    if "printf_loop fmt' args' (emit bs1 s) = Ok () t" "length fmt' < length fmt" for fmt' args' bs1
    using less.hyps [OF that(2,1)] by auto
  show ?case
  proof (cases fmt)
    case Nil
    with less.prems show ?thesis by (auto intro: exI [of _ "[]"])
  next
    case (Cons cx rest)
    have short: "length (drop n rest) < length fmt" for n by (simp add: Cons)
    obtain cv n where cv: "parse_conv rest = (cv, n)" by (cases "parse_conv rest")
    have "\<forall>cv w. \<exists>bs. print_reg cv w s = emit bs s" using print_reg_emits by blast
    then obtain bs where bs: "\<And>cv w. print_reg cv w s = emit (bs cv w) s" by metis
    show ?thesis
    proof (cases "cx = of_char CHR ''%''")
      case False
      with less.prems show ?thesis by (intro go [of rest args "[cx]"]) (auto simp: Cons consputc_byte)
    next
      case True
      with less.prems show ?thesis
        by (cases cv) (auto simp: Cons cv bs simp del: print_reg.simps intro: go [OF _ short] exI [of _ "[]"]
              split: list.splits parg.splits)
    qed
  qed
qed

lemma printf_emits: "printf fmt args s = Ok () t \<Longrightarrow> \<exists>bs. t = emit bs s"
  unfolding printf_def by (rule printf_loop_emits)

lemma procdump_loop_emits: "procdump_loop ps s = Ok () t \<Longrightarrow> \<exists>bs. t = emit bs s"
proof (induction ps arbitrary: s)
  case (Cons p ps)
  then show ?case by (fastforce simp: res_simps dest!: printf_emits split: if_splits)
qed (auto intro: exI [of _ "[]"])

lemma procdump_emits: "procdump s = Ok () t \<Longrightarrow> \<exists>bs. t = emit bs s"
  by (fastforce simp: procdump_def res_simps dest!: printf_emits procdump_loop_emits)

section \<open>Numbers\<close>

text \<open>Reading a printed number back: the value of its digits in a base, after an optional sign.\<close>

definition digit_val :: "byte \<Rightarrow> nat" where
  "digit_val c = (if c \<ge> 97 then unat c - 87 else unat c - 48)"

definition num_value :: "nat \<Rightarrow> byte list \<Rightarrow> nat" where
  "num_value base ds = foldl (\<lambda>v d. v * base + digit_val d) 0 ds"

fun read_int :: "nat \<Rightarrow> byte list \<Rightarrow> int" where
  "read_int base [] = 0"
| "read_int base (c # cs) = (if c = 45 then - int (num_value base cs) else int (num_value base (c # cs)))"

lemma digits_nth: "k < 16 \<Longrightarrow> digit_val (digits ! k) = k \<and> digits ! k \<noteq> 45"
proof -
  have d: "digits = [48, 49, 50, 51, 52, 53, 54, 55, 56, 57, 97, 98, 99, 100, 101, 102]"
    by (simp add: digits_def ascii_def)
  assume "k < 16"
  then have "k \<in> set [0..<16]" by simp
  then show ?thesis unfolding d by (auto simp: upt_rec digit_val_def)
qed

lemma num_value_snoc: "num_value base (ds @ [d]) = num_value base ds * base + digit_val d"
  by (simp add: num_value_def)

lemma digits_rev_value:
  assumes "base = 10 \<or> base = 16"
  shows "num_value (unat base) (rev (digits_rev x base)) = unat x \<and> (\<forall>d \<in> set (digits_rev x base). d \<noteq> 45)"
  using assms
proof (induction x base rule: digits_rev.induct)
  case (1 x base)
  have m: "unat (x mod base) < 16" using 1(2) by (auto simp: unat_mod)
  note dig = digits_nth [OF m]
  have b: "\<not> base < 2" using 1(2) by auto
  show ?case
  proof (cases "x div base = 0")
    case True
    then have "unat x div unat base = 0" by (metis unat_0 unat_div)
    then have "unat x mod unat base = unat x" by (metis mod_div_trivial div_mult_mod_eq mult_0 add_0)
    with True dig show ?thesis by (simp add: digits_rev.simps [of x] num_value_def unat_mod)
  next
    case False
    with 1 b have "num_value (unat base) (rev (digits_rev (x div base) base)) = unat (x div base)"
      "\<forall>d \<in> set (digits_rev (x div base) base). d \<noteq> 45" by auto
    with False b dig show ?thesis
      by (simp add: digits_rev.simps [of x] num_value_snoc unat_div unat_mod)
  qed
qed

lemma digits_rev_length: "0 < n \<Longrightarrow> 2 \<le> base \<Longrightarrow> unat x < unat base ^ n \<Longrightarrow> length (digits_rev x base) \<le> n"
proof (induction n arbitrary: x)
  case (Suc n)
  show ?case
  proof (cases "base < 2 \<or> x div base = 0")
    case True
    then show ?thesis by (simp add: digits_rev.simps [of x])
  next
    case False
    have "unat (x div base) < unat base ^ n"
      using Suc.prems by (simp add: unat_div less_mult_imp_div_less mult.commute)
    moreover have "0 < n"
    proof (rule ccontr)
      assume "\<not> 0 < n"
      with calculation False show False by (simp add: unat_eq_zero)
    qed
    ultimately show ?thesis using Suc False by (simp add: digits_rev.simps [of x])
  qed
qed simp

lemma sint_u64: "sint (x :: u64) = (if uint x < 9223372036854775808 then uint x else uint x - 18446744073709551616)"
proof -
  have "sint x = sint (word_of_int (uint x) :: u64)" by simp
  also have "\<dots> = (uint x + 9223372036854775808) mod 18446744073709551616 - 9223372036854775808"
    by (subst int_word_sint) simp
  finally have s: "sint x = (uint x + 9223372036854775808) mod 18446744073709551616 - 9223372036854775808" .
  have r: "0 \<le> uint x" "uint x < 18446744073709551616" using uint_bounded [of x] by simp_all
  show ?thesis
  proof (cases "uint x < 9223372036854775808")
    case True
    with r s show ?thesis by (simp add: mod_pos_pos_trivial)
  next
    case False
    have "(uint x + 9223372036854775808) mod 18446744073709551616 = uint x + 9223372036854775808 - 18446744073709551616"
      using False r by (subst mod_pos_geq) (simp_all add: mod_pos_pos_trivial)
    with False s show ?thesis by simp
  qed
qed

lemma neg_magnitude:
  assumes "sint (x :: u64) < 0"
  shows "int (unat (- x)) = - sint x" and "- sint x \<le> 9223372036854775808"
proof -
  have r: "0 \<le> uint x" "uint x < 18446744073709551616" using uint_bounded [of x] by simp_all
  with assms have s: "sint x = uint x - 18446744073709551616" "9223372036854775808 \<le> uint x"
    by (auto simp: sint_u64 split: if_splits)
  have "uint (- x) = (- uint x) mod 18446744073709551616" by (simp add: uint_word_ariths)
  also have "\<dots> = 18446744073709551616 - uint x"
    using r s(2) by (simp add: zmod_zminus1_eq_if mod_pos_pos_trivial)
  finally show "int (unat (- x)) = - sint x" using s(1) by simp
  show "- sint x \<le> 9223372036854775808" using s by simp
qed

text \<open>C38: \<open>printint\<close> sends the decimal or hexadecimal digits of its argument, with a sign exactly when
  a signed argument is negative: reading them back gives the number, for every 64-bit argument
  down to the smallest. The characters always fit the buffer of 20 on the kernel stack.\<close>

theorem printint_prints_number:
  assumes "base = 10 \<or> base = 16"
  shows "printint xx base sign s = emit (rev (printint_buf xx base sign)) s \<and>
         length (printint_buf xx base sign) \<le> 20 \<and>
         read_int (unat base) (rev (printint_buf xx base sign)) = (if sign then sint xx else uint xx)"
proof (cases "sign \<and> sint xx < 0")
  case True
  then have neg: "sint xx < 0" by simp
  note mag = neg_magnitude(1) [OF neg]
  from mag neg_magnitude(2) [OF neg] have "unat (- xx) \<le> 9223372036854775808" by linarith
  then have "unat (- xx) < unat base ^ 19" using assms by auto
  then have "length (digits_rev (- xx) base) \<le> 19" using assms by (intro digits_rev_length) auto
  with True mag show ?thesis
    using digits_rev_value [OF assms, of "- xx"] by (simp add: printint_def printint_buf_def Let_def ascii_def)
next
  case False
  let ?ds = "rev (digits_rev xx base)"
  have "unat xx < unat base ^ 20" using unat_u64_less [of xx] assms by auto
  then have len: "length (digits_rev xx base) \<le> 20" using assms by (intro digits_rev_length) auto
  have v: "num_value (unat base) ?ds = unat xx" "\<forall>d \<in> set ?ds. d \<noteq> 45"
    using digits_rev_value [OF assms, of xx] by auto
  moreover have "uint xx = int (unat xx)" by simp
  ultimately have "read_int (unat base) ?ds = uint xx" by (cases ?ds) (simp_all add: num_value_def)
  moreover have "uint xx = sint xx" if "0 \<le> sint xx"
    using that uint_bounded [of xx] by (auto simp: sint_u64 split: if_splits)
  ultimately show ?thesis using False len by (auto simp: printint_def printint_buf_def Let_def)
qed

theorem printint_prints_number_witness:
  "read_int 10 (rev (printint_buf 0x8000000000000000 10 True)) = - 9223372036854775808 \<and>
   length (printint_buf 0x8000000000000000 10 True) \<le> 20"
proof -
  have ten: "unat (10 :: u64) = 10" and low: "sint (0x8000000000000000 :: u64) = - 9223372036854775808" by simp_all
  note p = printint_prints_number [of 10 "0x8000000000000000" True undefined, OF disjI1 [OF refl], unfolded ten low if_True]
  show ?thesis using p [THEN conjunct2, THEN conjunct2] p [THEN conjunct2, THEN conjunct1] by (rule conjI)
qed

end
