(* ===== verification/Console.thy ===== *)
theory Console
  imports Printf
begin

text \<open>
  The console device, \<open>kernel/console.c\<close>, and the interrupt side of \<open>kernel/uart.c\<close>: line
  editing in a ring of 128 characters with the read, write and edit indices of the source,
  which count upwards and wrap at 32 bits. \<open>devsw\<close> says for each major number whether the
  device switch holds the console's functions; no other driver is connected in the kernel.
  \<open>consolewrite\<close> may stop in the middle of a batch when the port is busy: \<open>CwWait i buf j\<close> is the
  point at which it sleeps, after \<open>i\<close> bytes and with the batch \<open>buf\<close> sent up to index \<open>j\<close>, and
  \<open>consolewrite_from\<close> goes on from such a point.
\<close>

abbreviation INPUT_BUF_SIZE :: nat where "INPUT_BUF_SIZE \<equiv> 128"
abbreviation CONSOLE :: nat where "CONSOLE \<equiv> 1"
abbreviation NDEV :: nat where "NDEV \<equiv> 10"

record constate = uartstate +
  cons_buf :: "byte list"
  cons_r :: u32
  cons_w :: u32
  cons_e :: u32
  devsw :: "bool list"

definition ring_at :: "u32 \<Rightarrow> 'z constate_scheme \<Rightarrow> byte" where
  "ring_at i s = cons_buf s ! (unat i mod INPUT_BUF_SIZE)"

section \<open>Writing\<close>

datatype cw = CwDone int | CwWait nat "byte list" nat

function consolewrite_loop ::
  "bool \<Rightarrow> u64 \<Rightarrow> nat \<Rightarrow> nat \<Rightarrow> 'z uartstate_scheme \<Rightarrow> (cw, 'z uartstate_scheme) res" where
  "consolewrite_loop user_src src n i s =
     (if i < n
      then let nn = min 32 (n - i) in
        andthen (either_copyin user_src (src + of_nat i) (of_nat nn) s) (\<lambda>(r, buf) s.
          if r = - 1 then Ok (CwDone (int i)) s
          else (case uartwrite buf 0 s of (j, s) \<Rightarrow>
            if j < length buf then Ok (CwWait i buf j) s
            else consolewrite_loop user_src src n (i + nn) s))
      else Ok (CwDone (int i)) s)"
  by pat_completeness auto
termination
  by (relation "measure (\<lambda>(_, _, n, i, _). n - i)") auto

declare consolewrite_loop.simps [simp del]

definition consolewrite_from ::
  "bool \<Rightarrow> u64 \<Rightarrow> nat \<Rightarrow> nat \<Rightarrow> byte list \<Rightarrow> nat \<Rightarrow> 'z uartstate_scheme \<Rightarrow> (cw, 'z uartstate_scheme) res" where
  "consolewrite_from user_src src n i buf j s =
     (case uartwrite (drop j buf) j s of (j, s) \<Rightarrow>
        if j < length buf then Ok (CwWait i buf j) s
        else consolewrite_loop user_src src n (i + length buf) s)"

definition consolewrite :: "bool \<Rightarrow> u64 \<Rightarrow> int \<Rightarrow> 'z uartstate_scheme \<Rightarrow> (int, 'z uartstate_scheme) res" where
  "consolewrite user_src src n s =
     andthen (consolewrite_loop user_src src (nat n) 0 s) (\<lambda>w s.
       case w of CwDone r \<Rightarrow> Ok r s | CwWait _ _ _ \<Rightarrow> Sleep ChUart s)"

section \<open>Reading\<close>

fun consoleread_loop ::
  "bool \<Rightarrow> u64 \<Rightarrow> int \<Rightarrow> nat \<Rightarrow> 'z constate_scheme \<Rightarrow> (int, 'z constate_scheme) res" where
  "consoleread_loop user_dst dst target 0 s = Ok target s"
| "consoleread_loop user_dst dst target (Suc n) s =
     (if cons_r s = cons_w s
      then if killed (me s) s then Ok (- 1) s else sleep ChConsole s
      else let c = ring_at (cons_r s) s; s = s\<lparr>cons_r := cons_r s + 1\<rparr> in
        if c = 4
        then Ok (target - int (Suc n)) (if int (Suc n) < target then s\<lparr>cons_r := cons_r s - 1\<rparr> else s)
        else andthen (either_copyout user_dst dst (at_list [c]) 1 s) (\<lambda>r s.
          if r = - 1 then Ok (target - int (Suc n)) s
          else if c = 10 then Ok (target - int n) s
          else consoleread_loop user_dst (dst + 1) target n s))"

definition consoleread :: "bool \<Rightarrow> u64 \<Rightarrow> int \<Rightarrow> 'z constate_scheme \<Rightarrow> (int, 'z constate_scheme) res" where
  "consoleread user_dst dst n s =
     (if n > 0 then consoleread_loop user_dst dst n (nat n) s else Ok 0 s)"

section \<open>Input\<close>

function kill_line :: "'z constate_scheme \<Rightarrow> 'z constate_scheme" where
  "kill_line s =
     (if cons_e s \<noteq> cons_w s \<and> ring_at (cons_e s - 1) s \<noteq> 10
      then kill_line (consputc BACKSPACE (s\<lparr>cons_e := cons_e s - 1\<rparr>))
      else s)"
  by pat_completeness auto
termination
proof (relation "measure (\<lambda>s. unat (cons_e s - cons_w s))")
  fix s :: "'z constate_scheme"
  assume "cons_e s \<noteq> cons_w s \<and> ring_at (cons_e s - 1) s \<noteq> 10"
  then have "cons_e s - cons_w s \<noteq> 0" by simp
  then have "unat (cons_e s - cons_w s - 1) < unat (cons_e s - cons_w s)"
    by (rule measure_unat)
  then show "(consputc BACKSPACE (s\<lparr>cons_e := cons_e s - 1\<rparr>), s) \<in> measure (\<lambda>s. unat (cons_e s - cons_w s))"
    by (simp add: consputc_def uartputc_sync_def WriteReg_def diff_right_commute)
qed simp

declare kill_line.simps [simp del]

definition consoleintr :: "byte \<Rightarrow> 'z constate_scheme \<Rightarrow> (unit, 'z constate_scheme) res" where
  "consoleintr c s =
     (if c = 16 then procdump s
      else if c = 21 then Ok () (kill_line s)
      else if c = 8 \<or> c = 0x7f
      then Ok () (if cons_e s \<noteq> cons_w s then consputc BACKSPACE (s\<lparr>cons_e := cons_e s - 1\<rparr>) else s)
      else if c \<noteq> 0 \<and> cons_e s - cons_r s < 128
      then let c = (if c = 13 then 10 else c);
               s = consputc (uint c) s;
               s = s\<lparr>cons_buf := (cons_buf s)[unat (cons_e s) mod INPUT_BUF_SIZE := c], cons_e := cons_e s + 1\<rparr>
           in Ok () (if c = 10 \<or> c = 4 \<or> cons_e s - cons_r s = 128
                     then wakeup ChConsole (s\<lparr>cons_w := cons_e s\<rparr>) else s)
      else Ok () s)"

lemma kill_line_rx: "uart_rx (kill_line s) = uart_rx s"
  by (induction s rule: kill_line.induct) (subst kill_line.simps, simp add: consputc_backspace emit_def)

lemma consoleintr_rx: "consoleintr c s = Ok () t \<Longrightarrow> uart_rx t = uart_rx s"
  by (auto simp: consoleintr_def Let_def kill_line_rx consputc_backspace consputc_byte emit_def wakeup_def
      dest!: procdump_emits split: if_splits)

function uartintr_loop :: "'z constate_scheme \<Rightarrow> (unit, 'z constate_scheme) res" where
  "uartintr_loop s =
     (case uartgetc s of (c, s) \<Rightarrow>
        if c = - 1 then Ok () s
        else andthen (consoleintr (word_of_int c) s) (\<lambda>_ s. uartintr_loop s))"
  by pat_completeness auto
termination
  by (relation "measure (\<lambda>s. length (uart_rx s))")
    (auto simp: uartgetc_def dest!: consoleintr_rx split: list.splits)

declare uartintr_loop.simps [simp del]

text \<open>\<open>idle\<close> is what the line status register says of the transmitter.\<close>

definition uartintr :: "bool \<Rightarrow> 'z constate_scheme \<Rightarrow> (unit, 'z constate_scheme) res" where
  "uartintr idle s =
     (let s = (if idle then wakeup ChUart (s\<lparr>tx_busy := False\<rparr>) else s)
      in uartintr_loop s)"

definition consoleinit :: "'z constate_scheme \<Rightarrow> 'z constate_scheme" where
  "consoleinit s = (let s = uartinit s in s\<lparr>devsw := (devsw s)[CONSOLE := True]\<rparr>)"

section \<open>The line discipline\<close>

text \<open>
  The ring holds two queues: the characters of complete lines, which \<open>consoleread\<close> may take, and
  the line being edited.
\<close>

definition ring_seg :: "u32 \<Rightarrow> nat \<Rightarrow> 'z constate_scheme \<Rightarrow> byte list" where
  "ring_seg i n s = map (\<lambda>k. cons_buf s ! ((unat i + k) mod INPUT_BUF_SIZE)) [0..<n]"

definition committed :: "'z constate_scheme \<Rightarrow> byte list" where
  "committed s = ring_seg (cons_r s) (unat (cons_w s - cons_r s)) s"

definition editing :: "'z constate_scheme \<Rightarrow> byte list" where
  "editing s = ring_seg (cons_w s) (unat (cons_e s - cons_w s)) s"

definition cons_inv :: "'z constate_scheme \<Rightarrow> bool" where
  "cons_inv s \<longleftrightarrow> length (cons_buf s) = INPUT_BUF_SIZE \<and>
     unat (cons_w s - cons_r s) + unat (cons_e s - cons_w s) \<le> INPUT_BUF_SIZE \<and>
     10 \<notin> set (editing s)"

text \<open>The abstract line discipline on the two queues.\<close>

definition edit :: "byte \<Rightarrow> byte list \<times> byte list \<Rightarrow> byte list \<times> byte list" where
  "edit c q =
     (case q of (lines, cur_line) \<Rightarrow>
        if c = 16 then (lines, cur_line)
        else if c = 21 then (lines, [])
        else if c = 8 \<or> c = 0x7f then (lines, butlast cur_line)
        else if c \<noteq> 0 \<and> length lines + length cur_line < INPUT_BUF_SIZE
        then let c = (if c = 13 then 10 else c)
             in if c = 10 \<or> c = 4 \<or> length lines + length cur_line + 1 = INPUT_BUF_SIZE
                then (lines @ cur_line @ [c], []) else (lines, cur_line @ [c])
        else (lines, cur_line))"

lemma emit_cons [simp]:
  "cons_buf (emit bs s) = cons_buf s" "cons_r (emit bs s) = cons_r s" "cons_w (emit bs s) = cons_w s"
  "cons_e (emit bs s) = cons_e s"
  by (simp_all add: emit_def)

lemma wakeup_cons [simp]:
  "cons_buf (wakeup c s) = cons_buf s" "cons_r (wakeup c s) = cons_r s" "cons_w (wakeup c s) = cons_w s"
  "cons_e (wakeup c s) = cons_e s"
  by (simp_all add: wakeup_def)

lemma ring_cong:
  assumes "cons_buf t = cons_buf s" and "cons_r t = cons_r s" and "cons_w t = cons_w s" and "cons_e t = cons_e s"
  shows "committed t = committed s" and "editing t = editing s" and "cons_inv t = cons_inv s"
  using assms by (simp_all add: committed_def editing_def cons_inv_def ring_seg_def)

lemma ring_seg_split:
  "ring_seg r (n + m) s = ring_seg r n s @ ring_seg (r + of_nat n) m s"
proof -
  have "(unat (r + of_nat n) + k) mod 128 = (unat r + n + k) mod 128" for k
    using unat_add_mod_ring [of 7 r n] by (simp add: mod_add_left_eq [symmetric, of "unat (r + of_nat n)"] mod_add_left_eq)
  then show ?thesis by (intro nth_equalityI) (auto simp: ring_seg_def nth_append add.assoc)
qed

lemma ring_seg_Suc:
  "ring_seg r (Suc n) s = ring_seg r n s @ [ring_at (r + of_nat n) s]"
  using ring_seg_split [of r n 1 s] by (simp add: ring_seg_def ring_at_def)

lemma length_ring_seg [simp]: "length (ring_seg r n s) = n"
  by (simp add: ring_seg_def)

lemma ring_seg_upd:
  assumes "n < INPUT_BUF_SIZE"
  shows "ring_seg r n (s\<lparr>cons_buf := (cons_buf s)[unat (r + of_nat n) mod INPUT_BUF_SIZE := c], cons_e := e\<rparr>) = ring_seg r n s"
proof -
  have "unat (r + of_nat n) mod 128 \<noteq> (unat r + k) mod 128" if "k < n" for k
    using ring_positions_distinct [of k n 128 "unat r"] unat_add_mod_ring [of 7 r n] that assms by simp
  then show ?thesis by (auto simp: ring_seg_def)
qed

lemma ring_at_upd:
  assumes "length (cons_buf s) = INPUT_BUF_SIZE"
  shows "ring_at i (s\<lparr>cons_buf := (cons_buf s)[unat i mod INPUT_BUF_SIZE := c], cons_e := e\<rparr>) = c"
  using assms by (simp add: ring_at_def)

text \<open>The two queues together are one segment of the ring.\<close>

lemma queues_seg:
  "committed s @ editing s =
     ring_seg (cons_r s) (unat (cons_w s - cons_r s) + unat (cons_e s - cons_w s)) s"
  by (simp add: committed_def editing_def ring_seg_split)

lemma length_queues [simp]:
  "length (committed s) = unat (cons_w s - cons_r s)" "length (editing s) = unat (cons_e s - cons_w s)"
  by (simp_all add: committed_def editing_def)

lemma queues_room:
  assumes "cons_inv s"
  shows "unat (cons_e s - cons_r s) = unat (cons_w s - cons_r s) + unat (cons_e s - cons_w s)"
proof -
  have "cons_e s - cons_r s = (cons_w s - cons_r s) + (cons_e s - cons_w s)" by simp
  moreover have "unat (cons_w s - cons_r s) + unat (cons_e s - cons_w s) < 2 ^ 32"
    using assms by (simp add: cons_inv_def)
  ultimately show ?thesis by (simp only: unat_word_ariths) simp
qed

text \<open>Taking back the last character of the line.\<close>

lemma editing_back:
  assumes "cons_inv s" and "cons_e s \<noteq> cons_w s" and "t = emit bs (s\<lparr>cons_e := cons_e s - 1\<rparr>)"
  shows "cons_inv t" and "committed t = committed s" and "editing t = butlast (editing s)"
    and "last (editing s) = ring_at (cons_e s - 1) s" and "editing s \<noteq> []"
proof -
  define n where "n = unat (cons_e s - cons_w s - 1)"
  have "cons_e s - cons_w s \<noteq> 0" using assms(2) by simp
  then have n: "unat (cons_e s - cons_w s) = Suc n"
    using unat_gt_0 [of "cons_e s - cons_w s"] by (simp add: n_def unat_minus_one)
  have e: "cons_w s + of_nat n = cons_e s - 1" by (simp add: n_def)
  have ed: "editing s = ring_seg (cons_w s) n s @ [ring_at (cons_e s - 1) s]"
    by (simp add: editing_def n ring_seg_Suc e)
  have et: "editing t = ring_seg (cons_w s) n s"
    by (simp add: assms(3) editing_def ring_seg_def n_def diff_right_commute)
  show "editing t = butlast (editing s)" "last (editing s) = ring_at (cons_e s - 1) s" "editing s \<noteq> []"
    using ed et by simp_all
  show c: "committed t = committed s" by (simp add: assms(3) committed_def ring_seg_def)
  have "set (editing t) \<subseteq> set (editing s)" by (simp add: ed et) blast
  moreover have "unat (cons_e t - cons_w t) = n" by (simp add: assms(3) n_def diff_right_commute)
  ultimately show "cons_inv t"
    using assms(1) n by (auto simp: cons_inv_def assms(3))
qed

lemma kill_line_clears:
  assumes "cons_inv s"
  shows "cons_inv (kill_line s) \<and> committed (kill_line s) = committed s \<and> editing (kill_line s) = []"
  using assms
proof (induction s rule: kill_line.induct)
  case (1 s)
  show ?case
  proof (cases "cons_e s = cons_w s")
    case True
    then have "editing s = []" by (simp add: editing_def ring_seg_def)
    with True 1 show ?thesis by (simp add: kill_line.simps [of s])
  next
    case False
    note bk = editing_back [OF 1(2) False consputc_backspace]
    from bk(4,5) 1(2) have nl: "ring_at (cons_e s - 1) s \<noteq> 10"
      by (metis cons_inv_def last_in_set)
    with False have "kill_line s = kill_line (consputc BACKSPACE (s\<lparr>cons_e := cons_e s - 1\<rparr>))"
      by (subst kill_line.simps) simp
    with 1(1) False nl bk(1,2) show ?thesis by simp
  qed
qed

text \<open>Appending a character to the line.\<close>

lemma editing_put:
  assumes "cons_inv s" and "unat (cons_w s - cons_r s) + unat (cons_e s - cons_w s) < INPUT_BUF_SIZE"
    and "t = (emit bs s)\<lparr>cons_buf := (cons_buf s)[unat (cons_e s) mod INPUT_BUF_SIZE := c], cons_e := cons_e s + 1\<rparr>"
  shows "committed t = committed s" and "editing t = editing s @ [c]"
    and "unat (cons_e t - cons_r t) = unat (cons_w s - cons_r s) + unat (cons_e s - cons_w s) + 1"
proof -
  define n where "n = unat (cons_e s - cons_w s)"
  define m where "m = unat (cons_w s - cons_r s)"
  let ?u = "s\<lparr>cons_buf := (cons_buf s)[unat (cons_e s) mod INPUT_BUF_SIZE := c], cons_e := cons_e s + 1\<rparr>"
  have e: "cons_w s + of_nat n = cons_e s" "cons_r s + of_nat m = cons_w s"
    "cons_r s + of_nat (m + n) = cons_e s" by (simp_all add: n_def m_def)
  have nm: "m + n < 128" and len: "length (cons_buf s) = 128" using assms(1,2) by (simp_all add: n_def m_def cons_inv_def)
  have seg: "ring_seg i k t = ring_seg i k ?u" for i k by (simp add: assms(3) ring_seg_def)
  have tf: "cons_r t = cons_r s" "cons_w t = cons_w s" "cons_e t = cons_e s + 1" by (simp_all add: assms(3))
  have "ring_seg (cons_r s) (m + n) ?u = ring_seg (cons_r s) (m + n) s"
    using ring_seg_upd [where n = "m + n" and r = "cons_r s" and s = s and c = c and e = "cons_e s + 1"] nm by (simp only: e(3))
  then have old: "ring_seg (cons_r s) m ?u = ring_seg (cons_r s) m s" "ring_seg (cons_w s) n ?u = ring_seg (cons_w s) n s"
    by (simp_all add: ring_seg_split e(2))
  show "committed t = committed s" using old(1) by (simp add: committed_def seg tf flip: m_def)
  have small: "unat (of_nat k :: u32) = k" if "k \<le> 128" for k
    using that by (simp add: unat_of_nat take_bit_eq_mod)
  have "cons_e t - cons_w t = of_nat (Suc n)" by (simp add: assms(3) n_def)
  moreover have "unat (of_nat (Suc n) :: u32) = Suc n" using nm by (intro small) simp
  ultimately have "unat (cons_e t - cons_w t) = Suc n" by simp
  then have "editing t = ring_seg (cons_w s) (Suc n) ?u" by (simp add: editing_def seg tf del: diff_add_eq)
  moreover have "ring_at (cons_e s) ?u = c" using len by (simp add: ring_at_def)
  ultimately show "editing t = editing s @ [c]" using old(2) by (simp add: ring_seg_Suc e(1) editing_def flip: n_def)
  have "cons_e t - cons_r t = of_nat (m + n + 1)" using e(3) by (simp add: assms(3) algebra_simps)
  then show "unat (cons_e t - cons_r t) = unat (cons_w s - cons_r s) + unat (cons_e s - cons_w s) + 1"
    using small [of "m + n + 1"] nm by (simp only: n_def [symmetric] m_def [symmetric])
qed

lemma editing_room: "cons_inv s \<Longrightarrow> cons_e s - cons_r s < 128 \<longleftrightarrow>
    length (committed s) + length (editing s) < INPUT_BUF_SIZE"
  using queues_room [of s] by (simp add: word_less_nat_alt)

text \<open>Ending the line makes its characters available.\<close>

lemma commit_line:
  assumes "unat (cons_e s - cons_r s) = unat (cons_w s - cons_r s) + unat (cons_e s - cons_w s)"
  shows "committed (s\<lparr>cons_w := cons_e s\<rparr>) = committed s @ editing s" and "editing (s\<lparr>cons_w := cons_e s\<rparr>) = []"
proof -
  show "committed (s\<lparr>cons_w := cons_e s\<rparr>) = committed s @ editing s"
    using assms unfolding queues_seg by (simp add: committed_def ring_seg_def)
qed (simp add: editing_def ring_seg_def)

lemma consoleintr_char:
  assumes "cons_inv s" and "cons_e s - cons_r s < 128" and "c \<notin> {16, 21, 8, 0x7f, 0}"
    and "consoleintr c s = Ok () t"
  shows "cons_inv t \<and> (committed t, editing t) = edit c (committed s, editing s)"
proof -
  define d where "d = (if c = 13 then 10 else c)"
  define u where "u = (emit [d] s)\<lparr>cons_buf := (cons_buf s)[unat (cons_e s) mod INPUT_BUF_SIZE := d], cons_e := cons_e s + 1\<rparr>"
  let ?n = "length (committed s) + length (editing s)"
  have room: "?n < INPUT_BUF_SIZE" using editing_room [OF assms(1)] assms(2) by simp
  note put = editing_put [OF assms(1) room [unfolded length_queues] u_def]
  have eor: "cons_e u - cons_r u = 128 \<longleftrightarrow> ?n + 1 = INPUT_BUF_SIZE"
    using put(3) by (simp add: word_unat_eq_iff)
  have len: "length (cons_buf u) = 128" using assms(1) by (simp add: u_def cons_inv_def)
  have "consoleintr c s = Ok () (if d = 10 \<or> d = 4 \<or> cons_e u - cons_r u = 128
      then wakeup ChConsole (u\<lparr>cons_w := cons_e u\<rparr>) else u)"
    using assms(2,3) by (simp add: consoleintr_def consputc_byte Let_def u_def flip: d_def)
  with assms(4) eor have ends: "t = (if d = 10 \<or> d = 4 \<or> ?n + 1 = INPUT_BUF_SIZE then wakeup ChConsole (u\<lparr>cons_w := cons_e u\<rparr>) else u)"
    by simp
  have tot: "unat (cons_e u - cons_r u) = unat (cons_w u - cons_r u) + unat (cons_e u - cons_w u)"
    using put by (metis One_nat_def length_append length_queues list.size(3,4) add.assoc plus_nat.add_0)
  show ?thesis
  proof (cases "d = 10 \<or> d = 4 \<or> ?n + 1 = INPUT_BUF_SIZE")
    case True
    let ?v = "u\<lparr>cons_w := cons_e u\<rparr>"
    have q: "committed t = committed s @ editing s @ [d]" "editing t = []"
      using ring_cong(1,2) [of t ?v] commit_line [OF tot] put ends True by simp_all
    moreover have "cons_inv t" using q(2) len put(3) room ends True by (simp add: cons_inv_def)
    ultimately show ?thesis using True room assms(3) by (auto simp: edit_def d_def)
  next
    case False
    then have t: "t = u" using ends by simp
    moreover have "cons_inv u" using len tot put room False assms(1) by (simp add: cons_inv_def)
    ultimately show ?thesis using False room assms(3) put by (auto simp: edit_def d_def)
  qed
qed

text \<open>C37: The interrupt handler of the console implements a line editor on two queues, the characters
  of complete lines and the line being typed, although it works on three wrapping 32-bit indices
  into one ring of 128 bytes: control-U drops the line, backspace its last character, a carriage
  return counts as a newline, and a newline, control-D or a full ring hands the line to the
  readers. The ring never overflows: characters beyond its 128 are dropped.\<close>

theorem consoleintr_edits_line:
  assumes "cons_inv s" and "consoleintr c s = Ok () t"
  shows "cons_inv t \<and> (committed t, editing t) = edit c (committed s, editing s)"
proof -
  consider (dump) "c = 16" | (kill) "c = 21" | (bs) "c = 8 \<or> c = 0x7f"
    | (full) "c \<notin> {16, 21, 8, 0x7f}" "c = 0 \<or> \<not> cons_e s - cons_r s < 128"
    | (char) "c \<notin> {16, 21, 8, 0x7f}" "c \<noteq> 0" "cons_e s - cons_r s < 128" by auto
  then show ?thesis
  proof cases
    case dump
    with assms(2) obtain bs where "t = emit bs s" by (auto simp: consoleintr_def dest: procdump_emits)
    then show ?thesis using dump assms(1) ring_cong [of t s] by (simp add: edit_def)
  next
    case kill
    with assms kill_line_clears [of s] show ?thesis by (auto simp: consoleintr_def edit_def)
  next
    case bs
    show ?thesis
    proof (cases "cons_e s = cons_w s")
      case True
      then have "editing s = []" by (simp add: editing_def ring_seg_def)
      with True bs assms show ?thesis by (auto simp: consoleintr_def edit_def)
    next
      case False
      with bs assms(2) have "t = emit [8, 32, 8] (s\<lparr>cons_e := cons_e s - 1\<rparr>)"
        by (auto simp: consoleintr_def consputc_backspace)
      from editing_back [OF assms(1) False this] bs show ?thesis by (auto simp: edit_def)
    qed
  next
    case full
    with assms editing_room [of s] show ?thesis by (auto simp: consoleintr_def edit_def)
  next
    case char
    with consoleintr_char [OF assms(1) _ _ assms(2)] show ?thesis by simp
  qed
qed

text \<open>An idle console whose indices are about to wrap.\<close>

definition demo_console :: constate where
  "demo_console = \<lparr>mem = (\<lambda>_. 0), freelist = 0, kend = 0x80021000, etext = 0x80008000, trampoline = 0x80007000,
     procs = [idle_proc], cur = None, nextpid = 2, initproc = Some 0, ticks = 0, forkret_pc = 0x80002000,
     bufs = [], lru = [], disk = (\<lambda>_. replicate BSIZE 0), dwrites = [],
     log_start = 2, log_outstanding = 0, log_committing = False, log_dev = 1, lh_n = 0, lh_block = replicate LOGBLOCKS 0,
     sb = \<lparr>sb_magic = FSMAGIC, sb_size = 2000, sb_nblocks = 1954, sb_ninodes = 200, sb_nlog = 31, sb_logstart = 2,
           sb_inodestart = 33, sb_bmapstart = 46\<rparr>, itable = [],
     uart_w = [], uart_rx = [], tx_busy = False,
     cons_buf = 120 # replicate 126 0 @ [111], cons_r = 0xFFFFFFFF, cons_w = 0xFFFFFFFF, cons_e = 1, devsw = replicate NDEV False\<rparr>"

theorem consoleintr_edits_line_witness:
  "\<exists>t. consoleintr 13 demo_console = Ok () t \<and> committed t = [111, 120, 10] \<and> editing t = []"
proof -
  have inv: "cons_inv demo_console" "committed demo_console = []" "editing demo_console = [111, 120]"
    by (simp_all add: cons_inv_def committed_def editing_def demo_console_def ring_seg_def nth_append upt_rec)
  obtain t where t: "consoleintr 13 demo_console = Ok () t" by (auto simp: consoleintr_def Let_def demo_console_def)
  from consoleintr_edits_line [OF inv(1) t] t show ?thesis by (simp add: inv edit_def)
qed

end
