(* ===== verification/Uspace.thy ===== *)
theory Uspace
  imports Vm
begin

text \<open>
  User address spaces. A page table in memory defines a partial function from virtual addresses to
  bytes, \<open>ubyte\<close>; an address space is well formed (\<open>aspace\<close>) if its user pages are distinct and none
  of them is a page of the table itself. The lemmas show that \<open>copyin\<close> and \<open>copyout\<close> are a read and an
  update of that function, whatever pages the range spans, and that \<open>copyout\<close> respects the
  write permission.
\<close>

section \<open>Translation\<close>

fun pte_from :: "nat \<Rightarrow> memory \<Rightarrow> u64 \<Rightarrow> u64 \<Rightarrow> u64 option" where
  "pte_from 0 m pt va = Some (pt + 8 * PX 0 va)"
| "pte_from (Suc l) m pt va =
     (let v = load64 m (pt + 8 * PX (Suc l) va)
      in if v AND PTE_V \<noteq> 0 then pte_from l m (PTE2PA v) va else None)"

fun tables_from :: "nat \<Rightarrow> memory \<Rightarrow> u64 \<Rightarrow> u64 \<Rightarrow> u64 list" where
  "tables_from 0 m pt va = [pt]"
| "tables_from (Suc l) m pt va =
     pt # (let v = load64 m (pt + 8 * PX (Suc l) va)
           in if v AND PTE_V \<noteq> 0 then tables_from l m (PTE2PA v) va else [])"

text \<open>The entry of a user page, and the byte at a user address.\<close>

definition upage :: "memory \<Rightarrow> u64 \<Rightarrow> u64 \<Rightarrow> u64 option" where
  "upage m pt va =
     (if va \<ge> MAXVA then None
      else (case pte_from 2 m pt va of
              None \<Rightarrow> None
            | Some a \<Rightarrow>
                let v = load64 m a
                in if a = 0 \<or> v AND PTE_V = 0 \<or> v AND PTE_U = 0 then None else Some v))"

definition uaddr :: "memory \<Rightarrow> u64 \<Rightarrow> u64 \<Rightarrow> u64 option" where
  "uaddr m pt va = map_option (\<lambda>v. PTE2PA v + (va - PGROUNDDOWN va)) (upage m pt (PGROUNDDOWN va))"

definition ubyte :: "memory \<Rightarrow> u64 \<Rightarrow> u64 \<Rightarrow> byte option" where
  "ubyte m pt va = map_option m (uaddr m pt va)"

definition uwritable :: "memory \<Rightarrow> u64 \<Rightarrow> u64 \<Rightarrow> bool" where
  "uwritable m pt va \<longleftrightarrow> (case upage m pt (PGROUNDDOWN va) of None \<Rightarrow> False | Some v \<Rightarrow> v AND PTE_W \<noteq> 0)"

definition aspace :: "memory \<Rightarrow> u64 \<Rightarrow> bool" where
  "aspace m pt \<longleftrightarrow>
     aligned pt \<and>
     (\<forall>va v. upage m pt va = Some v \<longrightarrow>
        PTE2PA v \<noteq> 0 \<and> (\<forall>va'. PTE2PA v \<notin> set (tables_from 2 m pt va')) \<and>
        (\<forall>va' v'. upage m pt va' = Some v' \<longrightarrow> PTE2PA v' = PTE2PA v \<longrightarrow> PGROUNDDOWN va' = PGROUNDDOWN va))"

lemma aligned_PTE2PA [simp]: "aligned (PTE2PA v)"
proof -
  have "PTE2PA v mod 2 ^ 12 = take_bit 12 (PTE2PA v)" by (rule take_bit_eq_mod [symmetric])
  also have "\<dots> = 0" by (simp add: PTE2PA_def take_bit_push_bit)
  finally show ?thesis by (simp add: aligned_def)
qed

lemma PX_bound: "unat (PX l va) < 512"
proof -
  have "PX l va = take_bit 9 (drop_bit (12 + 9 * l) va)"
    by (simp add: PX_def take_bit_eq_mask mask_eq_exp_minus_1)
  then have "unat (PX l va) = take_bit 9 (unat (drop_bit (12 + 9 * l) va))"
    by (simp add: unsigned_take_bit_eq)
  then show ?thesis using take_bit_nat_less_exp [of 9] by simp
qed

lemma walk_from_no_alloc:
  "walk_from l pt va False s = Ok (case pte_from l (mem s) pt va of None \<Rightarrow> 0 | Some a \<Rightarrow> a) s"
  by (induction l arbitrary: pt) (simp_all add: Let_def)

lemma walk_no_alloc:
  "va < MAXVA \<Longrightarrow> walk pt va False s = Ok (case pte_from 2 (mem s) pt va of None \<Rightarrow> 0 | Some a \<Rightarrow> a) s"
  by (simp add: walk_def walk_from_no_alloc)

lemma walkaddr_upage:
  "walkaddr pt va s = Ok (case upage (mem s) pt va of None \<Rightarrow> 0 | Some v \<Rightarrow> PTE2PA v) s"
  by (auto simp: walkaddr_def upage_def walk_no_alloc Let_def split: option.splits)

section \<open>Frames\<close>

definition same_tables :: "memory \<Rightarrow> memory \<Rightarrow> u64 list \<Rightarrow> bool" where
  "same_tables m m' ps \<longleftrightarrow> (\<forall>p \<in> set ps. \<forall>x. in_page p x \<longrightarrow> m' x = m x)"

lemma entry_in_page: "i < 8 \<Longrightarrow> in_page pt (pt + 8 * PX l va + of_nat i)"
proof -
  assume i: "i < 8"
  have e: "unat (8 * PX l va) = 8 * unat (PX l va)"
    using unat_mult_lem [THEN iffD1, of "8 :: u64" "PX l va"] PX_bound [of l va] by simp
  then have "unat (8 * PX l va + of_nat i) = 8 * unat (PX l va) + i"
    using PX_bound [of l va] i by (subst unat_add_of_nat) simp_all
  moreover have "pt + 8 * PX l va + of_nat i - pt = 8 * PX l va + of_nat i" by simp
  ultimately show ?thesis using PX_bound [of l va] i by (simp only: in_page_def)
qed

lemma entry_frame:
  "\<forall>x. in_page pt x \<longrightarrow> m' x = m x \<Longrightarrow> load64 m' (pt + 8 * PX l va) = load64 m (pt + 8 * PX l va)"
  by (rule load64_cong) (simp add: entry_in_page)

lemma pte_from_frame:
  "same_tables m m' (tables_from l m pt va) \<Longrightarrow>
     pte_from l m' pt va = pte_from l m pt va \<and> tables_from l m' pt va = tables_from l m pt va"
proof (induction l arbitrary: pt)
  case (Suc l)
  then have "load64 m' (pt + 8 * PX (Suc l) va) = load64 m (pt + 8 * PX (Suc l) va)"
    by (intro entry_frame) (simp add: same_tables_def)
  with Suc show ?case by (auto simp: same_tables_def Let_def)
qed simp

lemma pte_from_in_table:
  "pte_from l m pt va = Some a \<Longrightarrow> \<exists>p \<in> set (tables_from l m pt va). a = p + 8 * PX 0 va"
  by (induction l arbitrary: pt) (auto simp: Let_def split: if_splits)

lemma upage_frame:
  assumes "same_tables m m' (tables_from 2 m pt va)"
  shows "upage m' pt va = upage m pt va"
proof -
  have p: "pte_from 2 m' pt va = pte_from 2 m pt va" using pte_from_frame [OF assms] by blast
  have "load64 m' a = load64 m a" if "pte_from 2 m pt va = Some a" for a
    using pte_from_in_table [OF that] assms by (auto simp: same_tables_def intro: entry_frame)
  then show ?thesis by (simp add: upage_def p split: option.split)
qed

section \<open>Ranges of user addresses\<close>

lemma unat_in_page: "unat (va :: u64) mod 4096 + k < 4096 \<Longrightarrow> unat (va + of_nat k) = unat va + k"
proof (rule unat_add_of_nat)
  assume k: "unat va mod 4096 + k < 4096"
  have "unat va div 4096 < 4503599627370496" using unat_u64_less [of va] by (simp add: less_mult_imp_div_less)
  moreover have "unat va = 4096 * (unat va div 4096) + unat va mod 4096" by simp
  ultimately have "unat va + k < 18446744073709551616" using k by linarith
  then show "unat va + k < 2 ^ LENGTH(64)" by simp
qed

lemma PGROUNDDOWN_add:
  "unat va mod 4096 + k < 4096 \<Longrightarrow> PGROUNDDOWN (va + of_nat k) = PGROUNDDOWN va"
proof -
  assume k: "unat va mod 4096 + k < 4096"
  have "unat va + k = (unat va mod 4096 + k) + 4096 * (unat va div 4096)" by simp
  also have "\<dots> div 4096 = unat va div 4096" using k by (simp only: div_mult_self2)
  finally have "(unat va + k) div 4096 = unat va div 4096" .
  then show ?thesis
    by (intro word_unat_eq_iff [THEN iffD2]) (simp add: unat_PGROUNDDOWN unat_in_page [OF k])
qed

lemma PGROUNDDOWN_idem [simp]: "PGROUNDDOWN (PGROUNDDOWN va) = PGROUNDDOWN va"
  by (intro word_unat_eq_iff [THEN iffD2]) (simp add: unat_PGROUNDDOWN)

lemma next_page_addr:
  assumes "n = 4096 - unat va mod 4096" and "unat va + n \<le> 2 ^ 38"
  shows "PGROUNDDOWN va + PGSIZE = va + of_nat n"
proof (rule word_unat_eq_iff [THEN iffD2])
  have "unat va mod 4096 < 4096" by simp
  then have "4096 * (unat va div 4096) + 4096 = unat va + n" using assms(1) by (simp add: minus_mod_eq_mult_div [symmetric])
  moreover have "unat (va + of_nat n) = unat va + n" using assms(2) by (intro unat_add_of_nat) simp
  moreover have "unat (PGROUNDDOWN va + PGSIZE) = 4096 * (unat va div 4096) + 4096"
    using assms calculation(1) by (subst unat_add_small) (simp_all add: unat_PGROUNDDOWN)
  ultimately show "unat (PGROUNDDOWN va + PGSIZE) = unat (va + of_nat n)" by simp
qed

lemma uaddr_in_page:
  assumes "unat va mod 4096 + k < 4096"
  shows "uaddr m pt (va + of_nat k) = map_option (\<lambda>v. PTE2PA v + (va - PGROUNDDOWN va) + of_nat k) (upage m pt (PGROUNDDOWN va))"
  by (simp add: uaddr_def PGROUNDDOWN_add [OF assms] algebra_simps)

lemma aspaceD:
  assumes "aspace m pt" and "upage m pt va = Some v"
  shows "PTE2PA v \<noteq> 0" and "PTE2PA v \<notin> set (tables_from 2 m pt va')"
    and "upage m pt va' = Some v' \<Longrightarrow> PTE2PA v' = PTE2PA v \<Longrightarrow> PGROUNDDOWN va' = PGROUNDDOWN va"
  using assms unfolding aspace_def by blast+

section \<open>Reading\<close>

definition uread :: "memory \<Rightarrow> u64 \<Rightarrow> u64 \<Rightarrow> byte list \<Rightarrow> bool" where
  "uread m pt va bs \<longleftrightarrow> unat va + length bs \<le> 2 ^ 38 \<and> (\<forall>k < length bs. ubyte m pt (va + of_nat k) = Some (bs ! k))"

lemma uread_drop:
  assumes "uread m pt va bs" and "n \<le> length bs"
  shows "uread m pt (va + of_nat n) (drop n bs)"
proof -
  have "unat (va + of_nat n) = unat va + n" using assms by (intro unat_add_of_nat) (auto simp: uread_def)
  moreover have "ubyte m pt (va + of_nat n + of_nat k) = Some (drop n bs ! k)" if "k < length bs - n" for k
  proof -
    have "ubyte m pt (va + of_nat (n + k)) = Some (bs ! (n + k))"
      using assms(1) [unfolded uread_def, THEN conjunct2, rule_format, of "n + k"] that by simp
    then show ?thesis using assms(2) by (simp add: add.assoc)
  qed
  ultimately show ?thesis using assms by (auto simp: uread_def)
qed

lemma uread_page:
  assumes "uread m pt va bs" and "bs \<noteq> []" and "n = min (length bs) (4096 - unat va mod 4096)"
  obtains v where "upage m pt (PGROUNDDOWN va) = Some v"
    and "mem_read m (PTE2PA v + (va - PGROUNDDOWN va)) n = take n bs"
proof -
  have k: "ubyte m pt (va + of_nat k) = Some (bs ! k)" "unat va mod 4096 + k < 4096" if "k < n" for k
    using assms that by (auto simp: uread_def)
  have "0 < n" using assms(2,3) by (simp add: mod_less_divisor)
  from k(1) [OF this] obtain v where v: "upage m pt (PGROUNDDOWN va) = Some v"
    by (auto simp: ubyte_def uaddr_def)
  have "mem_read m (PTE2PA v + (va - PGROUNDDOWN va)) n = take n bs"
  proof (rule nth_equalityI)
    fix i assume "i < length (mem_read m (PTE2PA v + (va - PGROUNDDOWN va)) n)"
    then have i: "i < n" by simp
    have "ubyte m pt (va + of_nat i) = Some (m (PTE2PA v + (va - PGROUNDDOWN va) + of_nat i))"
      by (simp add: ubyte_def uaddr_in_page [OF k(2) [OF i]] v)
    with k(1) [OF i] i show "mem_read m (PTE2PA v + (va - PGROUNDDOWN va)) n ! i = take n bs ! i" by simp
  qed (use assms(3) in simp)
  with v that show thesis by blast
qed

lemma copyin_loop_reads:
  assumes "aspace (mem s) pt" and "uread (mem s) pt va bs"
  shows "copyin_loop pt dst va (of_nat (length bs)) s = Ok (0, dst @ bs) s"
  using assms(2)
proof (induction "length bs" arbitrary: bs va dst rule: less_induct)
  case less
  have len: "length bs \<le> 2 ^ 38" using less.prems by (simp add: uread_def)
  show ?case
  proof (cases "bs = []")
    case True
    then show ?thesis by (simp add: copyin_loop.simps)
  next
    case False
    define n where "n = min (length bs) (4096 - unat va mod 4096)"
    have u: "unat (of_nat (length bs) :: u64) = length bs" using len by (intro unat_of_nat_small) simp
    then have pp: "page_part va (of_nat (length bs)) = of_nat n" "unat (of_nat n :: u64) = n"
      using len by (auto simp: n_def unat_page_part unat_of_nat_small intro: unat_eq_of_nat)
    have n: "n \<le> length bs" "0 < n" using False by (auto simp: n_def)
    obtain v where v: "upage (mem s) pt (PGROUNDDOWN va) = Some v"
      "mem_read (mem s) (PTE2PA v + (va - PGROUNDDOWN va)) n = take n bs"
      using uread_page [OF less.prems False n_def] by blast
    have rest: "copyin_loop pt (dst @ take n bs) (va + of_nat n) (of_nat (length bs - n)) s = Ok (0, dst @ bs) s"
      using less.hyps [of "drop n bs" "va + of_nat n" "dst @ take n bs"] uread_drop [OF less.prems n(1)] n False
      by simp
    have step: "copyin_loop pt dst va (of_nat (length bs)) s =
        copyin_loop pt (dst @ take n bs) (PGROUNDDOWN va + PGSIZE) (of_nat (length bs - n)) s"
      using False u aspaceD(1) [OF assms(1) v(1)] v n
      by (subst copyin_loop.simps) (simp add: walkaddr_upage pp Let_def word_less_nat_alt of_nat_diff)
    show ?thesis
    proof (cases "n = length bs")
      case True
      with step show ?thesis by (simp add: copyin_loop.simps)
    next
      case False
      then have "PGROUNDDOWN va + PGSIZE = va + of_nat n"
        using less.prems n(1) by (intro next_page_addr) (auto simp: n_def uread_def)
      with step rest show ?thesis by simp
    qed
  qed
qed

lemma copyin_reads:
  "aspace (mem s) pt \<Longrightarrow> uread (mem s) pt va bs \<Longrightarrow> copyin pt va (of_nat (length bs)) s = Ok (0, bs) s"
  by (simp add: copyin_def copyin_loop_reads)

section \<open>Writing\<close>

definition upd_user :: "memory \<Rightarrow> u64 \<Rightarrow> u64 \<Rightarrow> byte list \<Rightarrow> memory \<Rightarrow> bool" where
  "upd_user m pt va bs m' \<longleftrightarrow>
     (\<forall>va'. upage m' pt va' = upage m pt va' \<and> tables_from 2 m' pt va' = tables_from 2 m pt va') \<and>
     (\<forall>va'. ubyte m' pt va' = (if unat (va' - va) < length bs then Some (bs ! unat (va' - va)) else ubyte m pt va')) \<and>
     (\<forall>x. (\<forall>va'. uaddr m pt va' \<noteq> Some x) \<longrightarrow> m' x = m x)"

lemma upd_user_refl [simp]: "upd_user m pt va [] m"
  by (simp add: upd_user_def)

lemma upd_user_aspace: "upd_user m pt va bs m' \<Longrightarrow> aspace m' pt = aspace m pt"
  by (simp add: upd_user_def aspace_def)

lemma upd_user_uaddr: "upd_user m pt va bs m' \<Longrightarrow> uaddr m' pt va' = uaddr m pt va'"
  by (simp add: upd_user_def uaddr_def)

lemma upd_user_writable: "upd_user m pt va bs m' \<Longrightarrow> uwritable m' pt va' = uwritable m pt va'"
  by (simp add: upd_user_def uwritable_def)

lemma upd_user_trans:
  assumes "upd_user m pt va as m1" and "upd_user m1 pt (va + of_nat (length as)) bs m2"
    and "unat va + length as + length bs \<le> 2 ^ 38"
  shows "upd_user m pt va (as @ bs) m2"
proof -
  have "ubyte m2 pt va' = (if unat (va' - va) < length (as @ bs) then Some ((as @ bs) ! unat (va' - va)) else ubyte m pt va')"
    for va'
  proof -
    have d: "va' - va = (va' - (va + of_nat (length as))) + of_nat (length as)" by simp
    have lt: "unat (va' - va) = unat (va' - (va + of_nat (length as))) + length as"
      if "unat (va' - (va + of_nat (length as))) < length bs"
      unfolding d using that assms(3) by (subst unat_add_of_nat) simp_all
    have gt: "unat (va' - (va + of_nat (length as))) = unat (va' - va) - length as"
      if "length as \<le> unat (va' - va)"
    proof -
      have u: "unat (of_nat (length as) :: u64) = length as" using assms(3) by (intro unat_of_nat_small) simp
      have "unat ((va' - va) - of_nat (length as)) = unat (va' - va) - unat (of_nat (length as) :: u64)"
        using that u by (intro unat_sub) (simp add: word_le_nat_alt)
      then show ?thesis by (simp add: u algebra_simps)
    qed
    show ?thesis
      using assms(1,2) lt gt
      by (cases "unat (va' - va) < length as") (auto simp: upd_user_def nth_append)
  qed
  moreover have "m2 x = m x" if "\<forall>va'. uaddr m pt va' \<noteq> Some x" for x
    using that assms(1,2) upd_user_uaddr [OF assms(1)] by (auto simp: upd_user_def)
  ultimately show ?thesis using assms(1,2) by (auto simp: upd_user_def)
qed

lemma page_offset_addr:
  assumes "unat va mod 4096 + k < 4096" and "aligned p"
  shows "in_page p (p + (va - PGROUNDDOWN va) + of_nat k)"
proof -
  have "p + (va - PGROUNDDOWN va) + of_nat k - p = (va - PGROUNDDOWN va) + of_nat k" by simp
  moreover have "unat ((va - PGROUNDDOWN va) + of_nat k) = unat va mod 4096 + k"
    using assms(1) by (subst unat_add_of_nat) (simp_all add: offset_in_page)
  ultimately show ?thesis using assms(1) by (simp only: in_page_def)
qed

lemma in_range_same_page:
  assumes "unat (va' - va) < n" and "unat va mod 4096 + n \<le> 4096"
  shows "PGROUNDDOWN va' = PGROUNDDOWN va" and "va' = va + of_nat (unat (va' - va))"
proof -
  show e: "va' = va + of_nat (unat (va' - va))" by simp
  show "PGROUNDDOWN va' = PGROUNDDOWN va"
    by (subst e, rule PGROUNDDOWN_add) (use assms in simp)
qed

lemma page_write_upd:
  assumes "aspace m pt" and v: "upage m pt (PGROUNDDOWN va) = Some v"
    and bs: "unat va mod 4096 + length bs \<le> 4096"
  shows "upd_user m pt va bs (mem_write m (PTE2PA v + (va - PGROUNDDOWN va)) bs)"
proof -
  let ?a = "PTE2PA v + (va - PGROUNDDOWN va)"
  let ?m = "mem_write m ?a bs"
  have other: "?m x = m x" if "\<not> in_page (PTE2PA v) x" for x
  proof (rule ccontr)
    assume "?m x \<noteq> m x"
    then have lt: "unat (x - ?a) < length bs" by (auto simp: mem_write_def split: if_splits)
    have "in_page (PTE2PA v) (?a + of_nat (unat (x - ?a)))"
      using lt bs by (intro page_offset_addr) auto
    with that show False by simp
  qed
  have tb: "same_tables m ?m (tables_from 2 m pt va')" for va'
    unfolding same_tables_def
  proof (intro ballI allI impI)
    fix p x assume p: "p \<in> set (tables_from 2 m pt va')" and x: "in_page p x"
    have "p \<noteq> PTE2PA v" using aspaceD(2) [OF assms(1) v] p by metis
    moreover have "aligned p" using p assms(1)
      by (auto simp: aspace_def numeral_2_eq_2 Let_def split: if_splits)
    ultimately have "\<not> in_page (PTE2PA v) x" using pages_disjoint x by (metis aligned_PTE2PA)
    then show "?m x = m x" by (rule other)
  qed
  have up: "upage ?m pt va' = upage m pt va'" for va' using upage_frame [OF tb] .
  have tab: "tables_from 2 ?m pt va' = tables_from 2 m pt va'" for va' using pte_from_frame [OF tb] by blast
  have ub: "ubyte ?m pt va' = (if unat (va' - va) < length bs then Some (bs ! unat (va' - va)) else ubyte m pt va')" for va'
  proof (cases "upage m pt (PGROUNDDOWN va')")
    case None
    then have "\<not> unat (va' - va) < length bs" using in_range_same_page(1) [OF _ bs] v by auto
    with None show ?thesis by (simp add: ubyte_def uaddr_def up)
  next
    case (Some v')
    show ?thesis
    proof (cases "PTE2PA v' = PTE2PA v")
      case True
      then have "PGROUNDDOWN va' = PGROUNDDOWN va" using aspaceD(3) [OF assms(1) v Some] by simp
      with Some v have "uaddr m pt va' = Some (?a + (va' - va))" by (simp add: uaddr_def algebra_simps)
      moreover have "uaddr ?m pt va' = uaddr m pt va'" by (simp add: uaddr_def up)
      ultimately show ?thesis by (simp add: ubyte_def mem_write_def)
    next
      case False
      then have nr: "\<not> unat (va' - va) < length bs" using in_range_same_page(1) [OF _ bs] v Some by auto
      have "in_page (PTE2PA v') (PTE2PA v' + (va' - PGROUNDDOWN va') + of_nat 0)"
        by (rule page_offset_addr) simp_all
      then have "\<not> in_page (PTE2PA v) (PTE2PA v' + (va' - PGROUNDDOWN va'))"
        using pages_disjoint [of "PTE2PA v'" "PTE2PA v"] False by simp
      with nr Some show ?thesis by (simp add: ubyte_def uaddr_def up other)
    qed
  qed
  have "?m x = m x" if x: "\<forall>va'. uaddr m pt va' \<noteq> Some x" for x
  proof (rule ccontr)
    assume "?m x \<noteq> m x"
    then have lt: "unat (x - ?a) < length bs" by (auto simp: mem_write_def split: if_splits)
    then have "uaddr m pt (va + of_nat (unat (x - ?a))) = Some (?a + of_nat (unat (x - ?a)))"
      using bs by (subst uaddr_in_page) (simp_all add: v)
    with x show False by simp
  qed
  with up tab ub show ?thesis by (simp add: upd_user_def)
qed

definition uwritable_range :: "memory \<Rightarrow> u64 \<Rightarrow> u64 \<Rightarrow> nat \<Rightarrow> bool" where
  "uwritable_range m pt va n \<longleftrightarrow> unat va + n \<le> 2 ^ 38 \<and> (\<forall>k < n. uwritable m pt (va + of_nat k))"

lemma uwritable_range_drop:
  assumes "uwritable_range m pt va n" and "k \<le> n"
  shows "uwritable_range m pt (va + of_nat k) (n - k)"
proof -
  have "unat (va + of_nat k) = unat va + k" using assms by (intro unat_add_of_nat) (auto simp: uwritable_range_def)
  moreover have "uwritable m pt (va + of_nat k + of_nat j)" if "j < n - k" for j
    using assms(1) [unfolded uwritable_range_def, THEN conjunct2, rule_format, of "k + j"] that by (simp add: add.assoc)
  ultimately show ?thesis using assms by (auto simp: uwritable_range_def)
qed

lemma upage_entry:
  "upage m pt va = Some v \<Longrightarrow> \<exists>a. pte_from 2 m pt va = Some a \<and> a \<noteq> 0 \<and> load64 m a = v \<and> va < MAXVA"
  by (auto simp: upage_def Let_def split: if_splits option.splits)

lemma copyout_step:
  assumes "aspace (mem s) pt" and "upage (mem s) pt (PGROUNDDOWN va) = Some v" and "v AND PTE_W \<noteq> 0" and "0 < len"
  shows "copyout_loop pt va src off len s =
    copyout_loop pt (PGROUNDDOWN va + PGSIZE) src (off + unat (page_part va len)) (len - page_part va len)
      (s\<lparr>mem := mem_write (mem s) (PTE2PA v + (va - PGROUNDDOWN va))
                 (map (\<lambda>i. src (off + i)) [0..<unat (page_part va len)])\<rparr>)"
proof -
  obtain a where a: "pte_from 2 (mem s) pt (PGROUNDDOWN va) = Some a" "a \<noteq> 0" "load64 (mem s) a = v"
    "PGROUNDDOWN va < MAXVA" using upage_entry [OF assms(2)] by blast
  show ?thesis
    using assms a aspaceD(1) [OF assms(1,2)]
    by (subst copyout_loop.simps) (simp add: walkaddr_upage walk_no_alloc Let_def linorder_not_le [symmetric])
qed

lemma copyout_loop_writes:
  assumes "aspace (mem s) pt" and "uwritable_range (mem s) pt va n"
  shows "\<exists>m'. copyout_loop pt va src off (of_nat n) s = Ok 0 (s\<lparr>mem := m'\<rparr>) \<and>
           upd_user (mem s) pt va (map (\<lambda>i. src (off + i)) [0..<n]) m'"
  using assms
proof (induction n arbitrary: s va off rule: less_induct)
  case (less n)
  show ?case
  proof (cases "n = 0")
    case True
    then show ?thesis by (auto simp: copyout_loop.simps intro: exI [of _ "mem s"])
  next
    case False
    define k where "k = min n (4096 - unat va mod 4096)"
    have n38: "unat va + n \<le> 2 ^ 38" using less.prems(2) by (simp add: uwritable_range_def)
    then have u: "unat (of_nat n :: u64) = n" "unat (of_nat k :: u64) = k"
      by (auto simp: k_def intro!: unat_of_nat_small)
    have pp: "page_part va (of_nat n) = of_nat k"
      by (rule unat_eq_of_nat) (simp add: unat_page_part u k_def)
    have k: "k \<le> n" "0 < k" "unat va mod 4096 + k \<le> 4096"
      using False by (auto simp: k_def min_def)
    have "uwritable (mem s) pt (va + of_nat 0)"
      using less.prems(2) False unfolding uwritable_range_def by blast
    then obtain v where v: "upage (mem s) pt (PGROUNDDOWN va) = Some v" "v AND PTE_W \<noteq> 0"
      by (auto simp: uwritable_def split: option.splits)
    let ?bs = "map (\<lambda>i. src (off + i)) [0..<k]"
    let ?m = "mem_write (mem s) (PTE2PA v + (va - PGROUNDDOWN va)) ?bs"
    have m: "upd_user (mem s) pt va ?bs ?m"
      using k(3) by (intro page_write_upd [OF less.prems(1) v(1)]) simp
    have "0 < (of_nat n :: u64)" using False u by (simp add: word_less_nat_alt)
    from copyout_step [OF less.prems(1) v this, of src off]
    have step: "copyout_loop pt va src off (of_nat n) s =
        copyout_loop pt (PGROUNDDOWN va + PGSIZE) src (off + k) (of_nat (n - k)) (s\<lparr>mem := ?m\<rparr>)"
      using k(1) by (simp add: pp u of_nat_diff)
    have split: "map (\<lambda>i. src (off + i)) [0..<n] = ?bs @ map (\<lambda>i. src (off + k + i)) [0..<n - k]"
      using k(1) by (intro nth_equalityI) (auto simp: nth_append)
    show ?thesis
    proof (cases "k = n")
      case True
      with step m show ?thesis by (auto simp: copyout_loop.simps)
    next
      case False
      then have nxt: "PGROUNDDOWN va + PGSIZE = va + of_nat k"
        using n38 k(1) by (intro next_page_addr) (auto simp: k_def)
      have "uwritable_range ?m pt (va + of_nat k) (n - k)"
        using uwritable_range_drop [OF less.prems(2) k(1)] upd_user_writable [OF m] by (simp add: uwritable_range_def)
      with less.IH [of "n - k" "s\<lparr>mem := ?m\<rparr>" "va + of_nat k" "off + k"] k upd_user_aspace [OF m] less.prems(1)
      obtain m' where m': "copyout_loop pt (va + of_nat k) src (off + k) (of_nat (n - k)) (s\<lparr>mem := ?m\<rparr>) = Ok 0 (s\<lparr>mem := m'\<rparr>)"
        "upd_user ?m pt (va + of_nat k) (map (\<lambda>i. src (off + k + i)) [0..<n - k]) m'"
        by auto
      have "upd_user (mem s) pt va (map (\<lambda>i. src (off + i)) [0..<n]) m'"
        unfolding split using n38 k m'(2) by (intro upd_user_trans [OF m]) auto
      with step nxt m'(1) show ?thesis by auto
    qed
  qed
qed

lemma copyout_writes:
  assumes "aspace (mem s) pt" and "uwritable_range (mem s) pt va (length bs)"
  shows "\<exists>m'. copyout pt va (at_list bs) (of_nat (length bs)) s = Ok 0 (s\<lparr>mem := m'\<rparr>) \<and> upd_user (mem s) pt va bs m'"
proof -
  have "map (\<lambda>i. at_list bs (0 + i)) [0..<length bs] = bs"
    by (intro nth_equalityI) (auto simp: at_list_def)
  with copyout_loop_writes [OF assms, of "at_list bs" 0] show ?thesis by (simp add: copyout_def)
qed

lemma upd_user_read:
  assumes "upd_user m pt va bs m'" and "unat va + length bs \<le> 2 ^ 38"
  shows "uread m' pt va bs"
proof -
  have "ubyte m' pt (va + of_nat k) = Some (bs ! k)" if "k < length bs" for k
  proof -
    have "unat (va + of_nat k - va) = k" using that assms(2) by (simp add: unat_of_nat_small)
    then show ?thesis using assms(1) that by (simp add: upd_user_def)
  qed
  with assms(2) show ?thesis by (simp add: uread_def)
qed

text \<open>C18: In a well-formed address space, copying bytes out to a writable range of user memory and
  copying the range in again returns the same bytes. The copy-out changes exactly the bytes of the
  range, whatever pages it spans: every other user byte, the translation of every address, and all
  physical memory that no user address refers to are as before.\<close>

theorem user_copy_round_trip:
  assumes "aspace (mem s) pt" and "uwritable_range (mem s) pt va (length bs)"
  shows "\<exists>m'. copyout pt va (at_list bs) (of_nat (length bs)) s = Ok 0 (s\<lparr>mem := m'\<rparr>) \<and>
           copyin pt va (of_nat (length bs)) (s\<lparr>mem := m'\<rparr>) = Ok (0, bs) (s\<lparr>mem := m'\<rparr>) \<and>
           (\<forall>va'. ubyte m' pt va' =
              (if unat (va' - va) < length bs then Some (bs ! unat (va' - va)) else ubyte (mem s) pt va')) \<and>
           (\<forall>va'. upage m' pt va' = upage (mem s) pt va') \<and>
           (\<forall>x. (\<forall>va'. uaddr (mem s) pt va' \<noteq> Some x) \<longrightarrow> m' x = mem s x)"
proof -
  obtain m' where m': "copyout pt va (at_list bs) (of_nat (length bs)) s = Ok 0 (s\<lparr>mem := m'\<rparr>)"
    "upd_user (mem s) pt va bs m'" using copyout_writes [OF assms] by blast
  have "uread m' pt va bs"
    using upd_user_read [OF m'(2)] assms(2) by (simp add: uwritable_range_def)
  moreover have "aspace m' pt" using upd_user_aspace [OF m'(2)] assms(1) by simp
  ultimately have "copyin pt va (of_nat (length bs)) (s\<lparr>mem := m'\<rparr>) = Ok (0, bs) (s\<lparr>mem := m'\<rparr>)"
    by (intro copyin_reads) simp_all
  with m' show ?thesis by (auto simp: upd_user_def)
qed

text \<open>C19: The kernel refuses bad user addresses and leaves the machine unchanged. A copy to a user page
  without write permission fails, a copy above the user address space fails, and a copy from or to
  an unmapped page beyond the size of the process fails, as does fetching a string there.\<close>

theorem copy_refuses_bad_addresses:
  assumes "0 < len"
  shows "(\<forall>v. upage (mem s) pt (PGROUNDDOWN va) = Some v \<and> PTE2PA v \<noteq> 0 \<and> v AND PTE_W = 0
            \<longrightarrow> copyout pt va src len s = Ok (- 1) s) \<and>
         (PGROUNDDOWN va \<ge> MAXVA \<longrightarrow> copyout pt va src len s = Ok (- 1) s \<and> copyinstr pt va len s = Ok (- 1, []) s) \<and>
         (upage (mem s) pt (PGROUNDDOWN va) = None \<and> p_sz (myproc s) \<le> PGROUNDDOWN va
            \<longrightarrow> copyout pt va src len s = Ok (- 1) s \<and> copyin pt va len s = Ok (- 1, []) s \<and>
                copyinstr pt va len s = Ok (- 1, []) s)"
proof -
  have prot: "copyout pt va src len s = Ok (- 1) s"
    if "upage (mem s) pt (PGROUNDDOWN va) = Some v" "PTE2PA v \<noteq> 0" "v AND PTE_W = 0" for v
    using upage_entry [OF that(1)] that assms
    by (auto simp: copyout_def copyout_loop.simps [of pt va] walkaddr_upage walk_no_alloc Let_def)
  have high: "upage (mem s) pt (PGROUNDDOWN va) = None" if "PGROUNDDOWN va \<ge> MAXVA"
    using that by (simp add: upage_def)
  have str: "copyinstr pt va len s = Ok (- 1, []) s" if "upage (mem s) pt (PGROUNDDOWN va) = None"
    using that assms by (simp add: copyinstr_def copyinstr_loop.simps [of pt _ va] walkaddr_upage Let_def)
  have "copyout pt va src len s = Ok (- 1) s" if "PGROUNDDOWN va \<ge> MAXVA"
    using that assms by (simp add: copyout_def copyout_loop.simps [of pt va] Let_def)
  moreover have "copyout pt va src len s = Ok (- 1) s \<and> copyin pt va len s = Ok (- 1, []) s"
    if "upage (mem s) pt (PGROUNDDOWN va) = None" "p_sz (myproc s) \<le> PGROUNDDOWN va"
    using that assms
    by (simp add: copyout_def copyin_def copyout_loop.simps [of pt va] copyin_loop.simps [of pt _ va]
        walkaddr_upage vmfault_def Let_def)
  ultimately show ?thesis using prot high str by blast
qed

section \<open>A one-page address space\<close>

lemma entry_store_other:
  assumes "aligned p" and "aligned q" and "p \<noteq> q"
  shows "load64 (store64 m q v) (p + 8 * PX l va) = load64 m (p + 8 * PX l va)"
proof (rule entry_frame, intro allI impI)
  fix x assume "in_page p x"
  then have "\<not> in_page q x" using assms pages_disjoint by blast
  then show "store64 m q v x = m x" by (intro store64_outside) (simp add: in_page_def)
qed

lemma entry_store_same:
  "load64 (store64 m p v) (p + 8 * PX l va) = (if PX l va = 0 then v else load64 m (p + 8 * PX l va))"
proof (cases "PX l va = 0")
  case False
  then have "0 < unat (PX l va)" by (simp add: unat_gt_0)
  have e: "unat (8 * PX l va) = 8 * unat (PX l va)"
    using unat_mult_lem [THEN iffD1, of "8 :: u64" "PX l va"] PX_bound [of l va] by simp
  have "store64 m p v (p + 8 * PX l va + of_nat i) = m (p + 8 * PX l va + of_nat i)" if "i < 8" for i
  proof (rule store64_outside)
    have "p + 8 * PX l va + of_nat i - p = 8 * PX l va + of_nat i" by simp
    moreover have "unat (8 * PX l va + of_nat i) = 8 * unat (PX l va) + i"
      using e PX_bound [of l va] that by (subst unat_add_of_nat) simp_all
    ultimately show "8 \<le> unat (p + 8 * PX l va + of_nat i - p)" using \<open>0 < unat (PX l va)\<close> by simp
  qed
  with False show ?thesis by (simp add: load64_cong [of "store64 m p v" _ m])
qed (simp add: load64_store64)

lemma load64_zero [simp]: "load64 (\<lambda>_. 0) a = 0"
  by (simp add: load64_def mem_read_def at_mem_def map_replicate_const numeral_eq_Suc)

lemma unat_PX: "unat (PX l va) = unat va div 2 ^ (12 + 9 * l) mod 512"
proof -
  have "PX l va = take_bit 9 (drop_bit (12 + 9 * l) va)"
    by (simp add: PX_def take_bit_eq_mask mask_eq_exp_minus_1)
  then have "unat (PX l va) = take_bit 9 (drop_bit (12 + 9 * l) (unat va))"
    by (simp only: unsigned_take_bit_eq unat_drop_bit_eq)
  then show ?thesis by (simp add: take_bit_eq_mod drop_bit_eq_div)
qed

lemma low_page:
  assumes "PX 2 va = 0" and "PX 1 va = 0" and "PX 0 va = 0" and "va < MAXVA"
  shows "PGROUNDDOWN va = 0"
proof -
  let ?x = "unat va"
  have x: "?x < 274877906944" using assms(4) by (simp add: word_less_nat_alt)
  have "?x div 1073741824 mod 512 = 0" using assms(1) unat_PX [of 2 va] by simp
  moreover have "?x div 1073741824 < 512" using x by (simp add: less_mult_imp_div_less)
  ultimately have a: "?x < 1073741824" by (simp add: div_eq_0_iff)
  have "?x div 2097152 mod 512 = 0" using assms(2) unat_PX [of 1 va] by simp
  moreover have "?x div 2097152 < 512" using a by (simp add: less_mult_imp_div_less)
  ultimately have b: "?x < 2097152" by (simp add: div_eq_0_iff)
  have "?x div 4096 mod 512 = 0" using assms(3) unat_PX [of 0 va] by simp
  moreover have "?x div 4096 < 512" using b by (simp add: less_mult_imp_div_less)
  ultimately show ?thesis by (intro word_unat_eq_iff [THEN iffD2]) (simp add: unat_PGROUNDDOWN)
qed

definition one_page :: "u64 \<Rightarrow> memory" where
  "one_page perm = store64 (store64 (store64 (\<lambda>_. 0) 0x80100000 0x20040401) 0x80101000 0x20040801)
     0x80102000 (0x20040C00 OR perm)"

lemma one_page_entries:
  "load64 (one_page perm) (0x80100000 + 8 * PX l va) = (if PX l va = 0 then 0x20040401 else 0)"
  "load64 (one_page perm) (0x80101000 + 8 * PX l va) = (if PX l va = 0 then 0x20040801 else 0)"
  "load64 (one_page perm) (0x80102000 + 8 * PX l va) = (if PX l va = 0 then 0x20040C00 OR perm else 0)"
  by (simp_all add: one_page_def entry_store_same entry_store_other aligned_def)

lemma one_page_bases [simp]:
  "load64 (one_page perm) 0x80100000 = 0x20040401"
  "load64 (one_page perm) 0x80101000 = 0x20040801"
  "load64 (one_page perm) 0x80102000 = 0x20040C00 OR perm"
  using one_page_entries [of perm 0 0] by (simp_all add: PX_def)

lemma one_page_walk:
  "pte_from 2 (one_page perm) 0x80100000 va =
     (if PX 2 va = 0 \<and> PX 1 va = 0 then Some (0x80102000 + 8 * PX 0 va) else None)"
  "set (tables_from 2 (one_page perm) 0x80100000 va) \<subseteq> {0x80100000, 0x80101000, 0x80102000}"
proof -
  have P: "PTE2PA 0x20040401 = 0x80101000" "PTE2PA 0x20040801 = 0x80102000"
    by (simp_all add: PTE2PA_def push_bit_eq_mult drop_bit_eq_div)
  have two: "(2 :: nat) = Suc (Suc 0)" by simp
  show "pte_from 2 (one_page perm) 0x80100000 va =
     (if PX 2 va = 0 \<and> PX 1 va = 0 then Some (0x80102000 + 8 * PX 0 va) else None)"
    unfolding two by (simp add: Let_def one_page_entries P)
  show "set (tables_from 2 (one_page perm) 0x80100000 va) \<subseteq> {0x80100000, 0x80101000, 0x80102000}"
    unfolding two by (auto simp: Let_def one_page_entries P)
qed

lemma low_page_PX: "PGROUNDDOWN va = 0 \<Longrightarrow> PX l va = 0"
proof -
  assume "PGROUNDDOWN va = 0"
  then have "unat va < 4096" using unat_PGROUNDDOWN [of va] by (simp add: div_eq_0_iff)
  also have "(4096 :: nat) \<le> 2 ^ (12 + 9 * l)" by (simp add: power_add)
  finally have "unat (PX l va) = 0" by (simp add: unat_PX)
  then show ?thesis by (simp add: unat_eq_zero)
qed

lemma one_page_upage:
  assumes "perm = 0x17 \<or> perm = 0x13"
  shows "upage (one_page perm) 0x80100000 va =
     (if va < MAXVA \<and> PGROUNDDOWN va = 0 then Some (0x20040C00 OR perm) else None)"
proof (cases "PX 2 va = 0 \<and> PX 1 va = 0")
  case True
  have "0x80102000 + 8 * PX 0 va \<noteq> 0"
  proof
    assume z: "0x80102000 + 8 * PX 0 va = 0"
    have "unat (8 * PX 0 va) = 8 * unat (PX 0 va)"
      using unat_mult_lem [THEN iffD1, of "8 :: u64" "PX 0 va"] PX_bound [of 0 va] by simp
    then have "unat (8 * PX 0 va + 0x80102000) = 8 * unat (PX 0 va) + 2148540416"
      using PX_bound [of 0 va] by (subst unat_add_small) simp_all
    moreover have "8 * PX 0 va + 0x80102000 = 0" using z by (simp only: add.commute)
    ultimately have "8 * unat (PX 0 va) + 2148540416 = 0" by (simp only: unsigned_0)
    then show False by simp
  qed
  with True assms low_page [of va] low_page_PX [of va] show ?thesis
    by (auto simp: upage_def one_page_walk(1) one_page_entries Let_def)
next
  case False
  with low_page_PX [of va] show ?thesis by (auto simp: upage_def one_page_walk(1))
qed

lemma one_page_aspace: "perm = 0x17 \<or> perm = 0x13 \<Longrightarrow> aspace (one_page perm) 0x80100000"
proof -
  assume p: "perm = 0x17 \<or> perm = 0x13"
  then have P: "PTE2PA (0x20040C00 OR perm) = 0x80103000"
    by (auto simp: PTE2PA_def push_bit_eq_mult drop_bit_eq_div)
  have "0x80103000 \<notin> set (tables_from 2 (one_page perm) 0x80100000 va)" for va
    using one_page_walk(2) [of perm va] by auto
  then show ?thesis
    by (auto simp: aspace_def aligned_def one_page_upage [OF p] P split: if_splits)
qed

text \<open>The bytes of the first page are at \<open>0x80103000\<close>.\<close>

lemma one_page_writable: "n \<le> 4096 \<Longrightarrow> uwritable_range (one_page 0x17) 0x80100000 0 n"
  using PGROUNDDOWN_add [of 0]
  by (auto simp: uwritable_range_def uwritable_def one_page_upage PGROUNDDOWN_def)

text \<open>Reading the demonstration space back, and writing it on a process's behalf.\<close>

theorem user_copy_round_trip_witness:
  "\<exists>m'. copyout 0x80100000 8 (at_list [1, 2, 3]) 3 \<lparr>mem = one_page 0x17, freelist = 0, kend = 0x80021000,
            etext = 0x80008000, trampoline = 0x80007000, procs = [], cur = None, nextpid = 1, initproc = None,
            ticks = 0, forkret_pc = 0\<rparr> = Ok 0 \<lparr>mem = m', freelist = 0, kend = 0x80021000,
            etext = 0x80008000, trampoline = 0x80007000, procs = [], cur = None, nextpid = 1, initproc = None,
            ticks = 0, forkret_pc = 0\<rparr> \<and> ubyte m' 0x80100000 9 = Some 2"
proof -
  let ?s = "\<lparr>mem = one_page 0x17, freelist = 0, kend = 0x80021000, etext = 0x80008000, trampoline = 0x80007000,
     procs = [], cur = None, nextpid = 1, initproc = None, ticks = 0, forkret_pc = 0\<rparr>"
  have "uwritable_range (one_page 0x17) 0x80100000 (0 + of_nat 8) (11 - 8)"
    by (rule uwritable_range_drop [OF one_page_writable]) simp_all
  then have "uwritable_range (mem ?s) 0x80100000 8 (length [1, 2, 3 :: byte])" by (simp add: numeral_3_eq_3)
  from user_copy_round_trip [OF _ this] one_page_aspace show ?thesis by force
qed

theorem copy_refuses_bad_addresses_witness:
  "copyout 0x80100000 8 (at_list [1]) 1 \<lparr>mem = one_page 0x13, freelist = 0, kend = 0x80021000,
     etext = 0x80008000, trampoline = 0x80007000, procs = [], cur = None, nextpid = 1, initproc = None,
     ticks = 0, forkret_pc = 0\<rparr> = Ok (- 1) \<lparr>mem = one_page 0x13, freelist = 0, kend = 0x80021000,
     etext = 0x80008000, trampoline = 0x80007000, procs = [], cur = None, nextpid = 1, initproc = None,
     ticks = 0, forkret_pc = 0\<rparr>"
proof -
  have "upage (one_page 0x13) 0x80100000 (PGROUNDDOWN 8) = Some 0x20040C13"
    by (simp add: one_page_upage PGROUNDDOWN_def)
  moreover have "PTE2PA 0x20040C13 \<noteq> 0" by (simp add: PTE2PA_def push_bit_eq_mult drop_bit_eq_div)
  ultimately show ?thesis
    by (intro copy_refuses_bad_addresses [THEN conjunct1, rule_format]) auto
qed

end
