(* ===== verification/Pipe.thy ===== *)
theory Pipe
  imports Console Uspace
begin

text \<open>
  Pipes, \<open>kernel/pipe.c\<close>, and the open-file table they are reached through, \<open>struct file\<close> (here \<open>kfile\<close>) of
  \<open>kernel/file.h\<close>. A pipe lives in a page from the page allocator; \<open>pipes\<close> gives the structure
  at each page address. The counters \<open>nread\<close> and \<open>nwrite\<close> are 32 bits wide and wrap. A writer
  that finds the pipe full sleeps in the middle of its transfer: \<open>PwWait i\<close> is that point, after
  \<open>i\<close> bytes, and \<open>pipewrite_loop\<close> goes on from it. \<open>junk\<close> is what the kernel stack holds where a
  routine hands out bytes it has not written.
\<close>

abbreviation PIPESIZE :: nat where "PIPESIZE \<equiv> 512"
abbreviation NFILE :: nat where "NFILE \<equiv> 100"

record pipe =
  pi_data :: "byte list"
  pi_nread :: u32
  pi_nwrite :: u32
  pi_readopen :: bool
  pi_writeopen :: bool

datatype ftype = FD_NONE | FD_PIPE | FD_INODE | FD_DEVICE

record kfile =
  f_type :: ftype
  f_ref :: int
  f_readable :: bool
  f_writable :: bool
  f_pipe :: u64
  f_ip :: nat
  f_off :: u32
  f_major :: u16

record iostate = constate +
  ftable :: "kfile list"
  pipes :: "u64 \<Rightarrow> pipe"
  junk :: "nat \<Rightarrow> byte"

definition upd_pipe :: "u64 \<Rightarrow> (pipe \<Rightarrow> pipe) \<Rightarrow> 'z iostate_scheme \<Rightarrow> 'z iostate_scheme" where
  "upd_pipe a f s = s\<lparr>pipes := (pipes s)(a := f (pipes s a))\<rparr>"

definition pipeclose :: "u64 \<Rightarrow> bool \<Rightarrow> 'z iostate_scheme \<Rightarrow> (unit, 'z iostate_scheme) res" where
  "pipeclose a writable s =
     (let s = (if writable then wakeup (ChPipeRead a) (upd_pipe a (\<lambda>p. p\<lparr>pi_writeopen := False\<rparr>) s)
               else wakeup (ChPipeWrite a) (upd_pipe a (\<lambda>p. p\<lparr>pi_readopen := False\<rparr>) s))
      in if \<not> pi_readopen (pipes s a) \<and> \<not> pi_writeopen (pipes s a) then kfree a s else Ok () s)"

datatype pw = PwDone int | PwWait nat

definition pipe_push :: "byte \<Rightarrow> pipe \<Rightarrow> pipe" where
  "pipe_push ch p = p\<lparr>pi_data := (pi_data p)[unat (pi_nwrite p) mod PIPESIZE := ch], pi_nwrite := pi_nwrite p + 1\<rparr>"

function pipewrite_loop ::
  "u64 \<Rightarrow> u64 \<Rightarrow> nat \<Rightarrow> nat \<Rightarrow> 'z iostate_scheme \<Rightarrow> (pw, 'z iostate_scheme) res" where
  "pipewrite_loop a addr n i s =
     (if i < n
      then if \<not> pi_readopen (pipes s a) \<or> killed (me s) s then Ok (PwDone (- 1)) s
           else if pi_nwrite (pipes s a) = pi_nread (pipes s a) + of_nat PIPESIZE
           then Ok (PwWait i) (upd_proc (me s) (\<lambda>p. p\<lparr>p_chan := Some (ChPipeWrite a), p_state := SLEEPING\<rparr>)
                                 (wakeup (ChPipeRead a) s))
           else andthen (copyin (p_pagetable (myproc s)) (addr + of_nat i) 1 s) (\<lambda>(r, bs) s.
             if r = - 1 then Ok (PwDone (int i)) (wakeup (ChPipeRead a) s)
             else pipewrite_loop a addr n (Suc i) (upd_pipe a (pipe_push (hd bs)) s))
      else Ok (PwDone (int i)) (wakeup (ChPipeRead a) s))"
  by pat_completeness auto
termination
  by (relation "measure (\<lambda>(_, _, n, i, _). n - i)") auto

declare pipewrite_loop.simps [simp del]

definition pipewrite :: "u64 \<Rightarrow> u64 \<Rightarrow> int \<Rightarrow> 'z iostate_scheme \<Rightarrow> (int, 'z iostate_scheme) res" where
  "pipewrite a addr n s =
     andthen (pipewrite_loop a addr (nat n) 0 s) (\<lambda>w s.
       case w of PwDone r \<Rightarrow> Ok r s | PwWait _ \<Rightarrow> Sleep (ChPipeWrite a) s)"

fun piperead_loop ::
  "u64 \<Rightarrow> u64 \<Rightarrow> nat \<Rightarrow> nat \<Rightarrow> 'z iostate_scheme \<Rightarrow> (int, 'z iostate_scheme) res" where
  "piperead_loop a addr i 0 s = Ok (int i) s"
| "piperead_loop a addr i (Suc k) s =
     (let p = pipes s a in
      if pi_nread p = pi_nwrite p then Ok (int i) s
      else andthen (copyout (p_pagetable (myproc s)) (addr + of_nat i)
                      (at_list [pi_data p ! (unat (pi_nread p) mod PIPESIZE)]) 1 s) (\<lambda>r s.
        if r = - 1 then Ok (if i = 0 then - 1 else int i) s
        else piperead_loop a addr (Suc i) k (upd_pipe a (\<lambda>p. p\<lparr>pi_nread := pi_nread p + 1\<rparr>) s)))"

definition piperead :: "u64 \<Rightarrow> u64 \<Rightarrow> int \<Rightarrow> 'z iostate_scheme \<Rightarrow> (int, 'z iostate_scheme) res" where
  "piperead a addr n s =
     (let p = pipes s a in
      if pi_nread p = pi_nwrite p \<and> pi_writeopen p
      then if killed (me s) s then Ok (- 1) s else sleep (ChPipeRead a) s
      else andthen (piperead_loop a addr 0 (nat n) s) (\<lambda>i s. Ok i (wakeup (ChPipeWrite a) s)))"

section \<open>Bounded queues\<close>

text \<open>
  The contract between a ring and the transfers that use it: one element in while there is room, one
  element out while there is any. Whole messages follow by iteration.
\<close>

locale bounded_queue =
  fixes ok :: "'p \<Rightarrow> bool" and contents :: "'p \<Rightarrow> 'e list" and cap :: nat
    and push :: "'e \<Rightarrow> 'p \<Rightarrow> 'p" and pop :: "'p \<Rightarrow> 'p"
  assumes push_contents: "ok p \<Longrightarrow> length (contents p) < cap \<Longrightarrow> contents (push x p) = contents p @ [x]"
    and push_ok: "ok p \<Longrightarrow> length (contents p) < cap \<Longrightarrow> ok (push x p)"
    and pop_contents: "ok p \<Longrightarrow> contents p \<noteq> [] \<Longrightarrow> contents (pop p) = tl (contents p)"
    and pop_ok: "ok p \<Longrightarrow> contents p \<noteq> [] \<Longrightarrow> ok (pop p)"
begin

lemma push_many:
  "ok p \<Longrightarrow> length xs \<le> cap - length (contents p) \<Longrightarrow>
   contents (fold push xs p) = contents p @ xs \<and> ok (fold push xs p)"
proof (induction xs arbitrary: p)
  case (Cons x xs)
  then have room: "length (contents p) < cap" by simp
  from Cons.IH [of "push x p"] Cons.prems push_contents [OF Cons.prems(1) room] push_ok [OF Cons.prems(1) room]
  show ?case by simp
qed simp

lemma pop_many:
  "ok p \<Longrightarrow> n \<le> length (contents p) \<Longrightarrow> contents ((pop ^^ n) p) = drop n (contents p) \<and> ok ((pop ^^ n) p)"
proof (induction n)
  case (Suc n)
  then have q: "contents ((pop ^^ n) p) = drop n (contents p)" "ok ((pop ^^ n) p)" by auto
  moreover have "contents ((pop ^^ n) p) \<noteq> []" using q Suc.prems by auto
  ultimately show ?case
    using pop_contents [of "(pop ^^ n) p"] pop_ok [of "(pop ^^ n) p"] by (simp add: drop_Suc tl_drop)
qed simp

end

section \<open>The ring is a queue\<close>

definition pipe_ok :: "pipe \<Rightarrow> bool" where
  "pipe_ok p \<longleftrightarrow> length (pi_data p) = PIPESIZE \<and> unat (pi_nwrite p - pi_nread p) \<le> PIPESIZE"

definition pipe_queue :: "pipe \<Rightarrow> byte list" where
  "pipe_queue p = map (\<lambda>k. pi_data p ! ((unat (pi_nread p) + k) mod PIPESIZE)) [0..<unat (pi_nwrite p - pi_nread p)]"

abbreviation pipe_room :: "pipe \<Rightarrow> nat" where
  "pipe_room p \<equiv> PIPESIZE - length (pipe_queue p)"

definition pipe_pop :: "pipe \<Rightarrow> pipe" where
  "pipe_pop p = p\<lparr>pi_nread := pi_nread p + 1\<rparr>"

lemma ring_succ: "unat (n + 1 :: u32) mod 512 = (unat n + 1) mod 512"
proof (cases "unat n + 1 < 4294967296")
  case True
  then have "unat (n + 1) = unat n + 1" using unat_add_small [of n 1] by simp
  then show ?thesis by simp
next
  case False
  then have n: "unat n = 4294967295" using unat_u32_less [of n] by simp
  then have "n = of_nat 4294967295" by (rule unat_eq_of_nat)
  then have "n + 1 = 0" by simp
  then show ?thesis using n by simp
qed

lemma ring_add: "unat (n + of_nat k :: u32) mod 512 = (unat n + k) mod 512"
proof (induction k)
  case (Suc k)
  have "unat (n + of_nat (Suc k)) mod 512 = unat ((n + of_nat k) + 1) mod 512" by (simp add: algebra_simps)
  also have "\<dots> = (unat (n + of_nat k) mod 512 + 1) mod 512" by (simp add: ring_succ mod_simps)
  also have "\<dots> = (unat n + Suc k) mod 512" by (simp add: Suc mod_simps)
  finally show ?case .
qed simp

lemma length_pipe_queue: "length (pipe_queue p) = unat (pi_nwrite p - pi_nread p)"
  by (simp add: pipe_queue_def)

lemma pipe_full_iff: "pi_nwrite p = pi_nread p + of_nat PIPESIZE \<longleftrightarrow> length (pipe_queue p) = PIPESIZE"
proof
  assume "length (pipe_queue p) = PIPESIZE"
  then show "pi_nwrite p = pi_nread p + of_nat PIPESIZE"
    unfolding length_pipe_queue by (rule unat_diff_eq)
qed (simp add: length_pipe_queue)

lemma pipe_empty_iff: "pi_nread p = pi_nwrite p \<longleftrightarrow> pipe_queue p = []"
  by (auto simp: pipe_queue_def unat_eq_zero)

lemma pipe_push_queue:
  assumes ok: "pipe_ok p" and room: "length (pipe_queue p) < PIPESIZE"
  shows "pipe_queue (pipe_push ch p) = pipe_queue p @ [ch]" and "pipe_ok (pipe_push ch p)"
    and "pi_readopen (pipe_push ch p) = pi_readopen p" and "pi_nread (pipe_push ch p) = pi_nread p"
proof -
  let ?n = "unat (pi_nwrite p - pi_nread p)" and ?r = "unat (pi_nread p)"
  have n: "?n < 512" using room by (simp add: length_pipe_queue)
  have "pi_nwrite p = pi_nread p + of_nat ?n" by simp
  then have w: "unat (pi_nwrite p) mod 512 = (?r + ?n) mod 512" using ring_add by metis
  have "pi_nwrite p + 1 - pi_nread p = (pi_nwrite p - pi_nread p) + 1" by simp
  also have "unat \<dots> = ?n + 1" using n by (subst unat_add_small) simp_all
  finally have n1: "unat (pi_nwrite p + 1 - pi_nread p) = Suc ?n" by simp
  have old: "(pi_data p)[(?r + ?n) mod 512 := ch] ! ((?r + k) mod 512) = pi_data p ! ((?r + k) mod 512)" if "k < ?n" for k
  proof -
    have "(?r + k) mod 512 \<noteq> (?r + ?n) mod 512"
    proof
      assume "(?r + k) mod 512 = (?r + ?n) mod 512"
      then have "512 dvd (?r + ?n) - (?r + k)" using that by (subst mod_eq_dvd_iff_nat [symmetric]) simp_all
      with that n show False by (auto dest: dvd_imp_le)
    qed
    then show ?thesis by simp
  qed
  show "pipe_queue (pipe_push ch p) = pipe_queue p @ [ch]"
    using ok n old by (simp add: pipe_queue_def pipe_push_def n1 w pipe_ok_def)
  show "pipe_ok (pipe_push ch p)" using ok n by (simp add: pipe_ok_def pipe_push_def n1)
qed (simp_all add: pipe_push_def)

lemma pipe_pop_queue:
  assumes ok: "pipe_ok p" and ne: "pipe_queue p \<noteq> []"
  shows "pi_data p ! (unat (pi_nread p) mod PIPESIZE) = hd (pipe_queue p)"
    and "pipe_queue (pipe_pop p) = tl (pipe_queue p)" and "pipe_ok (pipe_pop p)"
proof -
  let ?n = "unat (pi_nwrite p - pi_nread p)" and ?r = "unat (pi_nread p)"
  have n: "0 < ?n" using ne by (auto simp: pipe_queue_def)
  then have "pi_nwrite p - pi_nread p \<noteq> 0" by auto
  then have "unat ((pi_nwrite p - pi_nread p) - 1) = ?n - 1" by (rule unat_minus_one)
  then have n1: "unat (pi_nwrite p - (pi_nread p + 1)) = ?n - 1" by (simp add: diff_diff_eq)
  show "pi_data p ! (?r mod PIPESIZE) = hd (pipe_queue p)"
    using n by (simp add: pipe_queue_def hd_map upt_conv_Cons)
  have "(unat (pi_nread p + 1) + k) mod 512 = (?r + Suc k) mod 512" for k
  proof -
    have "(unat (pi_nread p + 1) + k) mod 512 = (unat (pi_nread p + 1) mod 512 + k) mod 512" by (simp add: mod_simps)
    then show ?thesis by (simp add: ring_succ mod_simps)
  qed
  then show "pipe_queue (pipe_pop p) = tl (pipe_queue p)"
    by (intro nth_equalityI) (simp_all add: pipe_queue_def pipe_pop_def n1 nth_tl less_diff_conv)
  show "pipe_ok (pipe_pop p)" using ok by (auto simp: pipe_ok_def pipe_pop_def n1)
qed

interpretation pipe_q: bounded_queue pipe_ok pipe_queue PIPESIZE pipe_push pipe_pop
  by unfold_locales (simp_all add: pipe_push_queue pipe_pop_queue)

section \<open>Transfers\<close>

lemma upd_pipe_fields [simp]:
  "procs (upd_pipe a f s) = procs s" "cur (upd_pipe a f s) = cur s" "mem (upd_pipe a f s) = mem s"
  "pipes (upd_pipe a f s) a = f (pipes s a)" "myproc (upd_pipe a f s) = myproc s"
  by (simp_all add: upd_pipe_def myproc_def)

lemma upd_pipe_twice [simp]: "upd_pipe a g (upd_pipe a f s) = upd_pipe a (g \<circ> f) s"
  by (simp add: upd_pipe_def)

lemma pipes_wakeup [simp]: "pipes (wakeup c s) = pipes s"
  by (simp add: wakeup_def)

lemma pipes_upd_proc [simp]: "pipes (upd_proc i f s) = pipes s"
  by (simp add: upd_proc_def)

definition push_all :: "byte list \<Rightarrow> pipe \<Rightarrow> pipe" where
  "push_all bs p = fold pipe_push bs p"

lemma push_all_queue:
  "pipe_ok p \<Longrightarrow> length bs \<le> pipe_room p \<Longrightarrow>
   pipe_queue (push_all bs p) = pipe_queue p @ bs \<and> pipe_ok (push_all bs p)"
  unfolding push_all_def by (rule pipe_q.push_many)

lemma push_all_Cons: "push_all (b # bs) = push_all bs \<circ> pipe_push b"
  by (rule ext) (simp add: push_all_def)

text \<open>The writer goes to sleep on the pipe's write channel.\<close>

definition writer_sleeps :: "u64 \<Rightarrow> 'z iostate_scheme \<Rightarrow> 'z iostate_scheme" where
  "writer_sleeps a s =
     upd_proc (me s) (\<lambda>p. p\<lparr>p_chan := Some (ChPipeWrite a), p_state := SLEEPING\<rparr>) (wakeup (ChPipeRead a) s)"

lemma pipewrite_loop_spec:
  assumes "aspace (mem s) (p_pagetable (myproc s))" and "uread (mem s) (p_pagetable (myproc s)) addr msg"
    and "pipe_ok (pipes s a)" and "pi_readopen (pipes s a)" and "\<not> killed (me s) s" and "i \<le> length msg"
  shows "pipewrite_loop a addr (length msg) i s =
     (if length msg - i \<le> pipe_room (pipes s a)
      then Ok (PwDone (int (length msg))) (wakeup (ChPipeRead a) (upd_pipe a (push_all (drop i msg)) s))
      else Ok (PwWait (i + pipe_room (pipes s a)))
             (writer_sleeps a (upd_pipe a (push_all (take (pipe_room (pipes s a)) (drop i msg))) s)))"
  using assms(3-6) assms(1,2)
proof (induction "length msg - i" arbitrary: i s)
  case 0
  then have "i = length msg" by simp
  then show ?case by (simp add: pipewrite_loop.simps [of a _ _ "length msg"] push_all_def upd_pipe_def)
next
  case (Suc k)
  then have i: "i < length msg" by simp
  let ?p = "pipes s a" and ?pt = "p_pagetable (myproc s)"
  have full: "pi_nwrite ?p = pi_nread ?p + of_nat PIPESIZE \<longleftrightarrow> pipe_room ?p = 0"
    using Suc.prems(1) unfolding pipe_full_iff by (auto simp: pipe_ok_def length_pipe_queue)
  show ?case
  proof (cases "pipe_room ?p = 0")
    case True
    with full Suc.prems i show ?thesis
      by (simp add: pipewrite_loop.simps [of a _ _ i] push_all_def writer_sleeps_def upd_pipe_def)
  next
    case False
    have room: "length (pipe_queue ?p) < PIPESIZE" using False by simp
    have d: "drop i msg = msg ! i # drop (Suc i) msg" using i by (rule Cons_nth_drop_Suc [symmetric])
    have "uread (mem s) ?pt (addr + of_nat i) (drop i msg)" using Suc.prems(6) i by (intro uread_drop) simp_all
    then have "uread (mem s) ?pt (addr + of_nat i) [msg ! i]" using d by (auto simp: uread_def)
    from copyin_reads [OF Suc.prems(5) this]
    have step: "pipewrite_loop a addr (length msg) i s =
        pipewrite_loop a addr (length msg) (Suc i) (upd_pipe a (pipe_push (msg ! i)) s)"
      using Suc.prems False full i by (simp add: pipewrite_loop.simps [of a _ _ i])
    note push = pipe_push_queue [OF Suc.prems(1) room, of "msg ! i"]
    have r: "pipe_room (pipe_push (msg ! i) ?p) = pipe_room ?p - 1" using push(1) by simp
    have tk: "take (pipe_room ?p) (drop i msg) = msg ! i # take (pipe_room ?p - 1) (drop (Suc i) msg)"
      using False by (simp add: d take_Cons')
    have "pipewrite_loop a addr (length msg) (Suc i) (upd_pipe a (pipe_push (msg ! i)) s) =
     (if length msg - Suc i \<le> pipe_room ?p - 1
      then Ok (PwDone (int (length msg))) (wakeup (ChPipeRead a) (upd_pipe a (push_all (drop (Suc i) msg)) (upd_pipe a (pipe_push (msg ! i)) s)))
      else Ok (PwWait (Suc i + (pipe_room ?p - 1)))
             (writer_sleeps a (upd_pipe a (push_all (take (pipe_room ?p - 1) (drop (Suc i) msg))) (upd_pipe a (pipe_push (msg ! i)) s))))"
      using Suc.hyps(1) [of "Suc i" "upd_pipe a (pipe_push (msg ! i)) s"] Suc.hyps(2) Suc.prems i push r
      by (simp add: killed_def)
    moreover have "length msg - Suc i \<le> pipe_room ?p - 1 \<longleftrightarrow> length msg - i \<le> pipe_room ?p"
      "Suc i + (pipe_room ?p - 1) = i + pipe_room ?p" using False i by linarith+
    moreover have "push_all (drop i msg) = push_all (drop (Suc i) msg) \<circ> pipe_push (msg ! i)"
      by (simp only: d push_all_Cons)
    moreover have "push_all (take (pipe_room ?p) (drop i msg)) =
        push_all (take (pipe_room ?p - 1) (drop (Suc i) msg)) \<circ> pipe_push (msg ! i)"
      by (simp only: tk push_all_Cons)
    ultimately show ?thesis by (simp only: step upd_pipe_twice)
  qed
qed

lemma myproc_mem [simp]: "myproc (s\<lparr>mem := m\<rparr>) = myproc s"
  by (simp add: myproc_def)

lemma upd_pipe_mem: "upd_pipe a f (s\<lparr>mem := m\<rparr>) = (upd_pipe a f s)\<lparr>mem := m\<rparr>"
  by (simp add: upd_pipe_def)

definition pop_all :: "nat \<Rightarrow> pipe \<Rightarrow> pipe" where
  "pop_all n p = (pipe_pop ^^ n) p"

lemma pop_all_queue:
  "pipe_ok p \<Longrightarrow> n \<le> length (pipe_queue p) \<Longrightarrow>
   pipe_queue (pop_all n p) = drop n (pipe_queue p) \<and> pipe_ok (pop_all n p)"
  unfolding pop_all_def by (rule pipe_q.pop_many)

lemma piperead_loop_spec:
  assumes "aspace (mem s) (p_pagetable (myproc s))"
    and "uwritable_range (mem s) (p_pagetable (myproc s)) (addr + of_nat i) k" and "pipe_ok (pipes s a)"
  shows "\<exists>m'. piperead_loop a addr i k s =
             Ok (int (i + min k (length (pipe_queue (pipes s a)))))
                ((upd_pipe a (pop_all (min k (length (pipe_queue (pipes s a))))) s)\<lparr>mem := m'\<rparr>) \<and>
           upd_user (mem s) (p_pagetable (myproc s)) (addr + of_nat i) (take k (pipe_queue (pipes s a))) m'"
  using assms
proof (induction k arbitrary: i s)
  case 0
  then show ?case by (auto simp: pop_all_def upd_pipe_def intro!: exI [of _ "mem s"])
next
  case (Suc k)
  let ?p = "pipes s a" and ?pt = "p_pagetable (myproc s)" and ?va = "addr + of_nat i"
  show ?case
  proof (cases "pipe_queue ?p = []")
    case True
    then have "pi_nread ?p = pi_nwrite ?p" by (simp add: pipe_empty_iff)
    with True show ?thesis by (auto simp: pop_all_def upd_pipe_def Let_def intro!: exI [of _ "mem s"])
  next
    case False
    then obtain c q where q: "pipe_queue ?p = c # q" by (cases "pipe_queue ?p") auto
    note pop = pipe_pop_queue [OF Suc.prems(3) False]
    have w1: "uwritable_range (mem s) ?pt ?va (length [c])"
      using Suc.prems(2) by (auto simp: uwritable_range_def)
    obtain m1 where m1: "copyout ?pt ?va (at_list [c]) 1 s = Ok 0 (s\<lparr>mem := m1\<rparr>)" "upd_user (mem s) ?pt ?va [c] m1"
      using copyout_writes [OF Suc.prems(1) w1] by auto
    let ?s = "upd_pipe a pipe_pop (s\<lparr>mem := m1\<rparr>)"
    have c: "pi_data ?p ! (unat (pi_nread ?p) mod PIPESIZE) = c" using pop(1) q by simp
    have ne: "pi_nread ?p \<noteq> pi_nwrite ?p" using False by (simp add: pipe_empty_iff)
    have step: "piperead_loop a addr i (Suc k) s = piperead_loop a addr (Suc i) k ?s"
      using ne c m1(1) by (simp add: Let_def pipe_pop_def [abs_def])
    have va: "addr + of_nat (Suc i) = ?va + of_nat 1" by (simp add: algebra_simps)
    have "uwritable_range m1 ?pt (?va + of_nat 1) (Suc k - 1)"
      using uwritable_range_drop [OF Suc.prems(2), of 1] upd_user_writable [OF m1(2)]
      by (simp add: uwritable_range_def)
    then have w: "uwritable_range (mem ?s) (p_pagetable (myproc ?s)) (addr + of_nat (Suc i)) k"
      unfolding va by simp
    have as: "aspace (mem ?s) (p_pagetable (myproc ?s))"
      using Suc.prems(1) upd_user_aspace [OF m1(2)] by simp
    have ps: "pipes ?s a = pipe_pop ?p" by simp
    obtain m' where m': "piperead_loop a addr (Suc i) k ?s =
          Ok (int (Suc i + min k (length q))) ((upd_pipe a (pop_all (min k (length q))) ?s)\<lparr>mem := m'\<rparr>)"
        "upd_user m1 ?pt (?va + of_nat 1) (take k q) m'"
      using Suc.IH [OF as w, unfolded ps, OF pop(3)] pop(2) q unfolding va by auto
    have "upd_user (mem s) ?pt ?va ([c] @ take k q) m'"
      using m'(2) Suc.prems(2) by (intro upd_user_trans [OF m1(2)]) (auto simp: uwritable_range_def)
    moreover have "pop_all (min k (length q)) \<circ> pipe_pop = pop_all (Suc (min k (length q)))"
      by (rule ext) (simp add: pop_all_def funpow_swap1)
    ultimately show ?thesis using step m'(1) q by (auto simp: upd_pipe_mem)
  qed
qed

lemma piperead_spec:
  assumes "aspace (mem s) (p_pagetable (myproc s))" and "uwritable_range (mem s) (p_pagetable (myproc s)) addr n"
    and "pipe_ok (pipes s a)" and "pipe_queue (pipes s a) \<noteq> [] \<or> \<not> pi_writeopen (pipes s a)"
  shows "\<exists>m'. piperead a addr (int n) s =
             Ok (int (min n (length (pipe_queue (pipes s a)))))
                (wakeup (ChPipeWrite a)
                  ((upd_pipe a (pop_all (min n (length (pipe_queue (pipes s a))))) s)\<lparr>mem := m'\<rparr>)) \<and>
           upd_user (mem s) (p_pagetable (myproc s)) addr (take n (pipe_queue (pipes s a))) m'"
proof -
  have "\<not> (pi_nread (pipes s a) = pi_nwrite (pipes s a) \<and> pi_writeopen (pipes s a))"
    using assms(4) by (auto simp: pipe_empty_iff)
  then show ?thesis
    using piperead_loop_spec [of s addr 0 n a] assms by (auto simp: piperead_def Let_def)
qed

section \<open>First in, first out\<close>

text \<open>
  What happens to the pipe at \<open>a\<close>: processes write, with the message in their user memory, and go on
  after a wait; processes read into their user memory; in between anything may happen that does
  not touch the ring. The two lists are the bytes accepted from writers and handed to readers.
\<close>

abbreviation cur_pt :: "'z pstate_scheme \<Rightarrow> u64" where
  "cur_pt s \<equiv> p_pagetable (myproc s)"

inductive pipe_trace :: "u64 \<Rightarrow> iostate \<Rightarrow> byte list \<Rightarrow> byte list \<Rightarrow> iostate \<Rightarrow> bool" for a s where
  start: "pipe_trace a s [] [] s"
| wrote: "pipe_trace a s ins outs t \<Longrightarrow> aspace (mem t) (cur_pt t) \<Longrightarrow> uread (mem t) (cur_pt t) addr msg \<Longrightarrow>
    i \<le> length msg \<Longrightarrow> pipewrite_loop a addr (length msg) i t = Ok (PwDone (int (length msg))) u \<Longrightarrow>
    pipe_trace a s (ins @ drop i msg) outs u"
| waits: "pipe_trace a s ins outs t \<Longrightarrow> aspace (mem t) (cur_pt t) \<Longrightarrow> uread (mem t) (cur_pt t) addr msg \<Longrightarrow>
    i \<le> length msg \<Longrightarrow> pipewrite_loop a addr (length msg) i t = Ok (PwWait j) u \<Longrightarrow>
    pipe_trace a s (ins @ take (j - i) (drop i msg)) outs u"
| reads: "pipe_trace a s ins outs t \<Longrightarrow> aspace (mem t) (cur_pt t) \<Longrightarrow> uwritable_range (mem t) (cur_pt t) addr n \<Longrightarrow>
    piperead a addr (int n) t = Ok (int (length bs)) u \<Longrightarrow> uread (mem u) (cur_pt t) addr bs \<Longrightarrow>
    pipe_trace a s ins (outs @ bs) u"
| other: "pipe_trace a s ins outs t \<Longrightarrow> pi_data (pipes u a) = pi_data (pipes t a) \<Longrightarrow>
    pi_nread (pipes u a) = pi_nread (pipes t a) \<Longrightarrow> pi_nwrite (pipes u a) = pi_nwrite (pipes t a) \<Longrightarrow>
    pipe_trace a s ins outs u"

lemma pipewrite_loop_cases:
  assumes "pipewrite_loop a addr n i s = Ok w u" and "i < n" and "w \<noteq> PwDone (- 1)"
  shows "pi_readopen (pipes s a) \<and> \<not> killed (me s) s"
  using assms by (auto simp: pipewrite_loop.simps [of a addr n i] split: if_splits)

lemma uread_unique: "uread m pt va as \<Longrightarrow> uread m pt va bs \<Longrightarrow> length as = length bs \<Longrightarrow> as = bs"
  by (rule nth_equalityI) (auto simp: uread_def)

lemma pipewrite_queue:
  assumes "aspace (mem t) (cur_pt t)" and "uread (mem t) (cur_pt t) addr msg" and "i \<le> length msg"
    and "pipe_ok (pipes t a)" and run: "pipewrite_loop a addr (length msg) i t = Ok w u" and "w \<noteq> PwDone (- 1)"
  shows "pipe_ok (pipes u a) \<and>
    (w = PwDone (int (length msg)) \<and> pipe_queue (pipes u a) = pipe_queue (pipes t a) @ drop i msg \<or>
     (\<exists>j. w = PwWait j \<and> pipe_queue (pipes u a) = pipe_queue (pipes t a) @ take (j - i) (drop i msg)))"
proof (cases "i = length msg")
  case True
  with assms show ?thesis by (auto simp: pipewrite_loop.simps [of a _ _ "length msg"])
next
  case False
  then have "pi_readopen (pipes t a)" "\<not> killed (me t) t"
    using pipewrite_loop_cases [OF run _ assms(6)] assms(3) by auto
  note spec = pipewrite_loop_spec [OF assms(1,2,4) this assms(3)]
  show ?thesis
  proof (cases "length msg - i \<le> pipe_room (pipes t a)")
    case True
    then show ?thesis using spec run push_all_queue [OF assms(4), of "drop i msg"] by auto
  next
    case False
    then show ?thesis
      using spec run push_all_queue [OF assms(4), of "take (pipe_room (pipes t a)) (drop i msg)"]
      by (auto simp: writer_sleeps_def)
  qed
qed

lemma piperead_queue:
  assumes "aspace (mem t) (cur_pt t)" and "uwritable_range (mem t) (cur_pt t) addr n" and ok: "pipe_ok (pipes t a)"
    and run: "piperead a addr (int n) t = Ok (int (length bs)) u" and bs: "uread (mem u) (cur_pt t) addr bs"
  shows "pipe_ok (pipes u a) \<and> bs @ pipe_queue (pipes u a) = pipe_queue (pipes t a)"
proof -
  let ?q = "pipe_queue (pipes t a)"
  have "?q \<noteq> [] \<or> \<not> pi_writeopen (pipes t a)"
    using run by (auto simp: piperead_def Let_def pipe_empty_iff sleep_def split: if_splits)
  from piperead_spec [OF assms(1,2) ok this] obtain m' where
    r: "piperead a addr (int n) t = Ok (int (min n (length ?q)))
         (wakeup (ChPipeWrite a) ((upd_pipe a (pop_all (min n (length ?q))) t)\<lparr>mem := m'\<rparr>))"
    and m': "upd_user (mem t) (cur_pt t) addr (take n ?q) m'" by blast
  have u: "u = wakeup (ChPipeWrite a) ((upd_pipe a (pop_all (min n (length ?q))) t)\<lparr>mem := m'\<rparr>)"
    and len: "length bs = min n (length ?q)" using r run by simp_all
  have "uread m' (cur_pt t) addr (take n ?q)"
    using upd_user_read [OF m'] assms(2) by (auto simp: uwritable_range_def)
  with bs len have "bs = take n ?q" unfolding u by (intro uread_unique) simp_all
  moreover have "pipe_queue (pipes u a) = drop (min n (length ?q)) ?q \<and> pipe_ok (pipes u a)"
    using pop_all_queue [OF ok, of "min n (length ?q)"] unfolding u by simp
  ultimately show ?thesis by (simp add: min_def)
qed

text \<open>C17: A pipe is a first-in first-out queue. Whatever the order in which writers and readers run,
  sleep and go on, the bytes handed to readers followed by the bytes in the ring are the initial
  contents followed by the bytes accepted from writers: nothing is lost, duplicated or
  reordered. The ring never holds more than its 512 bytes, and the 32-bit counters may wrap.\<close>

theorem pipe_fifo:
  assumes "pipe_trace a s ins outs t" and "pipe_ok (pipes s a)"
  shows "pipe_ok (pipes t a) \<and> outs @ pipe_queue (pipes t a) = pipe_queue (pipes s a) @ ins"
  using assms
proof (induction rule: pipe_trace.induct)
  case (wrote ins outs t addr msg i u)
  then show ?case using pipewrite_queue [OF wrote.hyps(2-4) _ wrote.hyps(5)] by auto
next
  case (waits ins outs t addr msg i j u)
  then show ?case using pipewrite_queue [OF waits.hyps(2-4) _ waits.hyps(5)] by auto
next
  case (reads ins outs t addr n bs u)
  then show ?case using piperead_queue [OF reads.hyps(2,3) _ reads.hyps(4,5)] by (metis append.assoc)
next
  case (other ins outs t u)
  then show ?case by (simp add: pipe_ok_def pipe_queue_def)
qed simp

text \<open>C24: The ends of a pipe. Reading an empty pipe sleeps while a writer remains (a killed reader gets
  -1 instead), and returns 0, end of file, once the write end is closed. Writing fails with -1 as
  soon as the read end is closed or the writer is killed, without touching the ring.\<close>

theorem pipe_ends:
  "(pipe_queue (pipes s a) = [] \<and> pi_writeopen (pipes s a) \<and> \<not> killed (me s) s \<longrightarrow>
      piperead a addr n s = sleep (ChPipeRead a) s) \<and>
   (pipe_queue (pipes s a) = [] \<and> pi_writeopen (pipes s a) \<and> killed (me s) s \<longrightarrow>
      piperead a addr n s = Ok (- 1) s) \<and>
   (pipe_queue (pipes s a) = [] \<and> \<not> pi_writeopen (pipes s a) \<longrightarrow>
      piperead a addr n s = Ok 0 (wakeup (ChPipeWrite a) s)) \<and>
   (0 < n \<and> (\<not> pi_readopen (pipes s a) \<or> killed (me s) s) \<longrightarrow> pipewrite a addr n s = Ok (- 1) s)"
proof -
  have "piperead_loop a addr 0 (nat n) s = Ok 0 s" if "pi_nread (pipes s a) = pi_nwrite (pipes s a)"
    using that by (cases "nat n") (simp_all add: Let_def)
  then show ?thesis
    by (auto simp: piperead_def pipewrite_def pipewrite_loop.simps [of a addr _ 0] Let_def pipe_empty_iff)
qed

section \<open>A machine with one user process\<close>

definition demo_proc :: proc where
  "demo_proc = idle_proc\<lparr>p_state := RUNNING, p_pid := 1, p_sz := 4096, p_pagetable := 0x80100000\<rparr>"

definition demo_io :: iostate where
  "demo_io = \<lparr>mem = one_page 0x17, freelist = 0, kend = 0x80021000, etext = 0x80008000, trampoline = 0x80007000,
     procs = [demo_proc], cur = Some 0, nextpid = 2, initproc = Some 0, ticks = 0, forkret_pc = 0x80002000,
     bufs = replicate NBUF empty_buf, lru = [0..<NBUF], disk = (\<lambda>_. replicate BSIZE 0), dwrites = [],
     log_start = 2, log_outstanding = 0, log_committing = False, log_dev = 1, lh_n = 0, lh_block = replicate LOGBLOCKS 0,
     sb = \<lparr>sb_magic = FSMAGIC, sb_size = 2000, sb_nblocks = 1954, sb_ninodes = 200, sb_nlog = 31, sb_logstart = 2,
           sb_inodestart = 33, sb_bmapstart = 46\<rparr>, itable = [],
     uart_w = [], uart_rx = [], tx_busy = False,
     cons_buf = replicate INPUT_BUF_SIZE 0, cons_r = 0, cons_w = 0, cons_e = 0, devsw = replicate NDEV False,
     ftable = [], pipes = (\<lambda>_. \<lparr>pi_data = replicate PIPESIZE 0, pi_nread = - 1, pi_nwrite = - 1,
                              pi_readopen = True, pi_writeopen = True\<rparr>), junk = (\<lambda>_. 0)\<rparr>"

lemma demo_io_user [simp]:
  "mem demo_io = one_page 0x17" "cur_pt demo_io = 0x80100000" "\<not> killed (me demo_io) demo_io"
  by (simp_all add: demo_io_def myproc_def demo_proc_def killed_def idle_proc_def)

lemma one_page_zero: "n \<le> 4096 \<Longrightarrow> uread (one_page 0x17) 0x80100000 0 (replicate n 0)"
proof -
  assume n: "n \<le> 4096"
  have "ubyte (one_page 0x17) 0x80100000 (of_nat k) = Some 0" if "k < n" for k
  proof -
    have k: "unat (0 :: u64) mod 4096 + k < 4096" using that n by simp
    have P: "PTE2PA 0x20040C17 = 0x80103000" by (simp add: PTE2PA_def push_bit_eq_mult drop_bit_eq_div)
    have "uaddr (one_page 0x17) 0x80100000 (of_nat k) = Some (0x80103000 + of_nat k)"
      using uaddr_in_page [where m = "one_page 0x17" and pt = "0x80100000", OF k]
      by (simp add: one_page_upage PGROUNDDOWN_def P)
    moreover have "one_page 0x17 (0x80103000 + of_nat k) = 0"
    proof -
      have "in_page 0x80103000 (0x80103000 + of_nat k)" using that n by (intro in_page_offset) simp
      then have np: "\<not> in_page q (0x80103000 + of_nat k)" if "q \<in> {0x80100000, 0x80101000, 0x80102000}" for q
        using that by (intro pages_disjoint [of "0x80103000" q]) (auto simp: aligned_def)
      have far: "8 \<le> unat (0x80103000 + of_nat k - q)" if "q \<in> {0x80100000, 0x80101000, 0x80102000}" for q :: u64
        using np [OF that] unfolding in_page_def by linarith
      show ?thesis
        using far [of "0x80100000"] far [of "0x80101000"] far [of "0x80102000"]
        unfolding one_page_def by (simp only: store64_outside insert_iff simp_thms)
    qed
    ultimately show ?thesis by (simp add: ubyte_def)
  qed
  then show ?thesis using n by (simp add: uread_def)
qed

text \<open>A message of two bytes goes into a ring whose counters are about to wrap.\<close>

theorem pipe_fifo_witness:
  "\<exists>t. pipe_trace 0x80030000 demo_io [0, 0] [] t \<and> pipe_queue (pipes t 0x80030000) = [0, 0]"
proof -
  let ?a = "0x80030000 :: u64"
  have r: "uread (mem demo_io) (cur_pt demo_io) 0 [0, 0]" using one_page_zero [of 2] by (simp add: numeral_2_eq_2)
  have as: "aspace (mem demo_io) (cur_pt demo_io)" by (simp add: one_page_aspace)
  have ok: "pipe_ok (pipes demo_io ?a)" "pi_readopen (pipes demo_io ?a)" "pipe_queue (pipes demo_io ?a) = []"
    by (simp_all add: demo_io_def pipe_ok_def pipe_queue_def)
  obtain u where u: "pipewrite_loop ?a 0 (length [0, 0 :: byte]) 0 demo_io = Ok (PwDone (int (length [0, 0 :: byte]))) u"
    using pipewrite_loop_spec [OF as r ok(1,2) demo_io_user(3), of 0] ok(3) by simp
  have "pipe_trace ?a demo_io ([] @ drop 0 [0, 0]) [] u"
    by (rule pipe_trace.wrote [OF pipe_trace.start as r _ u]) simp
  then have tr: "pipe_trace ?a demo_io [0, 0] [] u" by simp
  with pipe_fifo [OF tr ok(1)] ok(3) show ?thesis by auto
qed

theorem pipe_ends_witness:
  "piperead 0x80030000 0 5 demo_io = sleep (ChPipeRead 0x80030000) demo_io"
proof -
  have "pipe_queue (pipes demo_io 0x80030000) = [] \<and> pi_writeopen (pipes demo_io 0x80030000) \<and> \<not> killed (me demo_io) demo_io"
    using demo_io_user(3) by (simp add: demo_io_def pipe_queue_def)
  then show ?thesis using pipe_ends [of demo_io "0x80030000" 0 5] by blast
qed

end
