(* ===== verification/File.thy ===== *)
theory File
  imports Pipe
begin

text \<open>
  Open files, \<open>kernel/file.c\<close>, and \<open>pipealloc\<close> of \<open>kernel/pipe.c\<close>. A \<open>struct file *\<close> is an
  index into \<open>ftable\<close>, a null pointer \<open>None\<close>. \<open>fileread\<close> and \<open>filewrite\<close> on a device go to
  the console, the only driver the device switch holds.
\<close>

definition upd_file :: "nat \<Rightarrow> (kfile \<Rightarrow> kfile) \<Rightarrow> 'z iostate_scheme \<Rightarrow> 'z iostate_scheme" where
  "upd_file i f s = s\<lparr>ftable := list_modify i f (ftable s)\<rparr>"

definition filealloc :: "'z iostate_scheme \<Rightarrow> nat option \<times> 'z iostate_scheme" where
  "filealloc s =
     (case find_idx (\<lambda>f. f_ref f = 0) (ftable s) of
        Some i \<Rightarrow> (Some i, upd_file i (\<lambda>f. f\<lparr>f_ref := 1\<rparr>) s)
      | None \<Rightarrow> (None, s))"

definition filedup :: "nat \<Rightarrow> 'z iostate_scheme \<Rightarrow> (nat, 'z iostate_scheme) res" where
  "filedup i s =
     (if f_ref (ftable s ! i) < 1 then Panic ''filedup''
      else Ok i (upd_file i (\<lambda>f. f\<lparr>f_ref := f_ref f + 1\<rparr>) s))"

definition fileclose :: "nat \<Rightarrow> 'z iostate_scheme \<Rightarrow> (unit, 'z iostate_scheme) res" where
  "fileclose i s =
     (if f_ref (ftable s ! i) < 1 then Panic ''fileclose''
      else let s = upd_file i (\<lambda>f. f\<lparr>f_ref := f_ref f - 1\<rparr>) s in
        if f_ref (ftable s ! i) > 0 then Ok () s
        else let ff = ftable s ! i;
                 s = upd_file i (\<lambda>f. f\<lparr>f_ref := 0, f_type := FD_NONE\<rparr>) s
             in if f_type ff = FD_PIPE then pipeclose (f_pipe ff) (f_writable ff) s
                else if f_type ff = FD_INODE \<or> f_type ff = FD_DEVICE
                then andthen (begin_op s) (\<lambda>_ s. andthen (iput (f_ip ff) s) (\<lambda>_ s. end_op s))
                else Ok () s)"

definition pipealloc :: "'z iostate_scheme \<Rightarrow> ((nat \<times> nat) option, 'z iostate_scheme) res" where
  "pipealloc s =
     (case filealloc s of
        (None, s) \<Rightarrow> Ok None s
      | (Some f0, s) \<Rightarrow>
          (case filealloc s of
             (None, s) \<Rightarrow> andthen (fileclose f0 s) (\<lambda>_ s. Ok None s)
           | (Some f1, s) \<Rightarrow>
               andthen (kalloc s) (\<lambda>a s.
                 if a = 0
                 then andthen (fileclose f0 s) (\<lambda>_ s. andthen (fileclose f1 s) (\<lambda>_ s. Ok None s))
                 else let s = upd_pipe a (\<lambda>p. p\<lparr>pi_readopen := True, pi_writeopen := True,
                                               pi_nwrite := 0, pi_nread := 0\<rparr>) s;
                          s = upd_file f0 (\<lambda>f. f\<lparr>f_type := FD_PIPE, f_readable := True, f_writable := False,
                                               f_pipe := a\<rparr>) s;
                          s = upd_file f1 (\<lambda>f. f\<lparr>f_type := FD_PIPE, f_readable := False, f_writable := True,
                                               f_pipe := a\<rparr>) s
                      in Ok (Some (f0, f1)) s)))"

text \<open>The 24 bytes of a \<open>struct stat\<close>; bytes 12 to 15 are padding.\<close>

definition stat_bytes :: "(nat \<Rightarrow> byte) \<Rightarrow> stat \<Rightarrow> byte list" where
  "stat_bytes pad st = le_bytes 4 (st_dev st) @ le_bytes 4 (st_ino st) @ le_bytes 2 (st_type st) @
     le_bytes 2 (st_nlink st) @ map pad [12..<16] @ le_bytes 8 (st_size st)"

definition filestat :: "nat \<Rightarrow> u64 \<Rightarrow> 'z iostate_scheme \<Rightarrow> (int, 'z iostate_scheme) res" where
  "filestat i addr s =
     (let f = ftable s ! i in
      if f_type f = FD_INODE \<or> f_type f = FD_DEVICE
      then andthen (ilock (f_ip f) s) (\<lambda>_ s.
           let st = stati (f_ip f) s in
           andthen (iunlock (f_ip f) s) (\<lambda>_ s.
           andthen (copyout (p_pagetable (myproc s)) addr (at_list (stat_bytes (junk s) st)) 24 s) (\<lambda>r s.
           if r < 0 then Ok (- 1) s else Ok 0 s)))
      else Ok (- 1) s)"

definition dev_ready :: "u16 \<Rightarrow> 'z constate_scheme \<Rightarrow> bool" where
  "dev_ready major s \<longleftrightarrow> 0 \<le> sint major \<and> sint major < int NDEV \<and> devsw s ! nat (sint major)"

definition fileread :: "nat \<Rightarrow> u64 \<Rightarrow> int \<Rightarrow> 'z iostate_scheme \<Rightarrow> (int, 'z iostate_scheme) res" where
  "fileread i addr n s =
     (let f = ftable s ! i in
      if \<not> f_readable f then Ok (- 1) s
      else (case f_type f of
              FD_PIPE \<Rightarrow> piperead (f_pipe f) addr n s
            | FD_DEVICE \<Rightarrow> if \<not> dev_ready (f_major f) s then Ok (- 1) s else consoleread True addr n s
            | FD_INODE \<Rightarrow>
                andthen (ilock (f_ip f) s) (\<lambda>_ s.
                andthen (readi (f_ip f) (RUser addr) (f_off (ftable s ! i)) (word_of_int n) s) (\<lambda>(r, _) s.
                let s = (if r > 0 then upd_file i (\<lambda>f. f\<lparr>f_off := f_off f + word_of_int r\<rparr>) s else s)
                in andthen (iunlock (f_ip f) s) (\<lambda>_ s. Ok r s)))
            | FD_NONE \<Rightarrow> Panic ''fileread''))"

definition filewrite_max :: int where
  "filewrite_max = (MAXOPBLOCKS - 1 - 1 - 2) div 2 * int BSIZE"

function filewrite_loop :: "nat \<Rightarrow> u64 \<Rightarrow> int \<Rightarrow> int \<Rightarrow> 'z iostate_scheme \<Rightarrow> (int, 'z iostate_scheme) res" where
  "filewrite_loop i addr n j s =
     (if j < n
      then let n1 = min (n - j) filewrite_max; ip = f_ip (ftable s ! i) in
        andthen (begin_op s) (\<lambda>_ s.
        andthen (ilock ip s) (\<lambda>_ s.
        andthen (writei ip (WUser (addr + word_of_int j)) (f_off (ftable s ! i)) (word_of_int n1) s) (\<lambda>r s.
        let s = (if r > 0 then upd_file i (\<lambda>f. f\<lparr>f_off := f_off f + word_of_int r\<rparr>) s else s) in
        andthen (iunlock ip s) (\<lambda>_ s.
        andthen (end_op s) (\<lambda>_ s.
          if r \<noteq> n1 then Ok j s else filewrite_loop i addr n (j + n1) s)))))
      else Ok j s)"
  by pat_completeness auto
termination
  by (relation "measure (\<lambda>(_, _, n, j, _). nat (n - j))") (auto simp: filewrite_max_def)

declare filewrite_loop.simps [simp del]

definition filewrite :: "nat \<Rightarrow> u64 \<Rightarrow> int \<Rightarrow> 'z iostate_scheme \<Rightarrow> (int, 'z iostate_scheme) res" where
  "filewrite i addr n s =
     (let f = ftable s ! i in
      if \<not> f_writable f then Ok (- 1) s
      else (case f_type f of
              FD_PIPE \<Rightarrow> pipewrite (f_pipe f) addr n s
            | FD_DEVICE \<Rightarrow> if \<not> dev_ready (f_major f) s then Ok (- 1) s else consolewrite True addr n s
            | FD_INODE \<Rightarrow>
                andthen (filewrite_loop i addr n 0 s) (\<lambda>j s. Ok (if j = n then n else - 1) s)
            | FD_NONE \<Rightarrow> Panic ''filewrite''))"

end
