(* ===== verification/Proc.thy ===== *)
theory Proc
  imports File
begin

text \<open>
  Processes, \<open>kernel/proc.c\<close>: allocation and release of process table entries, \<open>fork\<close> and
  thread creation, exit and the two waits, the scheduler's choice, kill, signals, message passing
  and the queries of the G14 system calls. \<open>wait_lock\<close>, \<open>pid_lock\<close> and the per-process locks
  are elided: each routine is one critical section, or a sequence of them up to the point where
  it sleeps. \<open>kwait\<close>, \<open>kwaitpid\<close> and \<open>kipc_recv\<close> are one pass of their loop. \<open>kexit\<close> and \<open>yield\<close>
  end in \<open>Resched\<close>. A call of \<open>wakeup\<close> or \<open>sleep\<close> on a process pointer uses the channel
  \<open>ChProc\<close>.
\<close>

section \<open>Process table entries\<close>

definition procinit :: "'z pstate_scheme \<Rightarrow> 'z pstate_scheme" where
  "procinit s = s\<lparr>procs := map (\<lambda>i. (procs s ! i)\<lparr>p_state := UNUSED, p_kstack := KSTACK i\<rparr>) [0..<length (procs s)]\<rparr>"

definition uniform_tf :: "u64 \<Rightarrow> trapframe" where
  "uniform_tf w = \<lparr>tf_kernel_satp = w, tf_kernel_sp = w, tf_kernel_trap = w, tf_epc = w, tf_kernel_hartid = w, tf_ra =
     w, tf_sp = w, tf_gp = w, tf_tp = w, tf_t0 = w, tf_t1 = w, tf_t2 = w, tf_s0 = w, tf_s1 = w, tf_a0 =
     w, tf_a1 = w, tf_a2 = w, tf_a3 = w, tf_a4 = w, tf_a5 = w, tf_a6 = w, tf_a7 = w, tf_s2 = w, tf_s3 =
     w, tf_s4 = w, tf_s5 = w, tf_s6 = w, tf_s7 = w, tf_s8 = w, tf_s9 = w, tf_s10 = w, tf_s11 = w, tf_t3 =
     w, tf_t4 = w, tf_t5 = w, tf_t6 = w\<rparr>"

definition proc_pagetable :: "u64 \<Rightarrow> 'z machine_scheme \<Rightarrow> (u64, 'z machine_scheme) res" where
  "proc_pagetable tfpage s =
     andthen (uvmcreate s) (\<lambda>pagetable s.
       if pagetable = 0 then Ok 0 s
       else andthen (mappages pagetable TRAMPOLINE PGSIZE (trampoline s) (PTE_R OR PTE_X) s) (\<lambda>r s.
         if r < 0 then andthen (uvmfree pagetable 0 s) (\<lambda>_ s. Ok 0 s)
         else andthen (mappages pagetable TRAPFRAME PGSIZE tfpage (PTE_R OR PTE_W) s) (\<lambda>r s.
           if r < 0
           then andthen (uvmunmap pagetable TRAMPOLINE 1 False s) (\<lambda>_ s.
                andthen (uvmfree pagetable 0 s) (\<lambda>_ s. Ok 0 s))
           else Ok pagetable s)))"

definition proc_freepagetable :: "u64 \<Rightarrow> u64 \<Rightarrow> 'z machine_scheme \<Rightarrow> (unit, 'z machine_scheme) res" where
  "proc_freepagetable pagetable sz s =
     andthen (uvmunmap pagetable TRAMPOLINE 1 False s) (\<lambda>_ s.
     andthen (uvmunmap pagetable TRAPFRAME 1 False s) (\<lambda>_ s. uvmfree pagetable sz s))"

definition freeproc :: "nat \<Rightarrow> 'z pstate_scheme \<Rightarrow> (unit, 'z pstate_scheme) res" where
  "freeproc i s =
     (let p = procs s ! i in
      andthen (if p_tfpage p \<noteq> 0 then kfree (p_tfpage p) s else Ok () s) (\<lambda>_ s.
      andthen (if p_pagetable p \<noteq> 0 then proc_freepagetable (p_pagetable p) (p_sz p) s else Ok () s) (\<lambda>_ s.
      Ok () (upd_proc i (\<lambda>p. p\<lparr>p_tfpage := 0, p_pagetable := 0, p_sz := 0, p_pid := 0, p_parent := None,
                               p_name := (p_name p)[0 := 0], p_chan := None, p_killed := False, p_xstate := 0,
                               p_ipc_ready := False, p_ipc_len := 0, p_state := UNUSED\<rparr>) s))))"

definition fresh_proc :: "int \<Rightarrow> proc \<Rightarrow> proc" where
  "fresh_proc pid p = p\<lparr>p_pid := pid, p_state := USED, p_pending_signals := 0, p_handling_signal := False,
     p_ipc_ready := False, p_ipc_len := 0, p_signal_handlers := replicate NSIG (- 1),
     p_ipc_msg := replicate IPC_MAX_MSG 0, p_fork_count := 0\<rparr>"

definition allocproc :: "'z pstate_scheme \<Rightarrow> (nat option, 'z pstate_scheme) res" where
  "allocproc s =
     (case find_idx (\<lambda>p. p_state p = UNUSED) (procs s) of
        None \<Rightarrow> Ok None s
      | Some i \<Rightarrow>
          andthen (allocpid s) (\<lambda>pid s.
          let s = upd_proc i (fresh_proc pid) s in
          andthen (kalloc s) (\<lambda>page s.
          let s = upd_proc i (\<lambda>p. p\<lparr>p_tfpage := page, p_tf := uniform_tf 0x0505050505050505\<rparr>) s in
          if page = 0 then andthen (freeproc i s) (\<lambda>_ s. Ok None s)
          else andthen (proc_pagetable page s) (\<lambda>pagetable s.
            let s = upd_proc i (\<lambda>p. p\<lparr>p_pagetable := pagetable\<rparr>) s in
            if pagetable = 0 then andthen (freeproc i s) (\<lambda>_ s. Ok None s)
            else Ok (Some i)
                   (upd_proc i (\<lambda>p. p\<lparr>p_context := \<lparr>ctx_ra = forkret_pc s, ctx_sp = p_kstack p + PGSIZE,
                                                    ctx_s = replicate 12 0\<rparr>\<rparr>) s)))))"

definition userinit :: "'z fstate_scheme \<Rightarrow> (unit, 'z fstate_scheme) res" where
  "userinit s =
     andthen (allocproc s) (\<lambda>p s.
       case p of
         None \<Rightarrow> Fault ''userinit: null proc''
       | Some i \<Rightarrow>
           andthen (namei [slash] (s\<lparr>initproc := Some i\<rparr>)) (\<lambda>cwd s.
           Ok () (upd_proc i (\<lambda>p. p\<lparr>p_cwd := cwd, p_state := RUNNABLE\<rparr>) s)))"

definition growproc :: "int \<Rightarrow> 'z pstate_scheme \<Rightarrow> (int, 'z pstate_scheme) res" where
  "growproc n s =
     (let p = myproc s; sz = p_sz p; w = word_of_int n in
      if n > 0
      then if sz + w > TRAPFRAME then Ok (- 1) s
           else andthen (uvmalloc (p_pagetable p) sz (sz + w) PTE_W s) (\<lambda>sz s.
             if sz = 0 then Ok (- 1) s
             else Ok 0 (upd_proc (me s) (\<lambda>p. p\<lparr>p_sz := sz\<rparr>) s))
      else if n < 0
      then andthen (uvmdealloc (p_pagetable p) sz (sz + w) s) (\<lambda>sz s.
           Ok 0 (upd_proc (me s) (\<lambda>p. p\<lparr>p_sz := sz\<rparr>) s))
      else Ok 0 s)"

section \<open>Creation\<close>

fun dup_files :: "nat \<Rightarrow> nat \<Rightarrow> nat \<Rightarrow> nat \<Rightarrow> 'z iostate_scheme \<Rightarrow> (unit, 'z iostate_scheme) res" where
  "dup_files 0 i p np s = Ok () s"
| "dup_files (Suc k) i p np s =
     andthen
       (case p_ofile (procs s ! p) ! i of
          None \<Rightarrow> Ok () s
        | Some f \<Rightarrow> andthen (filedup f s) (\<lambda>f s.
            Ok () (upd_proc np (\<lambda>q. q\<lparr>p_ofile := (p_ofile q)[i := Some f]\<rparr>) s)))
       (\<lambda>_ s. dup_files k (Suc i) p np s)"

text \<open>
  \<open>kfork\<close> and \<open>thread_fork\<close> are the same code but for the registers the child starts with:
  \<open>child_regs\<close> changes the copy of the parent's trapframe.
\<close>

definition fork_with :: "(trapframe \<Rightarrow> trapframe) \<Rightarrow> 'z iostate_scheme \<Rightarrow> (int, 'z iostate_scheme) res" where
  "fork_with child_regs s =
     (let p = me s in
      if p_fork_count (procs s ! p) \<ge> 10 then Ok (- 1) s
      else andthen (allocproc s) (\<lambda>r s.
        case r of
          None \<Rightarrow> Ok (- 1) s
        | Some np \<Rightarrow>
            andthen (uvmcopy (p_pagetable (procs s ! p)) (p_pagetable (procs s ! np)) (p_sz (procs s ! p)) s) (\<lambda>r s.
            if r < 0 then andthen (freeproc np s) (\<lambda>_ s. Ok (- 1) s)
            else let s = upd_proc np (\<lambda>q. q\<lparr>p_sz := p_sz (procs s ! p), p_tf := child_regs (p_tf (procs s ! p))\<rparr>) s in
              andthen (dup_files NOFILE 0 p np s) (\<lambda>_ s.
              case p_cwd (procs s ! p) of
                None \<Rightarrow> Fault ''fork: null cwd''
              | Some d \<Rightarrow>
                  let s = idup d s;
                      s = upd_proc np (\<lambda>q. q\<lparr>p_cwd := Some d,
                            p_name := overwrite (p_name q) (safestrcpy (at_list (p_name (procs s ! p))) 16),
                            p_parent := Some p, p_state := RUNNABLE\<rparr>) s;
                      s = upd_proc p (\<lambda>q. q\<lparr>p_fork_count := p_fork_count q + 1\<rparr>) s
                  in Ok (p_pid (procs s ! np)) s))))"

definition kfork :: "'z iostate_scheme \<Rightarrow> (int, 'z iostate_scheme) res" where
  "kfork s = fork_with (\<lambda>tf. tf\<lparr>tf_a0 := 0\<rparr>) s"

definition thread_fork :: "u64 \<Rightarrow> u64 \<Rightarrow> 'z iostate_scheme \<Rightarrow> (int, 'z iostate_scheme) res" where
  "thread_fork func arg s = fork_with (\<lambda>tf. tf\<lparr>tf_epc := func, tf_a0 := arg\<rparr>) s"

section \<open>Queries\<close>

definition kgetproccount :: "'z pstate_scheme \<Rightarrow> int" where
  "kgetproccount s = int (length (filter (\<lambda>p. p_state p \<noteq> UNUSED) (procs s)))"

abbreviation PROC_NAME_MAX :: nat where "PROC_NAME_MAX \<equiv> 16"

record procinfo =
  info_pid :: int
  info_state :: int
  info_sz :: u32
  info_name :: "byte list"

fun state_num :: "procstate \<Rightarrow> int" where
  "state_num UNUSED = 0"
| "state_num USED = 1"
| "state_num SLEEPING = 2"
| "state_num RUNNABLE = 3"
| "state_num RUNNING = 4"
| "state_num ZOMBIE = 5"

definition kgetprocinfo :: "int \<Rightarrow> 'z iostate_scheme \<Rightarrow> procinfo option" where
  "kgetprocinfo pid s =
     (case find_idx (\<lambda>p. p_pid p = pid \<and> p_state p \<noteq> UNUSED) (procs s) of
        None \<Rightarrow> None
      | Some i \<Rightarrow>
          let p = procs s ! i
          in Some \<lparr>info_pid = p_pid p, info_state = state_num (p_state p), info_sz = ucast (p_sz p),
                   info_name = overwrite (map (junk s) [0..<PROC_NAME_MAX])
                                 (safestrcpy (at_list (p_name p)) (int PROC_NAME_MAX))\<rparr>)"

section \<open>Exit and wait\<close>

fun reparent_loop :: "nat \<Rightarrow> nat \<Rightarrow> nat \<Rightarrow> 'z pstate_scheme \<Rightarrow> 'z pstate_scheme" where
  "reparent_loop 0 j p s = s"
| "reparent_loop (Suc k) j p s =
     reparent_loop k (Suc j) p
       (if p_parent (procs s ! j) = Some p
        then wakeup (ChProc (the (initproc s))) (upd_proc j (\<lambda>q. q\<lparr>p_parent := initproc s\<rparr>) s)
        else s)"

definition reparent :: "nat \<Rightarrow> 'z pstate_scheme \<Rightarrow> 'z pstate_scheme" where
  "reparent p s = reparent_loop (length (procs s)) 0 p s"

fun close_files :: "nat \<Rightarrow> nat \<Rightarrow> nat \<Rightarrow> 'z iostate_scheme \<Rightarrow> (unit, 'z iostate_scheme) res" where
  "close_files 0 fd p s = Ok () s"
| "close_files (Suc k) fd p s =
     andthen
       (case p_ofile (procs s ! p) ! fd of
          None \<Rightarrow> Ok () s
        | Some f \<Rightarrow> andthen (fileclose f s) (\<lambda>_ s.
            Ok () (upd_proc p (\<lambda>q. q\<lparr>p_ofile := (p_ofile q)[fd := None]\<rparr>) s)))
       (\<lambda>_ s. close_files k (Suc fd) p s)"

definition become_zombie :: "nat \<Rightarrow> int \<Rightarrow> 'z pstate_scheme \<Rightarrow> 'z pstate_scheme" where
  "become_zombie p status s =
     (let s = reparent p s;
          s = (case p_parent (procs s ! p) of None \<Rightarrow> s | Some q \<Rightarrow> wakeup (ChProc q) s)
      in upd_proc p (\<lambda>q. q\<lparr>p_xstate := status, p_state := ZOMBIE\<rparr>) s)"

definition kexit :: "int \<Rightarrow> 'z iostate_scheme \<Rightarrow> (unit, 'z iostate_scheme) res" where
  "kexit status s =
     (let p = me s;
          s = (case p_parent (procs s ! p) of
                 None \<Rightarrow> s
               | Some q \<Rightarrow> upd_proc q (\<lambda>r. r\<lparr>p_fork_count := p_fork_count r - 1\<rparr>) s)
      in if initproc s = Some p then Panic ''init exiting''
         else andthen (close_files NOFILE 0 p s) (\<lambda>_ s.
              andthen (begin_op s) (\<lambda>_ s.
              case p_cwd (procs s ! p) of
                None \<Rightarrow> Fault ''kexit: null cwd''
              | Some d \<Rightarrow>
                  andthen (iput d s) (\<lambda>_ s.
                  andthen (end_op s) (\<lambda>_ s.
                  Resched (become_zombie p status (upd_proc p (\<lambda>q. q\<lparr>p_cwd := None\<rparr>) s)))))))"

text \<open>A zombie child is collected: its exit status is copied out and its entry freed.\<close>

definition reap :: "nat \<Rightarrow> u64 \<Rightarrow> 'z pstate_scheme \<Rightarrow> (int, 'z pstate_scheme) res" where
  "reap i addr s =
     (let pid = p_pid (procs s ! i) in
      andthen (if addr \<noteq> 0
               then copyout (p_pagetable (myproc s)) addr
                      (at_list (le_bytes 4 (word_of_int (p_xstate (procs s ! i)) :: u32))) 4 s
               else Ok 0 s) (\<lambda>r s.
      if r < 0 then Ok (- 1) s
      else andthen (freeproc i s) (\<lambda>_ s. Ok pid s)))"

definition kwaitpid :: "int \<Rightarrow> u64 \<Rightarrow> 'z pstate_scheme \<Rightarrow> (int, 'z pstate_scheme) res" where
  "kwaitpid pid addr s =
     (case find_idx (\<lambda>q. p_parent q = Some (me s) \<and> p_pid q = pid) (procs s) of
        Some i \<Rightarrow>
          if p_state (procs s ! i) = ZOMBIE then reap i addr s
          else if killed (me s) s then Ok (- 1) s
          else sleep (ChProc (me s)) s
      | None \<Rightarrow> Ok (- 1) s)"

definition kwait :: "u64 \<Rightarrow> 'z pstate_scheme \<Rightarrow> (int, 'z pstate_scheme) res" where
  "kwait addr s =
     (case find_idx (\<lambda>q. p_parent q = Some (me s) \<and> p_state q = ZOMBIE) (procs s) of
        Some i \<Rightarrow> reap i addr s
      | None \<Rightarrow>
          if \<not> (\<exists>q \<in> set (procs s). p_parent q = Some (me s)) \<or> killed (me s) s then Ok (- 1) s
          else sleep (ChProc (me s)) s)"

definition child_pids :: "'z pstate_scheme \<Rightarrow> int list" where
  "child_pids s = map p_pid (filter (\<lambda>q. p_parent q = Some (me s) \<and> p_state q \<noteq> UNUSED \<and> p_state q \<noteq> ZOMBIE) (procs s))"

definition kgetchildren :: "u64 \<Rightarrow> int \<Rightarrow> 'z iostate_scheme \<Rightarrow> (int, 'z iostate_scheme) res" where
  "kgetchildren addr maxn s =
     (let kids = child_pids s; n = int (length kids);
          pids = concat (map (\<lambda>pid. le_bytes 4 (word_of_int pid :: u32)) (take (nat maxn) kids));
          src = (\<lambda>i. if i < length pids then pids ! i else junk s i);
          tocopy = (if n < maxn then n else maxn)
      in andthen (if addr \<noteq> 0 then copyout (p_pagetable (myproc s)) addr src (word_of_int tocopy * 4) s else Ok 0 s)
           (\<lambda>r s. if r < 0 then Ok (- 1) s else Ok n s))"

section \<open>Scheduling\<close>

text \<open>
  One pass of the scheduler's inner loop from entry \<open>k\<close>: the entry it switches to, if any. After
  the process comes back the pass goes on with the next entry.
\<close>

definition dispatch :: "nat \<Rightarrow> 'z pstate_scheme \<Rightarrow> 'z pstate_scheme" where
  "dispatch i s = (upd_proc i (\<lambda>p. p\<lparr>p_state := RUNNING\<rparr>) s)\<lparr>cur := Some i\<rparr>"

definition scheduler_pass :: "nat \<Rightarrow> 'z pstate_scheme \<Rightarrow> (nat \<times> 'z pstate_scheme) option" where
  "scheduler_pass k s =
     (case find_from (\<lambda>p. p_state p = RUNNABLE) k (drop k (procs s)) of
        None \<Rightarrow> None
      | Some i \<Rightarrow> Some (i, dispatch i s))"

definition yield :: "'z pstate_scheme \<Rightarrow> ('a, 'z pstate_scheme) res" where
  "yield s = Resched (upd_proc (me s) (\<lambda>p. p\<lparr>p_state := RUNNABLE\<rparr>) s)"

section \<open>Kill, signals and messages\<close>

definition kkill :: "int \<Rightarrow> 'z pstate_scheme \<Rightarrow> int \<times> 'z pstate_scheme" where
  "kkill pid s =
     (case find_idx (\<lambda>p. p_pid p = pid) (procs s) of
        Some i \<Rightarrow> (0, upd_proc i (\<lambda>p. p\<lparr>p_killed := True,
                       p_state := (if p_state p = SLEEPING then RUNNABLE else p_state p)\<rparr>) s)
      | None \<Rightarrow> (- 1, s))"

definition ksigsend :: "int \<Rightarrow> int \<Rightarrow> 'z pstate_scheme \<Rightarrow> int \<times> 'z pstate_scheme" where
  "ksigsend pid signum s =
     (case find_idx (\<lambda>p. p_pid p = pid) (procs s) of
        Some i \<Rightarrow> (0, upd_proc i (\<lambda>p. p\<lparr>p_pending_signals := p_pending_signals p OR push_bit (nat signum) 1\<rparr>) s)
      | None \<Rightarrow> (- 1, s))"

definition kipc_send :: "int \<Rightarrow> u64 \<Rightarrow> int \<Rightarrow> 'z pstate_scheme \<Rightarrow> (int, 'z pstate_scheme) res" where
  "kipc_send pid src n s =
     (if n < 0 then Ok (- 1) s
      else let n = min n (int IPC_MAX_MSG) in
        andthen (if n > 0 then copyin (p_pagetable (myproc s)) src (word_of_int n) s else Ok (0, []) s) (\<lambda>(r, msg) s.
        if r < 0 then Ok (- 1) s
        else (case find_idx (\<lambda>p. p_pid p = pid \<and> p_state p \<noteq> UNUSED) (procs s) of
                None \<Rightarrow> Ok (- 1) s
              | Some t \<Rightarrow>
                  if p_ipc_ready (procs s ! t) then Ok (- 1) s
                  else Ok n (wakeup (ChProc t)
                         (upd_proc t (\<lambda>p. p\<lparr>p_ipc_msg := overwrite (p_ipc_msg p) msg, p_ipc_len := n,
                                            p_ipc_ready := True\<rparr>) s)))))"

definition kipc_recv :: "u64 \<Rightarrow> int \<Rightarrow> 'z pstate_scheme \<Rightarrow> (int, 'z pstate_scheme) res" where
  "kipc_recv dst n s =
     (if n < 0 then Ok (- 1) s
      else let p = myproc s in
        if p_ipc_ready p
        then let m = min (p_ipc_len p) n in
          andthen (if m > 0 then copyout (p_pagetable p) dst (at_list (p_ipc_msg p)) (word_of_int m) s else Ok 0 s) (\<lambda>r s.
          if r < 0 then Ok (- 1) s
          else Ok m (upd_proc (me s) (\<lambda>p. p\<lparr>p_ipc_ready := False, p_ipc_len := 0\<rparr>) s))
        else if killed (me s) s then Ok (- 1) s
        else sleep (ChProc (me s)) s)"

end
