(* ===== verification/Exec.thy ===== *)
theory Exec
  imports Proc
begin

text \<open>
  Program execution, \<open>kernel/exec.c\<close>, with the ELF structures of \<open>kernel/elf.h\<close> read through their
  byte layout. The argument vector is the list of the argument strings, each without its NUL.
  The \<open>goto bad\<close> of the source is \<open>exec_bad\<close>, called with the values the clean-up looks at: the new
  page table, its size and the inode, which is \<open>None\<close> once it has been released. \<open>loadseg\<close> steps
  through a segment with an unbounded counter, which agrees with the 32-bit one for every segment
  shorter than 4 GiB less a page; \<open>uvmalloc\<close> has already found physical pages for all of it.
\<close>

abbreviation MAXARG :: nat where "MAXARG \<equiv> 32"
abbreviation ELF_MAGIC :: u32 where "ELF_MAGIC \<equiv> 0x464C457F"
abbreviation USERSTACK :: u64 where "USERSTACK \<equiv> 1"

definition get64 :: "byte list \<Rightarrow> nat \<Rightarrow> u64" where
  "get64 data off = of_le (bytes_at off 8 data)"

record elfhdr =
  elf_magic :: u32
  elf_entry :: u64
  elf_phoff :: u64
  elf_phnum :: u16

definition get_elfhdr :: "byte list \<Rightarrow> elfhdr" where
  "get_elfhdr d = \<lparr>elf_magic = get32 d 0, elf_entry = get64 d 24, elf_phoff = get64 d 32, elf_phnum = get16 d 56\<rparr>"

record proghdr =
  ph_type :: u32
  ph_flags :: u32
  ph_off :: u64
  ph_vaddr :: u64
  ph_filesz :: u64
  ph_memsz :: u64

definition get_proghdr :: "byte list \<Rightarrow> proghdr" where
  "get_proghdr d = \<lparr>ph_type = get32 d 0, ph_flags = get32 d 4, ph_off = get64 d 8, ph_vaddr = get64 d 16,
     ph_filesz = get64 d 32, ph_memsz = get64 d 40\<rparr>"

definition flags2perm :: "u32 \<Rightarrow> u64" where
  "flags2perm flags =
     (let perm = (if flags AND 1 \<noteq> 0 then PTE_X else 0)
      in if flags AND 2 \<noteq> 0 then perm OR PTE_W else perm)"

function loadseg_loop ::
  "u64 \<Rightarrow> u64 \<Rightarrow> nat \<Rightarrow> u32 \<Rightarrow> nat \<Rightarrow> nat \<Rightarrow> 'z fstate_scheme \<Rightarrow> (int, 'z fstate_scheme) res" where
  "loadseg_loop pagetable va ip offset sz i s =
     (if i < sz
      then andthen (walkaddr pagetable (va + of_nat i) s) (\<lambda>pa s.
        if pa = 0 then Panic ''loadseg: address should exist''
        else let n = min (sz - i) 4096 in
          andthen (readi ip (RMem pa) (offset + of_nat i) (of_nat n) s) (\<lambda>(r, _) s.
          if r \<noteq> int n then Ok (- 1) s
          else loadseg_loop pagetable va ip offset sz (i + 4096) s))
      else Ok 0 s)"
  by pat_completeness auto
termination
  by (relation "measure (\<lambda>(_, _, _, _, sz, i, _). sz - i)") auto

declare loadseg_loop.simps [simp del]

definition loadseg ::
  "u64 \<Rightarrow> u64 \<Rightarrow> nat \<Rightarrow> u32 \<Rightarrow> u32 \<Rightarrow> 'z fstate_scheme \<Rightarrow> (int, 'z fstate_scheme) res" where
  "loadseg pagetable va ip offset sz s = loadseg_loop pagetable va ip offset (unat sz) 0 s"

text \<open>The program headers: the result says whether all were loaded, and the size reached.\<close>

fun load_segments ::
  "nat \<Rightarrow> u32 \<Rightarrow> u64 \<Rightarrow> u64 \<Rightarrow> nat \<Rightarrow> 'z fstate_scheme \<Rightarrow> (bool \<times> u64, 'z fstate_scheme) res" where
  "load_segments 0 off pagetable sz ip s = Ok (True, sz) s"
| "load_segments (Suc k) off pagetable sz ip s =
     andthen (readi ip RLocal off 56 s) (\<lambda>(r, bs) s.
       if r \<noteq> 56 then Ok (False, sz) s
       else let ph = get_proghdr bs in
         if ph_type ph \<noteq> 1 then load_segments k (off + 56) pagetable sz ip s
         else if ph_memsz ph < ph_filesz ph then Ok (False, sz) s
         else if ph_vaddr ph + ph_memsz ph < ph_vaddr ph then Ok (False, sz) s
         else if ph_vaddr ph mod PGSIZE \<noteq> 0 then Ok (False, sz) s
         else andthen (uvmalloc pagetable sz (ph_vaddr ph + ph_memsz ph) (flags2perm (ph_flags ph)) s) (\<lambda>sz1 s.
           if sz1 = 0 then Ok (False, sz) s
           else andthen (loadseg pagetable (ph_vaddr ph) ip (ucast (ph_off ph)) (ucast (ph_filesz ph)) s) (\<lambda>r s.
             if r < 0 then Ok (False, sz1) s
             else load_segments k (off + 56) pagetable sz1 ip s)))"

definition exec_bad ::
  "u64 \<Rightarrow> u64 \<Rightarrow> nat option \<Rightarrow> 'z fstate_scheme \<Rightarrow> (int, 'z fstate_scheme) res" where
  "exec_bad pagetable sz ip s =
     andthen (if pagetable \<noteq> 0 then proc_freepagetable pagetable sz s else Ok () s) (\<lambda>_ s.
     andthen (case ip of
                None \<Rightarrow> Ok () s
              | Some i \<Rightarrow> andthen (iunlockput i s) (\<lambda>_ s. end_op s)) (\<lambda>_ s.
     Ok (- 1) s))"

text \<open>
  The argument strings are pushed one after the other; the result is the stack pointer and the
  addresses of the strings, or \<open>None\<close> where the source jumps to \<open>bad\<close>.
\<close>

definition push_sp :: "u64 \<Rightarrow> nat \<Rightarrow> u64" where
  "push_sp sp n = (let sp = sp - of_nat n in sp - sp mod 16)"

fun push_args ::
  "byte list list \<Rightarrow> u64 \<Rightarrow> u64 \<Rightarrow> u64 \<Rightarrow> u64 list \<Rightarrow> 'z pstate_scheme \<Rightarrow> ((u64 \<times> u64 list) option, 'z pstate_scheme) res" where
  "push_args [] pagetable sp stackbase ustack s = Ok (Some (sp, ustack)) s"
| "push_args (a # argv) pagetable sp stackbase ustack s =
     (if length ustack \<ge> MAXARG then Ok None s
      else let sp = push_sp sp (length a + 1) in
        if sp < stackbase then Ok None s
        else andthen (copyout pagetable sp (at_list a) (of_nat (length a + 1)) s) (\<lambda>r s.
          if r < 0 then Ok None s
          else push_args argv pagetable sp stackbase (ustack @ [sp]) s))"

definition basename :: "byte list \<Rightarrow> byte list" where
  "basename path = rev (takeWhile (\<lambda>c. c \<noteq> slash) (rev path))"

definition exec_stack ::
  "byte list \<Rightarrow> byte list list \<Rightarrow> u64 \<Rightarrow> u64 \<Rightarrow> u64 \<Rightarrow> 'z fstate_scheme \<Rightarrow> (int, 'z fstate_scheme) res" where
  "exec_stack path argv entry pagetable sz s =
     (let oldsz = p_sz (myproc s); sz = PGROUNDUP sz in
      andthen (uvmalloc pagetable sz (sz + (USERSTACK + 1) * PGSIZE) PTE_W s) (\<lambda>sz1 s.
        if sz1 = 0 then exec_bad pagetable sz None s
        else let sz = sz1 in
          andthen (uvmclear pagetable (sz - (USERSTACK + 1) * PGSIZE) s) (\<lambda>_ s.
          let stackbase = sz - USERSTACK * PGSIZE in
          andthen (push_args argv pagetable sz stackbase [] s) (\<lambda>r s.
            case r of
              None \<Rightarrow> exec_bad pagetable sz None s
            | Some (sp, ustack) \<Rightarrow>
                if length ustack \<ge> MAXARG then Fault ''kexec: past ustack''
                else let sp = push_sp sp (8 * (length ustack + 1)) in
                  if sp < stackbase then exec_bad pagetable sz None s
                  else andthen (copyout pagetable sp (at_list (concat (map (le_bytes 8) (ustack @ [0]))))
                                  (of_nat (8 * (length ustack + 1))) s) (\<lambda>r s.
                    if r < 0 then exec_bad pagetable sz None s
                    else let oldpagetable = p_pagetable (myproc s);
                             s = upd_proc (me s) (\<lambda>p. p\<lparr>
                                   p_tf := (p_tf p)\<lparr>tf_a1 := sp, tf_epc := entry, tf_sp := sp\<rparr>,
                                   p_name := overwrite (p_name p) (safestrcpy (at_list (basename path)) 16),
                                   p_pagetable := pagetable, p_sz := sz\<rparr>) s
                         in andthen (proc_freepagetable oldpagetable oldsz s) (\<lambda>_ s.
                            Ok (int (length argv)) s))))))"

definition kexec :: "byte list \<Rightarrow> byte list list \<Rightarrow> 'z fstate_scheme \<Rightarrow> (int, 'z fstate_scheme) res" where
  "kexec path argv s =
     andthen (begin_op s) (\<lambda>_ s.
     andthen (namei path s) (\<lambda>r s.
       case r of
         None \<Rightarrow> andthen (end_op s) (\<lambda>_ s. Ok (- 1) s)
       | Some ip \<Rightarrow>
           andthen (ilock ip s) (\<lambda>_ s.
           andthen (readi ip RLocal 0 64 s) (\<lambda>(r, bs) s.
             if r \<noteq> 64 then exec_bad 0 0 (Some ip) s
             else let elf = get_elfhdr bs in
               if elf_magic elf \<noteq> ELF_MAGIC then exec_bad 0 0 (Some ip) s
               else andthen (proc_pagetable (p_tfpage (myproc s)) s) (\<lambda>pagetable s.
                 if pagetable = 0 then exec_bad 0 0 (Some ip) s
                 else andthen (load_segments (unat (elf_phnum elf)) (ucast (elf_phoff elf)) pagetable 0 ip s) (\<lambda>(ok, sz) s.
                   if \<not> ok then exec_bad pagetable sz (Some ip) s
                   else andthen (iunlockput ip s) (\<lambda>_ s.
                        andthen (end_op s) (\<lambda>_ s. exec_stack path argv (elf_entry elf) pagetable sz s))))))))"

end
