(* ===== verification/Sysarg.thy ===== *)
theory Sysarg
  imports Exec
begin

text \<open>
  Fetching system call arguments, the first half of \<open>kernel/syscall.c\<close>, and the helpers of
  \<open>kernel/sysfile.c\<close> on file descriptors. An argument string is returned without its NUL,
  together with the \<open>int\<close> result of the routine.
\<close>

abbreviation MAXPATH :: nat where "MAXPATH \<equiv> 128"

definition fetchaddr :: "u64 \<Rightarrow> 'z pstate_scheme \<Rightarrow> (int \<times> u64, 'z pstate_scheme) res" where
  "fetchaddr addr s =
     (let p = myproc s in
      if addr \<ge> p_sz p \<or> addr + 8 > p_sz p then Ok (- 1, 0) s
      else andthen (copyin (p_pagetable p) addr 8 s) (\<lambda>(r, bs) s.
        if r \<noteq> 0 then Ok (- 1, 0) s else Ok (0, of_le bs) s))"

definition fetchstr :: "u64 \<Rightarrow> nat \<Rightarrow> 'z pstate_scheme \<Rightarrow> (int \<times> byte list, 'z pstate_scheme) res" where
  "fetchstr addr mx s =
     andthen (copyinstr (p_pagetable (myproc s)) addr (of_nat mx) s) (\<lambda>(r, bs) s.
       if r < 0 then Ok (- 1, []) s
       else let str = takeWhile (\<lambda>c. c \<noteq> 0) bs in Ok (int (length str), str) s)"

definition argraw :: "nat \<Rightarrow> 'z pstate_scheme \<Rightarrow> (u64, 'z pstate_scheme) res" where
  "argraw n s =
     (let tf = p_tf (myproc s) in
      if n = 0 then Ok (tf_a0 tf) s
      else if n = 1 then Ok (tf_a1 tf) s
      else if n = 2 then Ok (tf_a2 tf) s
      else if n = 3 then Ok (tf_a3 tf) s
      else if n = 4 then Ok (tf_a4 tf) s
      else if n = 5 then Ok (tf_a5 tf) s
      else Panic ''argraw'')"

definition argint :: "nat \<Rightarrow> 'z pstate_scheme \<Rightarrow> (int, 'z pstate_scheme) res" where
  "argint n s = andthen (argraw n s) (\<lambda>w s. Ok (cint w) s)"

definition argaddr :: "nat \<Rightarrow> 'z pstate_scheme \<Rightarrow> (u64, 'z pstate_scheme) res" where
  "argaddr n s = argraw n s"

definition argstr :: "nat \<Rightarrow> nat \<Rightarrow> 'z pstate_scheme \<Rightarrow> (int \<times> byte list, 'z pstate_scheme) res" where
  "argstr n mx s = andthen (argaddr n s) (\<lambda>addr s. fetchstr addr mx s)"

definition argfd :: "nat \<Rightarrow> 'z pstate_scheme \<Rightarrow> ((int \<times> nat) option, 'z pstate_scheme) res" where
  "argfd n s =
     andthen (argint n s) (\<lambda>fd s.
       if fd < 0 \<or> fd \<ge> int NOFILE then Ok None s
       else (case p_ofile (myproc s) ! nat fd of
               None \<Rightarrow> Ok None s
             | Some f \<Rightarrow> Ok (Some (fd, f)) s))"

definition fdalloc :: "nat \<Rightarrow> 'z pstate_scheme \<Rightarrow> int \<times> 'z pstate_scheme" where
  "fdalloc f s =
     (case find_idx (\<lambda>e. e = None) (p_ofile (myproc s)) of
        Some fd \<Rightarrow> (int fd, upd_proc (me s) (\<lambda>p. p\<lparr>p_ofile := (p_ofile p)[fd := Some f]\<rparr>) s)
      | None \<Rightarrow> (- 1, s))"

definition clear_fd :: "nat \<Rightarrow> 'z pstate_scheme \<Rightarrow> 'z pstate_scheme" where
  "clear_fd fd s = upd_proc (me s) (\<lambda>p. p\<lparr>p_ofile := (p_ofile p)[fd := None]\<rparr>) s"

text \<open>An \<open>int\<close> result becomes the register value of the system call.\<close>

definition returning :: "(int, 's) res \<Rightarrow> (u64, 's) res" where
  "returning r = andthen r (\<lambda>i s. Ok (int_reg i) s)"

end
