(* ===== verification/Sysfile.thy ===== *)
theory Sysfile
  imports Sysarg
begin

text \<open>
  The file system calls, \<open>kernel/sysfile.c\<close>. Every call returns the value of register \<open>a0\<close>. The
  clean-up code behind a \<open>goto\<close> is a definition of its own (\<open>link_bad\<close>, \<open>unlink_bad\<close>,
  \<open>create_fail\<close>). The argument vector of \<open>sys_exec\<close> is the list of its pages with the strings
  they hold.
\<close>

abbreviation O_RDONLY :: int where "O_RDONLY \<equiv> 0"
abbreviation O_WRONLY :: int where "O_WRONLY \<equiv> 1"
abbreviation O_RDWR :: int where "O_RDWR \<equiv> 2"
abbreviation O_CREATE :: int where "O_CREATE \<equiv> 0x200"
abbreviation O_TRUNC :: int where "O_TRUNC \<equiv> 0x400"

definition sys_dup :: "'z iostate_scheme \<Rightarrow> (u64, 'z iostate_scheme) res" where
  "sys_dup s =
     andthen (argfd 0 s) (\<lambda>r s.
       case r of
         None \<Rightarrow> Ok (- 1) s
       | Some (_, f) \<Rightarrow>
           (case fdalloc f s of (fd, s) \<Rightarrow>
              if fd < 0 then Ok (- 1) s
              else andthen (filedup f s) (\<lambda>_ s. Ok (int_reg fd) s)))"

definition sys_read :: "'z iostate_scheme \<Rightarrow> (u64, 'z iostate_scheme) res" where
  "sys_read s =
     andthen (argaddr 1 s) (\<lambda>p s.
     andthen (argint 2 s) (\<lambda>n s.
     andthen (argfd 0 s) (\<lambda>r s.
       case r of None \<Rightarrow> Ok (- 1) s | Some (_, f) \<Rightarrow> returning (fileread f p n s))))"

definition sys_write :: "'z iostate_scheme \<Rightarrow> (u64, 'z iostate_scheme) res" where
  "sys_write s =
     andthen (argaddr 1 s) (\<lambda>p s.
     andthen (argint 2 s) (\<lambda>n s.
     andthen (argfd 0 s) (\<lambda>r s.
       case r of None \<Rightarrow> Ok (- 1) s | Some (_, f) \<Rightarrow> returning (filewrite f p n s))))"

definition sys_close :: "'z iostate_scheme \<Rightarrow> (u64, 'z iostate_scheme) res" where
  "sys_close s =
     andthen (argfd 0 s) (\<lambda>r s.
       case r of
         None \<Rightarrow> Ok (- 1) s
       | Some (fd, f) \<Rightarrow> andthen (fileclose f (clear_fd (nat fd) s)) (\<lambda>_ s. Ok 0 s))"

definition sys_fstat :: "'z iostate_scheme \<Rightarrow> (u64, 'z iostate_scheme) res" where
  "sys_fstat s =
     andthen (argaddr 1 s) (\<lambda>st s.
     andthen (argfd 0 s) (\<lambda>r s.
       case r of None \<Rightarrow> Ok (- 1) s | Some (_, f) \<Rightarrow> returning (filestat f st s)))"

section \<open>Links\<close>

abbreviation set_nlink :: "nat \<Rightarrow> (u16 \<Rightarrow> u16) \<Rightarrow> 'z fstate_scheme \<Rightarrow> 'z fstate_scheme" where
  "set_nlink ip f s \<equiv> upd_inode ip (\<lambda>i. i\<lparr>i_nlink := f (i_nlink i)\<rparr>) s"

abbreviation end_op_with :: "u64 \<Rightarrow> 'z fstate_scheme \<Rightarrow> (u64, 'z fstate_scheme) res" where
  "end_op_with r s \<equiv> andthen (end_op s) (\<lambda>_ s. Ok r s)"

definition link_bad :: "nat \<Rightarrow> 'z fstate_scheme \<Rightarrow> (u64, 'z fstate_scheme) res" where
  "link_bad ip s =
     andthen (ilock ip s) (\<lambda>_ s.
     andthen (iupdate ip (set_nlink ip (\<lambda>n. n - 1) s)) (\<lambda>_ s.
     andthen (iunlockput ip s) (\<lambda>_ s. end_op_with (- 1) s)))"

definition sys_link :: "'z fstate_scheme \<Rightarrow> (u64, 'z fstate_scheme) res" where
  "sys_link s =
     andthen (argstr 0 MAXPATH s) (\<lambda>(r, old) s.
     if r < 0 then Ok (- 1) s
     else andthen (argstr 1 MAXPATH s) (\<lambda>(r, new) s.
     if r < 0 then Ok (- 1) s
     else andthen (begin_op s) (\<lambda>_ s.
     andthen (namei old s) (\<lambda>r s.
     case r of
       None \<Rightarrow> end_op_with (- 1) s
     | Some ip \<Rightarrow>
         andthen (ilock ip s) (\<lambda>_ s.
         if i_type (itable s ! ip) = T_DIR
         then andthen (iunlockput ip s) (\<lambda>_ s. end_op_with (- 1) s)
         else andthen (iupdate ip (set_nlink ip (\<lambda>n. n + 1) s)) (\<lambda>_ s.
              andthen (iunlock ip s) (\<lambda>_ s.
              andthen (nameiparent new s) (\<lambda>(r, name) s.
              case r of
                None \<Rightarrow> link_bad ip s
              | Some dp \<Rightarrow>
                  andthen (ilock dp s) (\<lambda>_ s.
                  andthen (if i_dev (itable s ! dp) \<noteq> i_dev (itable s ! ip) then Ok (- 1) s
                           else dirlink dp name (i_inum (itable s ! ip)) s) (\<lambda>r s.
                  if r < 0 then andthen (iunlockput dp s) (\<lambda>_ s. link_bad ip s)
                  else andthen (iunlockput dp s) (\<lambda>_ s.
                       andthen (iput ip s) (\<lambda>_ s. end_op_with 0 s))))))))))))"

function isdirempty_loop :: "nat \<Rightarrow> nat \<Rightarrow> nat \<Rightarrow> 'z fstate_scheme \<Rightarrow> (bool, 'z fstate_scheme) res" where
  "isdirempty_loop sz dp off s =
     (if off < sz
      then andthen (readi dp RLocal (of_nat off) 16 s) (\<lambda>(r, de) s.
        if r \<noteq> 16 then Panic ''isdirempty: readi''
        else if de_inum de \<noteq> 0 then Ok False s
        else isdirempty_loop sz dp (off + 16) s)
      else Ok True s)"
  by pat_completeness auto
termination
  by (relation "measure (\<lambda>(sz, _, off, _). sz - off)") auto

declare isdirempty_loop.simps [simp del]

definition isdirempty :: "nat \<Rightarrow> 'z fstate_scheme \<Rightarrow> (bool, 'z fstate_scheme) res" where
  "isdirempty dp s = isdirempty_loop (unat (i_size (itable s ! dp))) dp 32 s"

definition unlink_bad :: "nat \<Rightarrow> 'z fstate_scheme \<Rightarrow> (u64, 'z fstate_scheme) res" where
  "unlink_bad dp s = andthen (iunlockput dp s) (\<lambda>_ s. end_op_with (- 1) s)"

definition unlink_entry :: "nat \<Rightarrow> nat \<Rightarrow> u32 \<Rightarrow> 'z fstate_scheme \<Rightarrow> (u64, 'z fstate_scheme) res" where
  "unlink_entry dp ip off s =
     andthen (writei dp (WLocal (replicate 16 0)) off 16 s) (\<lambda>r s.
     if r \<noteq> 16 then Panic ''unlink: writei''
     else andthen (if i_type (itable s ! ip) = T_DIR then iupdate dp (set_nlink dp (\<lambda>n. n - 1) s) else Ok () s) (\<lambda>_ s.
          andthen (iunlockput dp s) (\<lambda>_ s.
          andthen (iupdate ip (set_nlink ip (\<lambda>n. n - 1) s)) (\<lambda>_ s.
          andthen (iunlockput ip s) (\<lambda>_ s. end_op_with 0 s)))))"

definition sys_unlink :: "'z fstate_scheme \<Rightarrow> (u64, 'z fstate_scheme) res" where
  "sys_unlink s =
     andthen (argstr 0 MAXPATH s) (\<lambda>(r, path) s.
     if r < 0 then Ok (- 1) s
     else andthen (begin_op s) (\<lambda>_ s.
     andthen (nameiparent path s) (\<lambda>(r, name) s.
     case r of
       None \<Rightarrow> end_op_with (- 1) s
     | Some dp \<Rightarrow>
         andthen (ilock dp s) (\<lambda>_ s.
         if namecmp name (ascii ''.'') = 0 \<or> namecmp name (ascii ''..'') = 0 then unlink_bad dp s
         else andthen (dirlookup dp name s) (\<lambda>r s.
         case r of
           None \<Rightarrow> unlink_bad dp s
         | Some (ip, off) \<Rightarrow>
             andthen (ilock ip s) (\<lambda>_ s.
             if sint (i_nlink (itable s ! ip)) < 1 then Panic ''unlink: nlink < 1''
             else andthen (if i_type (itable s ! ip) = T_DIR then isdirempty ip s else Ok True s) (\<lambda>removable s.
               if \<not> removable then andthen (iunlockput ip s) (\<lambda>_ s. unlink_bad dp s)
               else unlink_entry dp ip off s)))))))"

section \<open>Creation and opening\<close>

definition create_fail :: "nat \<Rightarrow> nat \<Rightarrow> 'z fstate_scheme \<Rightarrow> (nat option, 'z fstate_scheme) res" where
  "create_fail ip dp s =
     andthen (iupdate ip (set_nlink ip (\<lambda>_. 0) s)) (\<lambda>_ s.
     andthen (iunlockput ip s) (\<lambda>_ s.
     andthen (iunlockput dp s) (\<lambda>_ s. Ok None s)))"

definition create_new ::
  "nat \<Rightarrow> byte list \<Rightarrow> u16 \<Rightarrow> u16 \<Rightarrow> u16 \<Rightarrow> 'z fstate_scheme \<Rightarrow> (nat option, 'z fstate_scheme) res" where
  "create_new dp name type major minor s =
     andthen (ialloc (i_dev (itable s ! dp)) type s) (\<lambda>r s.
     case r of
       None \<Rightarrow> andthen (iunlockput dp s) (\<lambda>_ s. Ok None s)
     | Some ip \<Rightarrow>
         andthen (ilock ip s) (\<lambda>_ s.
         andthen (iupdate ip (upd_inode ip (\<lambda>i. i\<lparr>i_major := major, i_minor := minor, i_nlink := 1\<rparr>) s)) (\<lambda>_ s.
         andthen
           (if type = T_DIR
            then andthen (dirlink ip (ascii ''.'') (i_inum (itable s ! ip)) s) (\<lambda>r s.
                 if r < 0 then Ok (- 1) s else dirlink ip (ascii ''..'') (i_inum (itable s ! dp)) s)
            else Ok 0 s) (\<lambda>r s.
         if r < 0 then create_fail ip dp s
         else andthen (dirlink dp name (i_inum (itable s ! ip)) s) (\<lambda>r s.
              if r < 0 then create_fail ip dp s
              else andthen (if type = T_DIR then iupdate dp (set_nlink dp (\<lambda>n. n + 1) s) else Ok () s) (\<lambda>_ s.
                   andthen (iunlockput dp s) (\<lambda>_ s. Ok (Some ip) s)))))))"

definition create ::
  "byte list \<Rightarrow> u16 \<Rightarrow> u16 \<Rightarrow> u16 \<Rightarrow> 'z fstate_scheme \<Rightarrow> (nat option, 'z fstate_scheme) res" where
  "create path type major minor s =
     andthen (nameiparent path s) (\<lambda>(r, name) s.
     case r of
       None \<Rightarrow> Ok None s
     | Some dp \<Rightarrow>
         andthen (ilock dp s) (\<lambda>_ s.
         andthen (dirlookup dp name s) (\<lambda>r s.
         case r of
           Some (ip, _) \<Rightarrow>
             andthen (iunlockput dp s) (\<lambda>_ s.
             andthen (ilock ip s) (\<lambda>_ s.
             if type = T_FILE \<and> (i_type (itable s ! ip) = T_FILE \<or> i_type (itable s ! ip) = T_DEVICE)
             then Ok (Some ip) s
             else andthen (iunlockput ip s) (\<lambda>_ s. Ok None s)))
         | None \<Rightarrow> create_new dp name type major minor s)))"

text \<open>The inode to open, locked, or \<open>None\<close> when the call fails before it has one.\<close>

definition open_inode :: "byte list \<Rightarrow> int \<Rightarrow> 'z fstate_scheme \<Rightarrow> (nat option, 'z fstate_scheme) res" where
  "open_inode path omode s =
     (if omode AND O_CREATE \<noteq> 0 then create path T_FILE 0 0 s
      else andthen (namei path s) (\<lambda>r s.
        case r of
          None \<Rightarrow> Ok None s
        | Some ip \<Rightarrow>
            andthen (ilock ip s) (\<lambda>_ s.
            if i_type (itable s ! ip) = T_DIR \<and> omode \<noteq> O_RDONLY
            then andthen (iunlockput ip s) (\<lambda>_ s. Ok None s)
            else Ok (Some ip) s)))"

definition sys_open :: "'z iostate_scheme \<Rightarrow> (u64, 'z iostate_scheme) res" where
  "sys_open s =
     andthen (argint 1 s) (\<lambda>omode s.
     andthen (argstr 0 MAXPATH s) (\<lambda>(n, path) s.
     if n < 0 then Ok (- 1) s
     else andthen (begin_op s) (\<lambda>_ s.
     andthen (open_inode path omode s) (\<lambda>r s.
     case r of
       None \<Rightarrow> end_op_with (- 1) s
     | Some ip \<Rightarrow>
         let fail = (\<lambda>s. andthen (iunlockput ip s) (\<lambda>_ s. end_op_with (- 1) s)); i = itable s ! ip in
         if i_type i = T_DEVICE \<and> (sint (i_major i) < 0 \<or> sint (i_major i) \<ge> int NDEV) then fail s
         else (case filealloc s of
           (None, s) \<Rightarrow> fail s
         | (Some f, s) \<Rightarrow>
             (case fdalloc f s of (fd, s) \<Rightarrow>
                if fd < 0 then andthen (fileclose f s) (\<lambda>_ s. fail s)
                else let s = (if i_type i = T_DEVICE
                              then upd_file f (\<lambda>x. x\<lparr>f_type := FD_DEVICE, f_major := i_major i\<rparr>) s
                              else upd_file f (\<lambda>x. x\<lparr>f_type := FD_INODE, f_off := 0\<rparr>) s);
                         s = upd_file f (\<lambda>x. x\<lparr>f_ip := ip, f_readable := (omode AND O_WRONLY = 0),
                               f_writable := (omode AND O_WRONLY \<noteq> 0 \<or> omode AND O_RDWR \<noteq> 0)\<rparr>) s
                     in andthen (if omode AND O_TRUNC \<noteq> 0 \<and> i_type i = T_FILE then itrunc ip s else Ok () s) (\<lambda>_ s.
                        andthen (iunlock ip s) (\<lambda>_ s. end_op_with (int_reg fd) s))))))))"

definition sys_mkdir :: "'z fstate_scheme \<Rightarrow> (u64, 'z fstate_scheme) res" where
  "sys_mkdir s =
     andthen (begin_op s) (\<lambda>_ s.
     andthen (argstr 0 MAXPATH s) (\<lambda>(r, path) s.
     andthen (if r < 0 then Ok None s else create path T_DIR 0 0 s) (\<lambda>r s.
     case r of
       None \<Rightarrow> end_op_with (- 1) s
     | Some ip \<Rightarrow> andthen (iunlockput ip s) (\<lambda>_ s. end_op_with 0 s))))"

definition sys_mknod :: "'z fstate_scheme \<Rightarrow> (u64, 'z fstate_scheme) res" where
  "sys_mknod s =
     andthen (begin_op s) (\<lambda>_ s.
     andthen (argint 1 s) (\<lambda>major s.
     andthen (argint 2 s) (\<lambda>minor s.
     andthen (argstr 0 MAXPATH s) (\<lambda>(r, path) s.
     andthen (if r < 0 then Ok None s else create path T_DEVICE (word_of_int major) (word_of_int minor) s) (\<lambda>r s.
     case r of
       None \<Rightarrow> end_op_with (- 1) s
     | Some ip \<Rightarrow> andthen (iunlockput ip s) (\<lambda>_ s. end_op_with 0 s))))))"

definition sys_chdir :: "'z fstate_scheme \<Rightarrow> (u64, 'z fstate_scheme) res" where
  "sys_chdir s =
     andthen (begin_op s) (\<lambda>_ s.
     andthen (argstr 0 MAXPATH s) (\<lambda>(r, path) s.
     andthen (if r < 0 then Ok None s else namei path s) (\<lambda>r s.
     case r of
       None \<Rightarrow> end_op_with (- 1) s
     | Some ip \<Rightarrow>
         andthen (ilock ip s) (\<lambda>_ s.
         if i_type (itable s ! ip) \<noteq> T_DIR
         then andthen (iunlockput ip s) (\<lambda>_ s. end_op_with (- 1) s)
         else andthen (iunlock ip s) (\<lambda>_ s.
              case p_cwd (myproc s) of
                None \<Rightarrow> Fault ''sys_chdir: null cwd''
              | Some d \<Rightarrow>
                  andthen (iput d s) (\<lambda>_ s.
                  andthen (end_op s) (\<lambda>_ s.
                  Ok 0 (upd_proc (me s) (\<lambda>p. p\<lparr>p_cwd := Some ip\<rparr>) s))))))))"

section \<open>Exec and pipe\<close>

fun exec_args ::
  "nat \<Rightarrow> nat \<Rightarrow> u64 \<Rightarrow> (u64 \<times> byte list) list \<Rightarrow> 'z pstate_scheme \<Rightarrow> (bool \<times> (u64 \<times> byte list) list, 'z pstate_scheme) res" where
  "exec_args 0 i uargv argv s = Ok (False, argv) s"
| "exec_args (Suc k) i uargv argv s =
     andthen (fetchaddr (uargv + 8 * of_nat i) s) (\<lambda>(r, uarg) s.
       if r < 0 then Ok (False, argv) s
       else if uarg = 0 then Ok (True, argv) s
       else andthen (kalloc s) (\<lambda>page s.
         if page = 0 then Ok (False, argv) s
         else andthen (fetchstr uarg 4096 s) (\<lambda>(r, str) s.
           if r < 0 then Ok (False, argv @ [(page, str)]) s
           else exec_args k (Suc i) uargv (argv @ [(page, str)])
                  (s\<lparr>mem := mem_write (mem s) page (str @ [0])\<rparr>))))"

fun kfree_pages :: "(u64 \<times> byte list) list \<Rightarrow> 'z machine_scheme \<Rightarrow> (unit, 'z machine_scheme) res" where
  "kfree_pages [] s = Ok () s"
| "kfree_pages ((page, _) # ps) s = andthen (kfree page s) (\<lambda>_ s. kfree_pages ps s)"

definition sys_exec :: "'z fstate_scheme \<Rightarrow> (u64, 'z fstate_scheme) res" where
  "sys_exec s =
     andthen (argaddr 1 s) (\<lambda>uargv s.
     andthen (argstr 0 MAXPATH s) (\<lambda>(r, path) s.
     if r < 0 then Ok (- 1) s
     else andthen (exec_args MAXARG 0 uargv [] s) (\<lambda>(ok, argv) s.
          if ok
          then andthen (kexec path (map snd argv) s) (\<lambda>ret s.
               andthen (kfree_pages argv s) (\<lambda>_ s. Ok (int_reg ret) s))
          else andthen (kfree_pages argv s) (\<lambda>_ s. Ok (- 1) s))))"

definition close_two :: "nat \<Rightarrow> nat \<Rightarrow> 'z iostate_scheme \<Rightarrow> (u64, 'z iostate_scheme) res" where
  "close_two rfile wfile s = andthen (fileclose rfile s) (\<lambda>_ s. andthen (fileclose wfile s) (\<lambda>_ s. Ok (- 1) s))"

definition sys_pipe :: "'z iostate_scheme \<Rightarrow> (u64, 'z iostate_scheme) res" where
  "sys_pipe s =
     andthen (argaddr 0 s) (\<lambda>fdarray s.
     andthen (pipealloc s) (\<lambda>r s.
     case r of
       None \<Rightarrow> Ok (- 1) s
     | Some (rfile, wfile) \<Rightarrow>
         (case fdalloc rfile s of (fd0, s) \<Rightarrow>
            if fd0 < 0 then close_two rfile wfile s
            else (case fdalloc wfile s of (fd1, s) \<Rightarrow>
              if fd1 < 0 then close_two rfile wfile (clear_fd (nat fd0) s)
              else let pt = p_pagetable (myproc s);
                       undo = (\<lambda>s. close_two rfile wfile (clear_fd (nat fd1) (clear_fd (nat fd0) s))) in
                andthen (copyout pt fdarray (at_list (le_bytes 4 (word_of_int fd0 :: u32))) 4 s) (\<lambda>r s.
                if r < 0 then undo s
                else andthen (copyout pt (fdarray + 4) (at_list (le_bytes 4 (word_of_int fd1 :: u32))) 4 s) (\<lambda>r s.
                     if r < 0 then undo s else Ok 0 s))))))"

end
