(* ===== verification/Sysproc.thy ===== *)
theory Sysproc
  imports Sysarg
begin

text \<open>
  The process system calls, \<open>kernel/sysproc.c\<close>. \<open>sys_pause\<close> is one pass of its loop: \<open>ticks0\<close> is
  the time at which the call began, so the first pass has \<open>ticks0 = ticks s\<close> and \<open>pause_from\<close> is the
  pass after a wake-up.
\<close>

abbreviation SBRK_EAGER :: int where "SBRK_EAGER \<equiv> 1"

definition sys_exit :: "'z iostate_scheme \<Rightarrow> (u64, 'z iostate_scheme) res" where
  "sys_exit s = andthen (argint 0 s) (\<lambda>n s. andthen (kexit n s) (\<lambda>_ s. Ok 0 s))"

definition sys_getproccount :: "'z iostate_scheme \<Rightarrow> (u64, 'z iostate_scheme) res" where
  "sys_getproccount s = Ok (int_reg (kgetproccount s)) s"

definition procinfo_bytes :: "procinfo \<Rightarrow> byte list" where
  "procinfo_bytes info = le_bytes 4 (word_of_int (info_pid info) :: u32) @
     le_bytes 4 (word_of_int (info_state info) :: u32) @ le_bytes 4 (info_sz info) @ info_name info"

definition sys_getprocinfo :: "'z iostate_scheme \<Rightarrow> (u64, 'z iostate_scheme) res" where
  "sys_getprocinfo s =
     andthen (argint 0 s) (\<lambda>pid s.
     andthen (argaddr 1 s) (\<lambda>addr s.
     case kgetprocinfo pid s of
       None \<Rightarrow> Ok (- 1) s
     | Some info \<Rightarrow>
         andthen (copyout (p_pagetable (myproc s)) addr (at_list (procinfo_bytes info)) 28 s) (\<lambda>r s.
         if r < 0 then Ok (- 1) s else Ok 0 s)))"

definition sys_getpid :: "'z iostate_scheme \<Rightarrow> (u64, 'z iostate_scheme) res" where
  "sys_getpid s = Ok (int_reg (p_pid (myproc s))) s"

definition sys_fork :: "'z iostate_scheme \<Rightarrow> (u64, 'z iostate_scheme) res" where
  "sys_fork s = returning (kfork s)"

definition sys_thread_create :: "'z iostate_scheme \<Rightarrow> (u64, 'z iostate_scheme) res" where
  "sys_thread_create s =
     andthen (argaddr 0 s) (\<lambda>func s. andthen (argaddr 1 s) (\<lambda>arg s. returning (thread_fork func arg s)))"

definition sys_thread_join :: "'z iostate_scheme \<Rightarrow> (u64, 'z iostate_scheme) res" where
  "sys_thread_join s = andthen (argint 0 s) (\<lambda>pid s. returning (kwaitpid pid 0 s))"

definition sys_thread_exit :: "'z iostate_scheme \<Rightarrow> (u64, 'z iostate_scheme) res" where
  "sys_thread_exit s = andthen (kexit 0 s) (\<lambda>_ s. Ok 0 s)"

definition sys_wait :: "'z iostate_scheme \<Rightarrow> (u64, 'z iostate_scheme) res" where
  "sys_wait s = andthen (argaddr 0 s) (\<lambda>p s. returning (kwait p s))"

definition sys_getppid :: "'z iostate_scheme \<Rightarrow> (u64, 'z iostate_scheme) res" where
  "sys_getppid s =
     Ok (case p_parent (myproc s) of None \<Rightarrow> 0 | Some q \<Rightarrow> int_reg (p_pid (procs s ! q))) s"

definition sys_sbrk :: "'z iostate_scheme \<Rightarrow> (u64, 'z iostate_scheme) res" where
  "sys_sbrk s =
     andthen (argint 0 s) (\<lambda>n s.
     andthen (argint 1 s) (\<lambda>t s.
     let addr = p_sz (myproc s) in
     if t = SBRK_EAGER \<or> n < 0
     then andthen (growproc n s) (\<lambda>r s. if r < 0 then Ok (- 1) s else Ok addr s)
     else if addr + word_of_int n < addr then Ok (- 1) s
     else if addr + word_of_int n > TRAPFRAME then Ok (- 1) s
     else Ok addr (upd_proc (me s) (\<lambda>p. p\<lparr>p_sz := p_sz p + word_of_int n\<rparr>) s)))"

definition pause_from :: "u32 \<Rightarrow> int \<Rightarrow> 'z pstate_scheme \<Rightarrow> (u64, 'z pstate_scheme) res" where
  "pause_from ticks0 n s =
     (if ticks s - ticks0 < word_of_int n
      then if killed (me s) s then Ok (- 1) s else sleep ChTicks s
      else Ok 0 s)"

definition sys_pause :: "'z iostate_scheme \<Rightarrow> (u64, 'z iostate_scheme) res" where
  "sys_pause s =
     andthen (argint 0 s) (\<lambda>n s. pause_from (ticks s) (if n < 0 then 0 else n) s)"

definition sys_kill :: "'z iostate_scheme \<Rightarrow> (u64, 'z iostate_scheme) res" where
  "sys_kill s = andthen (argint 0 s) (\<lambda>pid s. case kkill pid s of (r, s) \<Rightarrow> Ok (int_reg r) s)"

definition sys_uptime :: "'z iostate_scheme \<Rightarrow> (u64, 'z iostate_scheme) res" where
  "sys_uptime s = Ok (ucast (ticks s)) s"

definition sys_waitpid :: "'z iostate_scheme \<Rightarrow> (u64, 'z iostate_scheme) res" where
  "sys_waitpid s =
     andthen (argint 0 s) (\<lambda>pid s. andthen (argaddr 1 s) (\<lambda>addr s. returning (kwaitpid pid addr s)))"

definition sys_getchildren :: "'z iostate_scheme \<Rightarrow> (u64, 'z iostate_scheme) res" where
  "sys_getchildren s =
     andthen (argaddr 0 s) (\<lambda>addr s. andthen (argint 1 s) (\<lambda>maxn s. returning (kgetchildren addr maxn s)))"

definition sys_signal :: "'z iostate_scheme \<Rightarrow> (u64, 'z iostate_scheme) res" where
  "sys_signal s =
     andthen (argint 0 s) (\<lambda>signum s.
     andthen (argaddr 1 s) (\<lambda>handler s.
     if signum < 0 \<or> signum \<ge> 32 then Ok (- 1) s
     else Ok 0 (upd_proc (me s)
            (\<lambda>p. p\<lparr>p_signal_handlers := (p_signal_handlers p)[nat signum := handler]\<rparr>) s)))"

definition sys_sigreturn :: "'z iostate_scheme \<Rightarrow> (u64, 'z iostate_scheme) res" where
  "sys_sigreturn s =
     (let s = upd_proc (me s) (\<lambda>p. p\<lparr>p_tf := p_saved_trapframe p, p_handling_signal := False\<rparr>) s
      in Ok (tf_a0 (p_tf (myproc s))) s)"

definition sys_sigsend :: "'z iostate_scheme \<Rightarrow> (u64, 'z iostate_scheme) res" where
  "sys_sigsend s =
     andthen (argint 0 s) (\<lambda>pid s.
     andthen (argint 1 s) (\<lambda>signum s.
     if signum < 0 \<or> signum \<ge> 32 then Ok (- 1) s
     else (case ksigsend pid signum s of (r, s) \<Rightarrow> Ok (int_reg r) s)))"

definition sys_ipc_send :: "'z iostate_scheme \<Rightarrow> (u64, 'z iostate_scheme) res" where
  "sys_ipc_send s =
     andthen (argint 0 s) (\<lambda>pid s.
     andthen (argaddr 1 s) (\<lambda>src s.
     andthen (argint 2 s) (\<lambda>n s. returning (kipc_send pid src n s))))"

definition sys_ipc_recv :: "'z iostate_scheme \<Rightarrow> (u64, 'z iostate_scheme) res" where
  "sys_ipc_recv s =
     andthen (argaddr 0 s) (\<lambda>dst s. andthen (argint 1 s) (\<lambda>n s. returning (kipc_recv dst n s)))"

end
