(* ===== verification/Virtio.thy ===== *)
theory Virtio
  imports File
begin

text \<open>
  The disk driver, \<open>kernel/virtio_disk.c\<close> with the structures of \<open>kernel/virtio.h\<close>. The three queue
  areas are the components of \<open>vdisk\<close>: the descriptor table, the ring of chain heads the driver makes
  available and the ring of heads the device has used. An address in a descriptor is a request
  header, the data of a buffer or a status byte, by its index. A register of the device is written to
  the trace \<open>mmio_w\<close>; the values the driver reads are the argument \<open>R\<close> of the routine. A disk request
  has two parts, up to the wait for the device and after it: \<open>virtio_submit\<close> and \<open>virtio_finish\<close>.
\<close>

abbreviation NUM :: nat where "NUM \<equiv> 8"
abbreviation VRING_DESC_F_NEXT :: u16 where "VRING_DESC_F_NEXT \<equiv> 1"
abbreviation VRING_DESC_F_WRITE :: u16 where "VRING_DESC_F_WRITE \<equiv> 2"

datatype daddr = NoAddr | ReqAddr nat | DataAddr nat | StatusAddr nat

record virtq_desc =
  q_addr :: daddr
  q_len :: u32
  q_flags :: u16
  q_next :: u16

record virtio_blk_req =
  req_type :: u32
  req_sector :: u64

record vinfo =
  info_b :: "nat option"
  info_status :: byte

record vdisk =
  vd_desc :: "virtq_desc list"
  avail_idx :: u16
  avail_ring :: "u16 list"
  dev_used_idx :: u16
  used_ring :: "u32 list"
  vd_free :: "bool list"
  used_idx :: u16
  vd_info :: "vinfo list"
  vd_ops :: "virtio_blk_req list"

record vstate = iostate +
  vd :: vdisk
  mmio_w :: "(nat \<times> u32) list"

definition upd_vd :: "(vdisk \<Rightarrow> vdisk) \<Rightarrow> 'z vstate_scheme \<Rightarrow> 'z vstate_scheme" where
  "upd_vd f s = s\<lparr>vd := f (vd s)\<rparr>"

definition zero_desc :: virtq_desc where
  "zero_desc = \<lparr>q_addr = NoAddr, q_len = 0, q_flags = 0, q_next = 0\<rparr>"

definition mmio_write :: "nat \<Rightarrow> u32 \<Rightarrow> 'z vstate_scheme \<Rightarrow> 'z vstate_scheme" where
  "mmio_write r v s = s\<lparr>mmio_w := mmio_w s @ [(r, v)]\<rparr>"

section \<open>Initialisation\<close>

definition negotiate :: "u32 \<Rightarrow> u32" where
  "negotiate features = features AND NOT (push_bit 5 1) AND NOT (push_bit 7 1) AND NOT (push_bit 11 1)
     AND NOT (push_bit 12 1) AND NOT (push_bit 27 1) AND NOT (push_bit 29 1) AND NOT (push_bit 28 1)"

definition write_queue_addr :: "nat \<Rightarrow> u64 \<Rightarrow> 'z vstate_scheme \<Rightarrow> 'z vstate_scheme" where
  "write_queue_addr r a s = mmio_write (r + 4) (ucast (drop_bit 32 a)) (mmio_write r (ucast a) s)"

definition virtio_disk_init :: "(nat \<Rightarrow> u32) \<Rightarrow> 'z vstate_scheme \<Rightarrow> (unit, 'z vstate_scheme) res" where
  "virtio_disk_init R s =
     (if R 0x000 \<noteq> 0x74726976 \<or> R 0x004 \<noteq> 2 \<or> R 0x008 \<noteq> 2 \<or> R 0x00c \<noteq> 0x554d4551
      then Panic ''could not find virtio disk''
      else let s = mmio_write 0x070 0 s;
               s = mmio_write 0x070 1 s;
               s = mmio_write 0x070 (1 OR 2) s;
               s = mmio_write 0x020 (negotiate (R 0x010)) s;
               s = mmio_write 0x070 (1 OR 2 OR 8) s;
               status = R 0x070
           in if status AND 8 = 0 then Panic ''virtio disk FEATURES_OK unset''
      else let s = mmio_write 0x030 0 s
           in if R 0x044 \<noteq> 0 then Panic ''virtio disk should not be ready''
      else if R 0x034 = 0 then Panic ''virtio disk has no queue 0''
      else if R 0x034 < of_nat NUM then Panic ''virtio disk max queue too short''
      else andthen (kalloc s) (\<lambda>desc s.
           andthen (kalloc s) (\<lambda>avail s.
           andthen (kalloc s) (\<lambda>used s.
           if desc = 0 \<or> avail = 0 \<or> used = 0 then Panic ''virtio disk kalloc''
           else let s = upd_vd (\<lambda>d. d\<lparr>vd_desc := replicate NUM zero_desc, avail_idx := 0, avail_ring := replicate NUM 0,
                                     dev_used_idx := 0, used_ring := replicate NUM 0\<rparr>) s;
                    s = mmio_write 0x038 (of_nat NUM) s;
                    s = write_queue_addr 0x080 desc s;
                    s = write_queue_addr 0x090 avail s;
                    s = write_queue_addr 0x0a0 used s;
                    s = mmio_write 0x044 1 s;
                    s = upd_vd (\<lambda>d. d\<lparr>vd_free := replicate NUM True\<rparr>) s
                in Ok () (mmio_write 0x070 (status OR 4) s)))))"

section \<open>Descriptors\<close>

definition alloc_desc :: "'z vstate_scheme \<Rightarrow> nat option \<times> 'z vstate_scheme" where
  "alloc_desc s =
     (case find_idx (\<lambda>b. b) (vd_free (vd s)) of
        Some i \<Rightarrow> (Some i, upd_vd (\<lambda>d. d\<lparr>vd_free := (vd_free d)[i := False]\<rparr>) s)
      | None \<Rightarrow> (None, s))"

definition free_desc :: "nat \<Rightarrow> 'z vstate_scheme \<Rightarrow> (unit, 'z vstate_scheme) res" where
  "free_desc i s =
     (if i \<ge> NUM then Panic ''free_desc 1''
      else if vd_free (vd s) ! i then Panic ''free_desc 2''
      else Ok () (wakeup ChDiskFree
             (upd_vd (\<lambda>d. d\<lparr>vd_desc := (vd_desc d)[i := zero_desc], vd_free := (vd_free d)[i := True]\<rparr>) s)))"

text \<open>
  The chain ends or reaches a descriptor that is already free, which panics: every step frees one
  descriptor that was in use.
\<close>

definition in_use :: "'z vstate_scheme \<Rightarrow> nat" where
  "in_use s = card {i. i < NUM \<and> \<not> vd_free (vd s) ! i} + (NUM - length (vd_free (vd s)))"

lemma wakeup_vd [simp]: "vd (wakeup c s) = vd s"
  by (simp add: wakeup_def)

lemma free_desc_in_use:
  assumes "free_desc i s = Ok () t"
  shows "in_use t < in_use s \<or> length (vd_free (vd s)) \<le> i"
proof (cases "i < length (vd_free (vd s))")
  case True
  from assms have i: "i < NUM" "\<not> vd_free (vd s) ! i"
    and t: "vd_free (vd t) = (vd_free (vd s))[i := True]"
    by (auto simp: free_desc_def upd_vd_def split: if_splits)
  have "{j. j < NUM \<and> \<not> vd_free (vd t) ! j} \<subset> {j. j < NUM \<and> \<not> vd_free (vd s) ! j}"
    using i True unfolding t by (auto simp: nth_list_update)
  then have "card {j. j < NUM \<and> \<not> vd_free (vd t) ! j} < card {j. j < NUM \<and> \<not> vd_free (vd s) ! j}"
    by (rule psubset_card_mono [rotated]) simp
  then show ?thesis by (simp add: in_use_def t)
qed simp

function free_chain :: "nat \<Rightarrow> 'z vstate_scheme \<Rightarrow> (unit, 'z vstate_scheme) res" where
  "free_chain i s =
     (if i \<ge> length (vd_free (vd s)) then Panic ''free_desc 1''
      else let d = vd_desc (vd s) ! i in
        andthen (free_desc i s) (\<lambda>_ s.
          if q_flags d AND VRING_DESC_F_NEXT \<noteq> 0 then free_chain (unat (q_next d)) s else Ok () s))"
  by pat_completeness auto
termination
  by (relation "measure (\<lambda>(_, s). in_use s)") (auto dest: free_desc_in_use)

declare free_chain.simps [simp del]

definition free_descs :: "nat list \<Rightarrow> 'z vstate_scheme \<Rightarrow> (unit, 'z vstate_scheme) res" where
  "free_descs is s = foldl (\<lambda>r i. andthen r (\<lambda>_ s. free_desc i s)) (Ok () s) is"

fun alloc3_loop :: "nat \<Rightarrow> nat list \<Rightarrow> 'z vstate_scheme \<Rightarrow> (nat list option, 'z vstate_scheme) res" where
  "alloc3_loop 0 idx s = Ok (Some idx) s"
| "alloc3_loop (Suc k) idx s =
     (case alloc_desc s of
        (None, s) \<Rightarrow> andthen (free_descs idx s) (\<lambda>_ s. Ok None s)
      | (Some i, s) \<Rightarrow> alloc3_loop k (idx @ [i]) s)"

definition alloc3_desc :: "'z vstate_scheme \<Rightarrow> (nat list option, 'z vstate_scheme) res" where
  "alloc3_desc s = alloc3_loop 3 [] s"

section \<open>Requests\<close>

definition format_request :: "nat \<Rightarrow> bool \<Rightarrow> u64 \<Rightarrow> nat \<Rightarrow> nat \<Rightarrow> nat \<Rightarrow> vdisk \<Rightarrow> vdisk" where
  "format_request b write sector i0 i1 i2 d =
     (let d = d\<lparr>vd_ops := (vd_ops d)[i0 := \<lparr>req_type = (if write then 1 else 0), req_sector = sector\<rparr>]\<rparr>;
          d = d\<lparr>vd_desc := (vd_desc d)[i0 := \<lparr>q_addr = ReqAddr i0, q_len = 16, q_flags = VRING_DESC_F_NEXT,
                                             q_next = of_nat i1\<rparr>]\<rparr>;
          d = d\<lparr>vd_desc := (vd_desc d)[i1 := \<lparr>q_addr = DataAddr b, q_len = of_nat BSIZE,
                                             q_flags = (if write then 0 else VRING_DESC_F_WRITE) OR VRING_DESC_F_NEXT,
                                             q_next = of_nat i2\<rparr>]\<rparr>;
          d = d\<lparr>vd_info := list_modify i0 (\<lambda>x. x\<lparr>info_status := 0xff\<rparr>) (vd_info d)\<rparr>;
          d = d\<lparr>vd_desc := (vd_desc d)[i2 := \<lparr>q_addr = StatusAddr i0, q_len = 1, q_flags = VRING_DESC_F_WRITE,
                                             q_next = 0\<rparr>]\<rparr>;
          d = d\<lparr>vd_info := list_modify i0 (\<lambda>x. x\<lparr>info_b := Some b\<rparr>) (vd_info d)\<rparr>
      in d\<lparr>avail_ring := (avail_ring d)[unat (avail_idx d) mod NUM := of_nat i0], avail_idx := avail_idx d + 1\<rparr>)"

definition virtio_submit :: "nat \<Rightarrow> bool \<Rightarrow> 'z vstate_scheme \<Rightarrow> (nat, 'z vstate_scheme) res" where
  "virtio_submit b write s =
     (let sector = ucast (b_blockno (bufs s ! b) * 2) in
      andthen (alloc3_desc s) (\<lambda>r s.
        case r of
          Some [i0, i1, i2] \<Rightarrow>
            let s = upd_buf b (\<lambda>x. x\<lparr>b_disk := True\<rparr>) (upd_vd (format_request b write sector i0 i1 i2) s)
            in Ok i0 (mmio_write 0x050 0 s)
        | _ \<Rightarrow> sleep ChDiskFree s))"

definition virtio_finish :: "nat \<Rightarrow> 'z vstate_scheme \<Rightarrow> (unit, 'z vstate_scheme) res" where
  "virtio_finish i0 s =
     free_chain i0 (upd_vd (\<lambda>d. d\<lparr>vd_info := list_modify i0 (\<lambda>x. x\<lparr>info_b := None\<rparr>) (vd_info d)\<rparr>) s)"

definition virtio_disk_rw :: "nat \<Rightarrow> bool \<Rightarrow> 'z vstate_scheme \<Rightarrow> (unit, 'z vstate_scheme) res" where
  "virtio_disk_rw b write s =
     andthen (virtio_submit b write s) (\<lambda>i0 s.
       if b_disk (bufs s ! b) then sleep (ChDiskBuf b) s else virtio_finish i0 s)"

section \<open>Completion\<close>

function intr_loop :: "'z vstate_scheme \<Rightarrow> (unit, 'z vstate_scheme) res" where
  "intr_loop s =
     (if used_idx (vd s) \<noteq> dev_used_idx (vd s)
      then let id = unat (used_ring (vd s) ! (unat (used_idx (vd s)) mod NUM)) in
        if id \<ge> NUM then Fault ''virtio_disk_intr: past info''
        else if info_status (vd_info (vd s) ! id) \<noteq> 0 then Panic ''virtio_disk_intr status''
        else (case info_b (vd_info (vd s) ! id) of
                None \<Rightarrow> Fault ''virtio_disk_intr: null buf''
              | Some b \<Rightarrow>
                  intr_loop (upd_vd (\<lambda>d. d\<lparr>used_idx := used_idx d + 1\<rparr>)
                    (wakeup (ChDiskBuf b) (upd_buf b (\<lambda>x. x\<lparr>b_disk := False\<rparr>) s))))
      else Ok () s)"
  by pat_completeness auto
termination
proof (relation "measure (\<lambda>s. unat (dev_used_idx (vd s) - used_idx (vd s)))", simp)
  fix s :: "'z vstate_scheme" and b
  assume "used_idx (vd s) \<noteq> dev_used_idx (vd s)"
  then have "dev_used_idx (vd s) - used_idx (vd s) \<noteq> 0" by auto
  then have "unat (dev_used_idx (vd s) - used_idx (vd s) - 1) < unat (dev_used_idx (vd s) - used_idx (vd s))"
    by (rule measure_unat)
  then show "(upd_vd (\<lambda>d. d\<lparr>used_idx := used_idx d + 1\<rparr>)
               (wakeup (ChDiskBuf b) (upd_buf b (\<lambda>x. x\<lparr>b_disk := False\<rparr>) s)), s)
             \<in> measure (\<lambda>s. unat (dev_used_idx (vd s) - used_idx (vd s)))"
    by (simp add: upd_vd_def upd_buf_def diff_diff_eq)
qed

declare intr_loop.simps [simp del]

definition virtio_disk_intr :: "(nat \<Rightarrow> u32) \<Rightarrow> 'z vstate_scheme \<Rightarrow> (unit, 'z vstate_scheme) res" where
  "virtio_disk_intr R s = intr_loop (mmio_write 0x064 (R 0x060 AND 3) s)"

end
