(* ===== verification/Trap.thy ===== *)
theory Trap
  imports Sysfile Sysproc Virtio
begin

text \<open>
  System call dispatch (\<open>kernel/syscall.c\<close>), traps and interrupts (\<open>kernel/trap.c\<close>), the interrupt
  controller (\<open>kernel/plic.c\<close>), the first return to user space (\<open>forkret\<close> of \<open>kernel/proc.c\<close>) and the
  start of the kernel on the first processor (\<open>kernel/main.c\<close>). The state gains the control
  registers of the processor and the addresses the linker gives to the assembly entry points. What
  a trap handler reads from the devices is the argument \<open>hw\<close>: the interrupt the controller hands
  out, the transmitter's state, the disk's registers and the clock. \<open>usertrap\<close> that ends in a timer
  interrupt leaves through \<open>yield\<close>; \<open>usertrap_return\<close> is the rest of the handler, which runs
  directly or when the process is scheduled again. A processor other than the first waits for
  \<open>started\<close> before the second branch of \<open>main\<close>.
\<close>

record kernel = vstate +
  sstatus :: u64
  sepc :: u64
  scause :: u64
  stval :: u64
  stvec :: u64
  satp :: u64
  hartid :: u64
  stimecmp :: u64
  plic_w :: "(u64 \<times> u32) list"
  kernel_pagetable :: u64
  kernelvec_pc :: u64
  uservec_off :: u64
  usertrap_pc :: u64
  first :: bool
  started :: bool

record hw =
  hw_irq :: u32
  hw_tx_idle :: bool
  hw_virtio :: "nat \<Rightarrow> u32"
  hw_time :: u64

abbreviation SSTATUS_SPP :: u64 where "SSTATUS_SPP \<equiv> 0x100"
abbreviation SSTATUS_SPIE :: u64 where "SSTATUS_SPIE \<equiv> 0x20"
abbreviation SSTATUS_SIE :: u64 where "SSTATUS_SIE \<equiv> 2"
abbreviation UART0_IRQ :: nat where "UART0_IRQ \<equiv> 10"
abbreviation VIRTIO0_IRQ :: nat where "VIRTIO0_IRQ \<equiv> 1"
abbreviation PLIC :: u64 where "PLIC \<equiv> 0x0c000000"

definition MAKE_SATP :: "u64 \<Rightarrow> u64" where
  "MAKE_SATP pagetable = push_bit 60 8 OR drop_bit 12 pagetable"

definition upd_tf :: "(trapframe \<Rightarrow> trapframe) \<Rightarrow> 'z pstate_scheme \<Rightarrow> 'z pstate_scheme" where
  "upd_tf f s = upd_proc (me s) (\<lambda>p. p\<lparr>p_tf := f (p_tf p)\<rparr>) s"

section \<open>The system call table\<close>

definition syscalls :: "int \<Rightarrow> ('z iostate_scheme \<Rightarrow> (u64, 'z iostate_scheme) res) option" where
  "syscalls num =
     (if num = 1 then Some sys_fork else if num = 2 then Some sys_exit else if num = 3 then Some sys_wait
      else if num = 4 then Some sys_pipe else if num = 5 then Some sys_read else if num = 6 then Some sys_kill
      else if num = 7 then Some sys_exec else if num = 8 then Some sys_fstat else if num = 9 then Some sys_chdir
      else if num = 10 then Some sys_dup else if num = 11 then Some sys_getpid else if num = 12 then Some sys_sbrk
      else if num = 13 then Some sys_pause else if num = 14 then Some sys_uptime else if num = 15 then Some sys_open
      else if num = 16 then Some sys_write else if num = 17 then Some sys_mknod else if num = 18 then Some sys_unlink
      else if num = 19 then Some sys_link else if num = 20 then Some sys_mkdir else if num = 21 then Some sys_close
      else if num = 22 then Some sys_getppid else if num = 24 then Some sys_waitpid
      else if num = 25 then Some sys_getchildren else if num = 26 then Some sys_getproccount
      else if num = 27 then Some sys_getprocinfo else if num = 28 then Some sys_signal
      else if num = 29 then Some sys_sigsend else if num = 30 then Some sys_sigreturn
      else if num = 31 then Some sys_thread_create else if num = 32 then Some sys_thread_join
      else if num = 33 then Some sys_thread_exit else if num = 34 then Some sys_ipc_send
      else if num = 35 then Some sys_ipc_recv else None)"

definition syscall :: "'z iostate_scheme \<Rightarrow> (unit, 'z iostate_scheme) res" where
  "syscall s =
     (let num = cint (tf_a7 (p_tf (myproc s))) in
      case syscalls num of
        Some f \<Rightarrow> andthen (f s) (\<lambda>r s. Ok () (upd_tf (\<lambda>tf. tf\<lparr>tf_a0 := r\<rparr>) s))
      | None \<Rightarrow>
          andthen (printf (''%d %s: unknown sys call %d'' @ [CHR 0x0A])
                     [PReg (int_reg (p_pid (myproc s))),
                      PStr (Some (cstr (length (p_name (myproc s))) (at_list (p_name (myproc s))))),
                      PReg (int_reg num)] s) (\<lambda>_ s.
          Ok () (upd_tf (\<lambda>tf. tf\<lparr>tf_a0 := - 1\<rparr>) s)))"

section \<open>The interrupt controller\<close>

definition plic_store :: "u64 \<Rightarrow> u32 \<Rightarrow> 'z kernel_scheme \<Rightarrow> 'z kernel_scheme" where
  "plic_store a v s = s\<lparr>plic_w := plic_w s @ [(a, v)]\<rparr>"

definition plicinit :: "'z kernel_scheme \<Rightarrow> 'z kernel_scheme" where
  "plicinit s = plic_store (PLIC + of_nat VIRTIO0_IRQ * 4) 1 (plic_store (PLIC + of_nat UART0_IRQ * 4) 1 s)"

definition plicinithart :: "'z kernel_scheme \<Rightarrow> 'z kernel_scheme" where
  "plicinithart s =
     (let s = plic_store (PLIC + 0x2080 + hartid s * 0x100) (push_bit UART0_IRQ 1 OR push_bit VIRTIO0_IRQ 1) s
      in plic_store (PLIC + 0x201000 + hartid s * 0x2000) 0 s)"

definition plic_complete :: "u32 \<Rightarrow> 'z kernel_scheme \<Rightarrow> 'z kernel_scheme" where
  "plic_complete irq s = plic_store (PLIC + 0x201004 + hartid s * 0x2000) irq s"

section \<open>Interrupts\<close>

definition clockintr :: "hw \<Rightarrow> 'z kernel_scheme \<Rightarrow> 'z kernel_scheme" where
  "clockintr hw s =
     (let s = (if hartid s = 0 then wakeup ChTicks (s\<lparr>ticks := ticks s + 1\<rparr>) else s)
      in s\<lparr>stimecmp := hw_time hw + 1000000\<rparr>)"

definition devintr :: "hw \<Rightarrow> 'z kernel_scheme \<Rightarrow> (int, 'z kernel_scheme) res" where
  "devintr hw s =
     (if scause s = 0x8000000000000009
      then let irq = hw_irq hw in
        andthen (if irq = of_nat UART0_IRQ then uartintr (hw_tx_idle hw) s
                 else if irq = of_nat VIRTIO0_IRQ then virtio_disk_intr (hw_virtio hw) s
                 else if irq \<noteq> 0
                 then printf (''unexpected interrupt irq=%d'' @ [CHR 0x0A]) [PReg (ucast irq)] s
                 else Ok () s) (\<lambda>_ s.
        Ok 1 (if irq \<noteq> 0 then plic_complete irq s else s))
      else if scause s = 0x8000000000000005 then Ok 2 (clockintr hw s)
      else Ok 0 s)"

section \<open>Traps from user space\<close>

definition deliver_signal :: "proc \<Rightarrow> proc" where
  "deliver_signal p =
     (if p_handling_signal p then p
      else (case find (\<lambda>i. p_pending_signals p AND push_bit i 1 \<noteq> 0 \<and> p_signal_handlers p ! i \<noteq> - 1) [0..<32] of
              None \<Rightarrow> p
            | Some i \<Rightarrow>
                p\<lparr>p_pending_signals := p_pending_signals p AND NOT (push_bit i 1),
                  p_saved_trapframe := p_tf p,
                  p_tf := (p_tf p)\<lparr>tf_epc := p_signal_handlers p ! i\<rparr>,
                  p_handling_signal := True\<rparr>))"

definition prepare_return :: "'z kernel_scheme \<Rightarrow> 'z kernel_scheme" where
  "prepare_return s =
     (let s = s\<lparr>sstatus := sstatus s AND NOT SSTATUS_SIE\<rparr>;
          s = s\<lparr>stvec := TRAMPOLINE + uservec_off s\<rparr>;
          s = upd_tf (\<lambda>tf. tf\<lparr>tf_kernel_satp := satp s, tf_kernel_sp := p_kstack (myproc s) + PGSIZE,
                              tf_kernel_trap := usertrap_pc s, tf_kernel_hartid := hartid s\<rparr>) s;
          s = s\<lparr>sstatus := (sstatus s AND NOT SSTATUS_SPP) OR SSTATUS_SPIE\<rparr>
      in s\<lparr>sepc := tf_epc (p_tf (myproc s))\<rparr>)"

definition usertrap_return :: "'z kernel_scheme \<Rightarrow> (u64, 'z kernel_scheme) res" where
  "usertrap_return s =
     (let s = prepare_return (upd_proc (me s) deliver_signal s)
      in Ok (MAKE_SATP (p_pagetable (myproc s))) s)"

text \<open>The first part of \<open>usertrap\<close>: the trap itself. The result is \<open>which_dev\<close>.\<close>

definition usertrap_cause :: "hw \<Rightarrow> 'z kernel_scheme \<Rightarrow> (int, 'z kernel_scheme) res" where
  "usertrap_cause hw s =
     (if scause s = 8
      then andthen (if killed (me s) s then kexit (- 1) s else Ok () s) (\<lambda>_ s.
           andthen (syscall ((upd_tf (\<lambda>tf. tf\<lparr>tf_epc := tf_epc tf + 4\<rparr>) s)
                      \<lparr>sstatus := sstatus s OR SSTATUS_SIE\<rparr>)) (\<lambda>_ s.
           Ok 0 s))
      else andthen (devintr hw s) (\<lambda>which_dev s.
        if which_dev \<noteq> 0 then Ok which_dev s
        else andthen (if scause s = 15 \<or> scause s = 13 then vmfault (p_pagetable (myproc s)) (stval s) s else Ok 0 s)
               (\<lambda>pa s.
          if pa \<noteq> 0 then Ok 0 s
          else andthen (printf (''usertrap(): unexpected scause 0x%lx pid=%d'' @ [CHR 0x0A])
                          [PReg (scause s), PReg (int_reg (p_pid (myproc s)))] s) (\<lambda>_ s.
               andthen (printf (''            sepc=0x%lx stval=0x%lx'' @ [CHR 0x0A])
                          [PReg (sepc s), PReg (stval s)] s) (\<lambda>_ s.
               Ok 0 (setkilled (me s) s))))))"

definition usertrap :: "hw \<Rightarrow> 'z kernel_scheme \<Rightarrow> (u64, 'z kernel_scheme) res" where
  "usertrap hw s =
     (if sstatus s AND SSTATUS_SPP \<noteq> 0 then Panic ''usertrap: not from user mode''
      else let s = s\<lparr>stvec := kernelvec_pc s\<rparr>;
               s = upd_tf (\<lambda>tf. tf\<lparr>tf_epc := sepc s\<rparr>) s
           in andthen (usertrap_cause hw s) (\<lambda>which_dev s.
              andthen (if killed (me s) s then kexit (- 1) s else Ok () s) (\<lambda>_ s.
              andthen (if which_dev = 2 then yield s else Ok () s) (\<lambda>_ s.
              usertrap_return s))))"

section \<open>Traps from the kernel\<close>

definition kerneltrap :: "hw \<Rightarrow> 'z kernel_scheme \<Rightarrow> (unit, 'z kernel_scheme) res" where
  "kerneltrap hw s =
     (let sepc0 = sepc s; sstatus0 = sstatus s; scause0 = scause s in
      if sstatus0 AND SSTATUS_SPP = 0 then Panic ''kerneltrap: not from supervisor mode''
      else if sstatus s AND SSTATUS_SIE \<noteq> 0 then Panic ''kerneltrap: interrupts enabled''
      else andthen (devintr hw s) (\<lambda>which_dev s.
        if which_dev = 0
        then andthen (printf (''scause=0x%lx sepc=0x%lx stval=0x%lx'' @ [CHR 0x0A])
                        [PReg scause0, PReg (sepc s), PReg (stval s)] s) (\<lambda>_ s. Panic ''kerneltrap'')
        else andthen (if which_dev = 2 \<and> cur s \<noteq> None then yield s else Ok () s) (\<lambda>_ s.
             Ok () (s\<lparr>sepc := sepc0, sstatus := sstatus0\<rparr>))))"

section \<open>Starting\<close>

definition forkret :: "'z kernel_scheme \<Rightarrow> (u64, 'z kernel_scheme) res" where
  "forkret s =
     andthen
       (if first s
        then andthen (fsinit ROOTDEV s) (\<lambda>_ s.
             andthen (kexec (ascii ''/init'') [ascii ''/init''] (s\<lparr>first := False\<rparr>)) (\<lambda>r s.
             let s = upd_tf (\<lambda>tf. tf\<lparr>tf_a0 := int_reg r\<rparr>) s
             in if tf_a0 (p_tf (myproc s)) = - 1 then Panic ''exec'' else Ok () s))
        else Ok () s)
       (\<lambda>_ s. let s = prepare_return s in Ok (MAKE_SATP (p_pagetable (myproc s))) s)"

definition kvminit :: "'z kernel_scheme \<Rightarrow> (unit, 'z kernel_scheme) res" where
  "kvminit s = andthen (kvmmake s) (\<lambda>pt s. Ok () (s\<lparr>kernel_pagetable := pt\<rparr>))"

definition kvminithart :: "'z kernel_scheme \<Rightarrow> 'z kernel_scheme" where
  "kvminithart s = s\<lparr>satp := MAKE_SATP (kernel_pagetable s)\<rparr>"

definition trapinithart :: "'z kernel_scheme \<Rightarrow> 'z kernel_scheme" where
  "trapinithart s = s\<lparr>stvec := kernelvec_pc s\<rparr>"

definition main :: "hw \<Rightarrow> 'z kernel_scheme \<Rightarrow> (unit, 'z kernel_scheme) res" where
  "main hw s =
     (if hartid s = 0
      then andthen (printf [CHR 0x0A] [] (consoleinit s)) (\<lambda>_ s.
           andthen (printf (''xv6 kernel is booting'' @ [CHR 0x0A]) [] s) (\<lambda>_ s.
           andthen (printf [CHR 0x0A] [] s) (\<lambda>_ s.
           andthen (kinit s) (\<lambda>_ s.
           andthen (kvminit s) (\<lambda>_ s.
           let s = plicinithart (plicinit (trapinithart (procinit (kvminithart s))));
               s = iinit (binit s)
           in andthen (virtio_disk_init (hw_virtio hw) s) (\<lambda>_ s.
              andthen (userinit s) (\<lambda>_ s.
              Ok () (s\<lparr>started := True\<rparr>))))))))
      else andthen (printf (''hart %d starting'' @ [CHR 0x0A]) [PReg (hartid s)] s) (\<lambda>_ s.
           Ok () (plicinithart (trapinithart (kvminithart s)))))"

end
