(* ===== verification/Kinv.thy ===== *)
theory Kinv
  imports File
begin

text \<open>
  What the routines of the kernel keep. The locale \<open>kernel_inv\<close> is the interface: a property \<open>P\<close> of
  the kernel's state that survives the elementary updates the routines are made of, and a
  property \<open>W\<close> that holds where a process gives up the processor. Every routine of the memory
  system, the buffer cache, the log, the file system, the console, the pipes and the open files
  is shown once, inside the locale, to keep them. Two interpretations follow: the bounds of the
  kernel's tables together with the uniqueness of process ids, and the fact that these routines
  change nothing of another process but waking it.
\<close>

section \<open>Outcomes\<close>

text \<open>\<open>yields R W r\<close>: a normal return satisfies \<open>R\<close>, a suspension leaves a state that satisfies \<open>W\<close>.\<close>

fun yields :: "('a \<Rightarrow> 's \<Rightarrow> bool) \<Rightarrow> ('s \<Rightarrow> bool) \<Rightarrow> ('a, 's) res \<Rightarrow> bool" where
  "yields R W (Ok a s) \<longleftrightarrow> R a s"
| "yields R W (Sleep c s) \<longleftrightarrow> W s"
| "yields R W (Resched s) \<longleftrightarrow> W s"
| "yields R W (Panic m) \<longleftrightarrow> True"
| "yields R W (Fault m) \<longleftrightarrow> True"

named_theorems frame \<open>what routines keep\<close>

lemma yields_Ok [frame]: "R a s \<Longrightarrow> yields R W (Ok a s)"
  and yields_Sleep [frame]: "W s \<Longrightarrow> yields R W (Sleep c s)"
  and yields_Resched [frame]: "W s \<Longrightarrow> yields R W (Resched s)"
  and yields_Panic [frame]: "yields R W (Panic m)"
  and yields_Fault [frame]: "yields R W (Fault m)"
  by simp_all

lemma yields_andthen [frame]:
  "yields R' W r \<Longrightarrow> (\<And>a s. r = Ok a s \<Longrightarrow> R' a s \<Longrightarrow> yields R W (f a s)) \<Longrightarrow> yields R W (andthen r f)"
  by (cases r) auto

lemma yields_if [frame]:
  "(b \<Longrightarrow> yields R W r) \<Longrightarrow> (\<not> b \<Longrightarrow> yields R W q) \<Longrightarrow> yields R W (if b then r else q)"
  by simp

lemma yields_option [frame]:
  "(x = None \<Longrightarrow> yields R W r) \<Longrightarrow> (\<And>y. x = Some y \<Longrightarrow> yields R W (f y)) \<Longrightarrow>
   yields R W (case x of None \<Rightarrow> r | Some y \<Rightarrow> f y)"
  by (cases x) simp_all

lemma yields_prod [frame]: "(\<And>a b. x = (a, b) \<Longrightarrow> yields R W (f a b)) \<Longrightarrow> yields R W (case x of (a, b) \<Rightarrow> f a b)"
  by (cases x) simp

lemma yields_prod_fun [frame]:
  "(\<And>a b. x = (a, b) \<Longrightarrow> yields R W (f a b s)) \<Longrightarrow> yields R W ((case x of (a, b) \<Rightarrow> f a b) s)"
  by (cases x) simp

lemma yields_weaken:
  "yields R W r \<Longrightarrow> (\<And>a s. R a s \<Longrightarrow> R' a s) \<Longrightarrow> (\<And>s. W s \<Longrightarrow> W' s) \<Longrightarrow> yields R' W' r"
  by (cases r) auto

lemma yields_OkD: "yields R W r \<Longrightarrow> r = Ok a s \<Longrightarrow> R a s"
  by simp

section \<open>The interface\<close>

locale kernel_inv =
  fixes P W :: "'z iostate_scheme \<Rightarrow> bool" and ino_ok file_ok :: "nat \<Rightarrow> bool"
  assumes set_mem: "P s \<Longrightarrow> P (s\<lparr>mem := m\<rparr>)"
    and set_freelist: "P s \<Longrightarrow> P (s\<lparr>freelist := a\<rparr>)"
    and wakes: "P s \<Longrightarrow> P (wakeup c s)"
    and sleeps: "P s \<Longrightarrow> W (upd_proc (me s) (\<lambda>p. p\<lparr>p_chan := Some c, p_state := SLEEPING\<rparr>) s)"
    and set_bufs: "P s \<Longrightarrow> P (upd_buf i g s)"
    and set_lru: "P s \<Longrightarrow> P (s\<lparr>lru := l\<rparr>)"
    and set_disk: "P s \<Longrightarrow> P (s\<lparr>disk := d, dwrites := w\<rparr>)"
    and set_outstanding: "P s \<Longrightarrow> P (s\<lparr>log_outstanding := n\<rparr>)"
    and set_committing: "P s \<Longrightarrow> P (s\<lparr>log_committing := b\<rparr>)"
    and set_lh_n: "P s \<Longrightarrow> P (s\<lparr>lh_n := n\<rparr>)"
    and set_lh_block: "P s \<Longrightarrow> P (s\<lparr>lh_block := bl\<rparr>)"
    and set_log: "P s \<Longrightarrow> P (s\<lparr>log_start := st, log_dev := dv\<rparr>)"
    and set_sb: "P s \<Longrightarrow> P (s\<lparr>sb := sbk\<rparr>)"
    and set_inode: "(\<And>ip. length (i_addrs (fi ip)) = length (i_addrs ip) \<or> length (i_addrs (fi ip)) = Suc NDIRECT) \<Longrightarrow>
          P s \<Longrightarrow> P (upd_inode i fi s)"
    and set_uart: "P s \<Longrightarrow> P (s\<lparr>uart_w := uw\<rparr>)"
    and set_tx_busy: "P s \<Longrightarrow> P (s\<lparr>tx_busy := b\<rparr>)"
    and set_cons_r: "P s \<Longrightarrow> P (s\<lparr>cons_r := cr\<rparr>)"
    and inodes: "P s \<Longrightarrow> i < length (itable s) \<Longrightarrow> ino_ok i"
    and cwd_inode: "P s \<Longrightarrow> p_cwd (myproc s) = Some i \<Longrightarrow> ino_ok i"
    and files: "P s \<Longrightarrow> i < length (ftable s) \<Longrightarrow> file_ok i"
    and set_file: "(\<And>x. f_ip (ff x) = f_ip x \<or> ino_ok (f_ip (ff x))) \<Longrightarrow> P s \<Longrightarrow> P (upd_file i ff s)"
    and set_pipe: "(\<And>p. length (pi_data (fp p)) = length (pi_data p)) \<Longrightarrow> P s \<Longrightarrow> P (upd_pipe pa fp s)"
begin

lemmas updates = set_mem set_freelist wakes set_bufs set_lru set_disk set_outstanding set_committing
  set_lh_n set_lh_block set_log set_sb set_inode set_uart set_tx_busy set_cons_r set_file set_pipe

text \<open>Sequencing where the first part is itself composed.\<close>

lemma andthen_keeps:
  "yields (\<lambda>_. P) W r \<Longrightarrow> (\<And>a s. r = Ok a s \<Longrightarrow> P s \<Longrightarrow> yields R W (f a s)) \<Longrightarrow> yields R W (andthen r f)"
  by (rule yields_andthen)

lemma drop_result: "yields (\<lambda>a s. Q a \<and> P s) W r \<Longrightarrow> yields (\<lambda>_. P) W r"
  by (cases r) auto

subsection \<open>Memory\<close>

lemma kfree_keeps [frame]: "P s \<Longrightarrow> yields (\<lambda>_. P) W (kfree pa s)"
  unfolding kfree_def Let_def by (rule frame updates | assumption | simp)+

lemma kalloc_keeps [frame]: "P s \<Longrightarrow> yields (\<lambda>_. P) W (kalloc s)"
  unfolding kalloc_def Let_def by (rule frame updates | assumption | simp)+

lemma walk_from_keeps [frame]: "P s \<Longrightarrow> yields (\<lambda>_. P) W (walk_from l pagetable va alloc s)"
proof (induction l arbitrary: pagetable s)
  case (Suc l)
  show ?case unfolding walk_from.simps Let_def by (rule frame updates Suc | assumption)+
qed simp

lemma walk_keeps [frame]: "P s \<Longrightarrow> yields (\<lambda>_. P) W (walk pagetable va alloc s)"
  unfolding walk_def Let_def by (rule frame updates | assumption | simp)+

lemma walkaddr_keeps [frame]: "P s \<Longrightarrow> yields (\<lambda>_. P) W (walkaddr pagetable va s)"
  unfolding walkaddr_def Let_def by (rule frame updates | assumption | simp)+

lemma mappages_loop_keeps [frame]: "P s \<Longrightarrow> yields (\<lambda>_. P) W (mappages_loop n pagetable a last_a pa perm s)"
proof (induction n arbitrary: a pa s)
  case (Suc n)
  show ?case unfolding mappages_loop.simps Let_def by (rule frame updates Suc | assumption)+
qed simp

lemma mappages_keeps [frame]: "P s \<Longrightarrow> yields (\<lambda>_. P) W (mappages pagetable va sz pa perm s)"
  unfolding mappages_def Let_def by (rule frame updates | assumption | simp)+

lemma ismapped_keeps [frame]: "P s \<Longrightarrow> yields (\<lambda>_. P) W (ismapped pagetable va s)"
  unfolding ismapped_def Let_def by (rule frame updates | assumption | simp)+

lemma uvmcreate_keeps [frame]: "P s \<Longrightarrow> yields (\<lambda>_. P) W (uvmcreate s)"
  unfolding uvmcreate_def Let_def by (rule frame updates | assumption | simp)+

lemma uvmunmap_loop_keeps [frame]: "P s \<Longrightarrow> yields (\<lambda>_. P) W (uvmunmap_loop pagetable a end_a do_free s)"
proof (induction pagetable a end_a do_free s rule: uvmunmap_loop.induct)
  case (1 pagetable a end_a do_free s)
  show ?case unfolding uvmunmap_loop.simps [of pagetable a end_a do_free s] Let_def by (rule frame updates 1 refl | assumption | simp)+
qed

lemma uvmunmap_keeps [frame]: "P s \<Longrightarrow> yields (\<lambda>_. P) W (uvmunmap pagetable va npages do_free s)"
  unfolding uvmunmap_def Let_def by (rule frame updates | assumption | simp)+

lemma uvmdealloc_keeps [frame]: "P s \<Longrightarrow> yields (\<lambda>_. P) W (uvmdealloc pagetable oldsz newsz s)"
  unfolding uvmdealloc_def Let_def by (rule frame updates | assumption | simp)+

lemma uvmalloc_loop_keeps [frame]: "P s \<Longrightarrow> yields (\<lambda>_. P) W (uvmalloc_loop pagetable a oldsz newsz xperm s)"
proof (induction pagetable a oldsz newsz xperm s rule: uvmalloc_loop.induct)
  case (1 pagetable a oldsz newsz xperm s)
  show ?case unfolding uvmalloc_loop.simps [of pagetable a oldsz newsz xperm s] Let_def by (rule frame updates 1 refl | assumption | simp)+
qed

lemma uvmalloc_keeps [frame]: "P s \<Longrightarrow> yields (\<lambda>_. P) W (uvmalloc pagetable oldsz newsz xperm s)"
  unfolding uvmalloc_def Let_def by (rule frame updates | assumption | simp)+

lemma freewalk_keeps [frame]: "P s \<Longrightarrow> yields (\<lambda>_. P) W (freewalk d pagetable s)"
  and freewalk_loop_keeps [frame]: "P s \<Longrightarrow> yields (\<lambda>_. P) W (freewalk_loop e n pagetable s)"
proof (induction d pagetable s and e n pagetable s rule: freewalk_freewalk_loop.induct)
  case (2 d pagetable s)
  show ?case unfolding freewalk.simps by (rule frame 2 | assumption)+
next
  case (4 d n pagetable s)
  show ?case unfolding freewalk_loop.simps Let_def by (rule frame updates 4 refl | assumption | simp)+
qed simp_all

lemma uvmfree_keeps [frame]: "P s \<Longrightarrow> yields (\<lambda>_. P) W (uvmfree pagetable sz s)"
  unfolding uvmfree_def Let_def by (rule frame updates | assumption | simp)+

lemma uvmcopy_loop_keeps [frame]: "P s \<Longrightarrow> yields (\<lambda>_. P) W (uvmcopy_loop old new i sz s)"
proof (induction old new i sz s rule: uvmcopy_loop.induct)
  case (1 old new i sz s)
  show ?case unfolding uvmcopy_loop.simps [of old new i sz s] Let_def by (rule frame updates 1 refl | assumption | simp)+
qed

lemma uvmcopy_keeps [frame]: "P s \<Longrightarrow> yields (\<lambda>_. P) W (uvmcopy old new sz s)"
  unfolding uvmcopy_def Let_def by (rule frame updates | assumption | simp)+

lemma uvmclear_keeps [frame]: "P s \<Longrightarrow> yields (\<lambda>_. P) W (uvmclear pagetable va s)"
  unfolding uvmclear_def Let_def by (rule frame updates | assumption | simp)+

lemma vmfault_keeps [frame]: "P s \<Longrightarrow> yields (\<lambda>_. P) W (vmfault pagetable va s)"
  unfolding vmfault_def Let_def by (rule frame updates | assumption | simp)+

lemma copyout_loop_keeps [frame]: "P s \<Longrightarrow> yields (\<lambda>_. P) W (copyout_loop pagetable dstva src off len s)"
proof (induction pagetable dstva src off len s rule: copyout_loop.induct)
  case (1 pagetable dstva src off len s)
  show ?case unfolding copyout_loop.simps [of pagetable dstva src off len s] Let_def by (rule frame updates 1 refl | assumption | simp)+
qed

lemma copyout_keeps [frame]: "P s \<Longrightarrow> yields (\<lambda>_. P) W (copyout pagetable dstva src len s)"
  unfolding copyout_def Let_def by (rule frame updates | assumption | simp)+

lemma copyin_loop_keeps [frame]: "P s \<Longrightarrow> yields (\<lambda>_. P) W (copyin_loop pagetable dst srcva len s)"
proof (induction pagetable dst srcva len s rule: copyin_loop.induct)
  case (1 pagetable dst srcva len s)
  show ?case unfolding copyin_loop.simps [of pagetable dst srcva len s] Let_def by (rule frame updates 1 refl | assumption | simp)+
qed

lemma copyin_keeps [frame]: "P s \<Longrightarrow> yields (\<lambda>_. P) W (copyin pagetable srcva len s)"
  unfolding copyin_def Let_def by (rule frame updates | assumption | simp)+

lemma copyinstr_loop_keeps [frame]: "P s \<Longrightarrow> yields (\<lambda>_. P) W (copyinstr_loop pagetable dst srcva mx s)"
proof (induction pagetable dst srcva mx s rule: copyinstr_loop.induct)
  case (1 pagetable dst srcva mx s)
  show ?case unfolding copyinstr_loop.simps [of pagetable dst srcva mx s] Let_def by (rule frame updates 1 refl | assumption | simp)+
qed

lemma copyinstr_keeps [frame]: "P s \<Longrightarrow> yields (\<lambda>_. P) W (copyinstr pagetable srcva mx s)"
  unfolding copyinstr_def Let_def by (rule frame updates | assumption | simp)+

lemma either_copyout_keeps [frame]: "P s \<Longrightarrow> yields (\<lambda>_. P) W (either_copyout user_dst dst src len s)"
  unfolding either_copyout_def Let_def by (rule frame updates | assumption | simp)+

lemma either_copyin_keeps [frame]: "P s \<Longrightarrow> yields (\<lambda>_. P) W (either_copyin user_src src len s)"
  unfolding either_copyin_def Let_def by (rule frame updates | assumption | simp)+

subsection \<open>Buffers and the log\<close>

lemma sleep_keeps [frame]: "P s \<Longrightarrow> yields R W (sleep c s)"
  unfolding sleep_def by (rule frame sleeps | assumption)+

lemma acquire_buf_keeps [frame]:
  "P s \<Longrightarrow> yields (\<lambda>_. P) W (acquiresleep (buf_lock i) (upd_buf_lock i) c s)"
  unfolding acquiresleep_def by (rule frame updates | assumption | simp)+

lemma release_buf_keeps: "P s \<Longrightarrow> P (releasesleep (upd_buf_lock i) c s)"
  unfolding releasesleep_def by (rule updates | assumption)+

lemma disk_rw_keeps: "P s \<Longrightarrow> P (disk_rw i wr s)"
  by (simp add: disk_rw_def Let_def updates)

lemma set_data_keeps: "P s \<Longrightarrow> P (set_data i d s)"
  and bpin_keeps: "P s \<Longrightarrow> P (bpin i s)"
  and bunpin_keeps: "P s \<Longrightarrow> P (bunpin i s)"
  unfolding set_data_def bpin_def bunpin_def by (rule updates, assumption)+

lemma if_keeps: "(b \<Longrightarrow> P s) \<Longrightarrow> (\<not> b \<Longrightarrow> P t) \<Longrightarrow> P (if b then s else t)"
  by simp

lemmas buf_updates = updates release_buf_keeps disk_rw_keeps set_data_keeps bpin_keeps bunpin_keeps if_keeps

lemma bget_keeps [frame]: "P s \<Longrightarrow> yields (\<lambda>_. P) W (bget dev blockno s)"
  unfolding bget_def Let_def  by (rule frame buf_updates | assumption | simp)+

lemma bread_keeps [frame]: "P s \<Longrightarrow> yields (\<lambda>_. P) W (bread dev blockno s)"
  unfolding bread_def Let_def  by (rule frame buf_updates | assumption | simp)+

lemma bwrite_keeps [frame]: "P s \<Longrightarrow> yields (\<lambda>_. P) W (bwrite i s)"
  unfolding bwrite_def Let_def  by (rule frame buf_updates | assumption | simp)+

lemma brelse_keeps [frame]: "P s \<Longrightarrow> yields (\<lambda>_. P) W (brelse i s)"
  unfolding brelse_def Let_def  by (rule frame buf_updates | assumption | simp)+

lemma read_head_keeps [frame]: "P s \<Longrightarrow> yields (\<lambda>_. P) W (read_head s)"
  unfolding read_head_def Let_def  by (rule frame buf_updates | assumption | simp)+

lemma write_head_keeps [frame]: "P s \<Longrightarrow> yields (\<lambda>_. P) W (write_head s)"
  unfolding write_head_def Let_def  by (rule frame buf_updates | assumption | simp)+

lemma install_one_keeps [frame]: "P s \<Longrightarrow> yields (\<lambda>_. P) W (install_one recovering tail s)"
  unfolding install_one_def Let_def  by (rule frame buf_updates | assumption | simp)+

lemma install_loop_keeps [frame]: "P s \<Longrightarrow> yields (\<lambda>_. P) W (install_loop recovering k tail s)"
proof (induction k arbitrary: tail s)
  case (Suc k)
  show ?case unfolding install_loop.simps Let_def by (rule frame buf_updates Suc | assumption | simp)+
qed simp

lemma install_trans_keeps [frame]: "P s \<Longrightarrow> yields (\<lambda>_. P) W (install_trans recovering s)"
  unfolding install_trans_def Let_def  by (rule frame buf_updates | assumption | simp)+

lemma recover_from_log_keeps [frame]: "P s \<Longrightarrow> yields (\<lambda>_. P) W (recover_from_log s)"
  unfolding recover_from_log_def Let_def  by (rule frame buf_updates | assumption | simp)+

lemma initlog_keeps [frame]: "P s \<Longrightarrow> yields (\<lambda>_. P) W (initlog dev logstart s)"
  unfolding initlog_def Let_def  by (rule frame buf_updates | assumption | simp)+

lemma write_log_one_keeps [frame]: "P s \<Longrightarrow> yields (\<lambda>_. P) W (write_log_one tail s)"
  unfolding write_log_one_def Let_def  by (rule frame buf_updates | assumption | simp)+

lemma write_log_loop_keeps [frame]: "P s \<Longrightarrow> yields (\<lambda>_. P) W (write_log_loop k tail s)"
proof (induction k arbitrary: tail s)
  case (Suc k)
  show ?case unfolding write_log_loop.simps Let_def by (rule frame updates Suc | assumption | simp)+
qed simp

lemma write_log_keeps [frame]: "P s \<Longrightarrow> yields (\<lambda>_. P) W (write_log s)"
  unfolding write_log_def Let_def  by (rule frame buf_updates | assumption | simp)+

lemma commit_keeps [frame]: "P s \<Longrightarrow> yields (\<lambda>_. P) W (commit s)"
  unfolding commit_def Let_def  by (rule frame buf_updates | assumption | simp)+

lemma begin_op_keeps [frame]: "P s \<Longrightarrow> yields (\<lambda>_. P) W (begin_op s)"
  unfolding begin_op_def Let_def  by (rule frame buf_updates | assumption | simp)+

lemma end_op_keeps [frame]: "P s \<Longrightarrow> yields (\<lambda>_. P) W (end_op s)"
  unfolding end_op_def Let_def  by (rule frame buf_updates | assumption | simp)+

lemma log_write_keeps [frame]: "P s \<Longrightarrow> yields (\<lambda>_. P) W (log_write b s)"
  unfolding log_write_def Let_def  by (rule frame buf_updates | assumption | simp)+

subsection \<open>The file system\<close>

lemma acquire_ino_keeps [frame]:
  "P s \<Longrightarrow> yields (\<lambda>_. P) W (acquiresleep (ino_lock i) (upd_ino_lock i) c s)"
  unfolding acquiresleep_def by (rule frame updates | assumption | simp)+

lemma release_ino_keeps: "P s \<Longrightarrow> P (releasesleep (upd_ino_lock i) c s)"
  unfolding releasesleep_def by (rule updates | assumption | simp)+

lemma idup_keeps: "P s \<Longrightarrow> P (idup i s)"
  unfolding idup_def by (rule updates | assumption | simp)+

lemmas ino_updates = buf_updates release_ino_keeps idup_keeps

lemma readsb_keeps [frame]: "P s \<Longrightarrow> yields (\<lambda>_. P) W (readsb dev s)"
  unfolding readsb_def Let_def by (rule frame buf_updates | assumption | simp)+

lemma bzero_keeps [frame]: "P s \<Longrightarrow> yields (\<lambda>_. P) W (bzero dev bno s)"
  unfolding bzero_def Let_def by (rule frame buf_updates | assumption | simp)+

lemma balloc_loop_keeps [frame]: "P s \<Longrightarrow> yields (\<lambda>_. P) W (balloc_loop sz dev b s)"
proof (induction sz dev b s rule: balloc_loop.induct)
  case (1 sz dev b s)
  show ?case unfolding balloc_loop.simps [of sz dev b s] Let_def by (rule frame buf_updates 1 refl | assumption | simp)+
qed

lemma balloc_keeps [frame]: "P s \<Longrightarrow> yields (\<lambda>_. P) W (balloc dev s)"
  unfolding balloc_def Let_def by (rule frame buf_updates | assumption | simp)+

lemma bfree_keeps [frame]: "P s \<Longrightarrow> yields (\<lambda>_. P) W (bfree dev b s)"
  unfolding bfree_def Let_def by (rule frame buf_updates | assumption | simp)+

lemma iget_keeps [frame]: "P s \<Longrightarrow> yields (\<lambda>i t. ino_ok i \<and> P t) W (iget dev inum s)"
  by (auto simp: iget_def intro: set_inode inodes dest: find_idx_SomeD(1) split: option.split)

lemma iget_keeps_state [frame]: "P s \<Longrightarrow> yields (\<lambda>_. P) W (iget dev inum s)"
  by (rule drop_result) (rule frame)

lemma ialloc_loop_keeps [frame]: "P s \<Longrightarrow> yields (\<lambda>r t. pred_option ino_ok r \<and> P t) W (ialloc_loop ninodes dev type inum s)"
proof (induction ninodes dev type inum s rule: ialloc_loop.induct)
  case (1 ninodes dev type inum s)
  show ?case unfolding ialloc_loop.simps [of ninodes dev type inum s] Let_def by (rule frame buf_updates 1 refl | assumption | simp)+
qed

lemma ialloc_keeps [frame]: "P s \<Longrightarrow> yields (\<lambda>r t. pred_option ino_ok r \<and> P t) W (ialloc dev type s)"
  unfolding ialloc_def Let_def by (rule frame buf_updates | assumption | simp)+

lemma ialloc_keeps_state [frame]: "P s \<Longrightarrow> yields (\<lambda>_. P) W (ialloc dev type s)"
  by (rule drop_result) (rule frame)

lemma iupdate_keeps [frame]: "P s \<Longrightarrow> yields (\<lambda>_. P) W (iupdate i s)"
  unfolding iupdate_def Let_def by (rule frame buf_updates | assumption | simp)+

lemma ilock_keeps [frame]: "P s \<Longrightarrow> yields (\<lambda>_. P) W (ilock i s)"
  unfolding ilock_def Let_def get_dinode_def by (rule frame buf_updates | assumption | simp)+

lemma iunlock_keeps [frame]: "P s \<Longrightarrow> yields (\<lambda>_. P) W (iunlock i s)"
  unfolding iunlock_def Let_def by (rule frame ino_updates | assumption | simp)+

lemma itrunc_direct_keeps [frame]: "P s \<Longrightarrow> yields (\<lambda>_. P) W (itrunc_direct k i ip s)"
proof (induction k arbitrary: i s)
  case (Suc k)
  show ?case unfolding itrunc_direct.simps Let_def by (rule andthen_keeps frame buf_updates Suc | assumption | simp)+
qed simp

lemma itrunc_indirect_keeps [frame]: "P s \<Longrightarrow> yields (\<lambda>_. P) W (itrunc_indirect dev as s)"
proof (induction as arbitrary: s)
  case (Cons a as)
  show ?case unfolding itrunc_indirect.simps by (rule frame Cons | assumption)+
qed simp

lemma itrunc_keeps [frame]: "P s \<Longrightarrow> yields (\<lambda>_. P) W (itrunc ip s)"
  unfolding itrunc_def Let_def by (rule andthen_keeps frame ino_updates | assumption | simp)+

lemma iput_keeps [frame]: "P s \<Longrightarrow> yields (\<lambda>_. P) W (iput i s)"
  unfolding iput_def Let_def by (rule andthen_keeps frame ino_updates | assumption | simp)+

lemma iunlockput_keeps [frame]: "P s \<Longrightarrow> yields (\<lambda>_. P) W (iunlockput i s)"
  unfolding iunlockput_def Let_def by (rule frame ino_updates | assumption | simp)+

lemma ireclaim_loop_keeps [frame]: "P s \<Longrightarrow> yields (\<lambda>_. P) W (ireclaim_loop ninodes dev inum s)"
proof (induction ninodes dev inum s rule: ireclaim_loop.induct)
  case (1 ninodes dev inum s)
  show ?case unfolding ireclaim_loop.simps [of ninodes dev inum s] Let_def by (rule andthen_keeps frame buf_updates 1 refl | assumption | simp)+
qed

lemma ireclaim_keeps [frame]: "P s \<Longrightarrow> yields (\<lambda>_. P) W (ireclaim dev s)"
  unfolding ireclaim_def Let_def by (rule frame ino_updates | assumption | simp)+

lemma fsinit_keeps [frame]: "P s \<Longrightarrow> yields (\<lambda>_. P) W (fsinit dev s)"
  unfolding fsinit_def Let_def by (rule frame ino_updates | assumption | simp)+

lemma bmap_keeps [frame]: "P s \<Longrightarrow> yields (\<lambda>_. P) W (bmap ip bn s)"
  unfolding bmap_def Let_def by (rule andthen_keeps frame ino_updates | assumption | simp)+

lemma read_chunk_keeps [frame]:
  "P s \<Longrightarrow> yields (\<lambda>_. P) W (case dst of RUser va \<Rightarrow> either_copyout True (f va) src m s
     | RMem pa \<Rightarrow> either_copyout False (g pa) src m s | RLocal \<Rightarrow> Ok 0 s)"
  by (cases dst) (simp_all, (rule frame | assumption)+)

lemma readi_loop_keeps [frame]: "P s \<Longrightarrow> yields (\<lambda>_. P) W (readi_loop ip dst n tot off acc s)"
proof (induction ip dst n tot off acc s rule: readi_loop.induct)
  case (1 ip dst n tot off acc s)
  show ?case unfolding readi_loop.simps [of ip dst n tot off acc s] Let_def by (rule andthen_keeps frame buf_updates 1 refl | assumption | simp)+
qed

lemma readi_keeps [frame]: "P s \<Longrightarrow> yields (\<lambda>_. P) W (readi ip dst off n s)"
  unfolding readi_def Let_def by (rule frame ino_updates | assumption | simp)+

lemma write_chunk_keeps [frame]:
  "P s \<Longrightarrow> yields (\<lambda>_. P) W (case src of WUser va \<Rightarrow> either_copyin True (f va) m s | WLocal bs \<Rightarrow> Ok (g bs) s)"
  by (cases src) (simp_all, (rule frame | assumption)+)

lemma writei_loop_keeps [frame]: "P s \<Longrightarrow> yields (\<lambda>_. P) W (writei_loop ip src n tot off s)"
proof (induction ip src n tot off s rule: writei_loop.induct)
  case (1 ip src n tot off s)
  show ?case unfolding writei_loop.simps [of ip src n tot off s] Let_def by (rule andthen_keeps frame buf_updates 1 refl | assumption | simp)+
qed

lemma writei_keeps [frame]: "P s \<Longrightarrow> yields (\<lambda>_. P) W (writei ip src off n s)"
  unfolding writei_def Let_def by (rule frame ino_updates | assumption | simp)+

lemma dirlookup_loop_keeps [frame]: "P s \<Longrightarrow> yields (\<lambda>r t. pred_option (ino_ok \<circ> fst) r \<and> P t) W (dirlookup_loop sz dp name off s)"
proof (induction sz dp name off s rule: dirlookup_loop.induct)
  case (1 sz dp name off s)
  show ?case unfolding dirlookup_loop.simps [of sz dp name off s] Let_def by (rule frame buf_updates 1 refl | assumption | simp)+
qed

lemma dirlookup_keeps [frame]: "P s \<Longrightarrow> yields (\<lambda>r t. pred_option (ino_ok \<circ> fst) r \<and> P t) W (dirlookup dp name s)"
  unfolding dirlookup_def Let_def by (rule frame ino_updates | assumption | simp)+

lemma dirlookup_keeps_state [frame]: "P s \<Longrightarrow> yields (\<lambda>_. P) W (dirlookup dp name s)"
  by (rule drop_result) (rule frame)

lemma dirlink_scan_keeps [frame]: "P s \<Longrightarrow> yields (\<lambda>_. P) W (dirlink_scan sz dp off s)"
proof (induction sz dp off s rule: dirlink_scan.induct)
  case (1 sz dp off s)
  show ?case unfolding dirlink_scan.simps [of sz dp off s] Let_def by (rule frame buf_updates 1 refl | assumption | simp)+
qed

lemma dirlink_keeps [frame]: "P s \<Longrightarrow> yields (\<lambda>_. P) W (dirlink dp name inum s)"
  unfolding dirlink_def Let_def by (rule frame ino_updates | assumption | simp)+

lemma namex_loop_keeps [frame]:
  "P s \<Longrightarrow> ino_ok ip \<Longrightarrow>
   yields (\<lambda>r t. pred_option ino_ok (fst r) \<and> P t) W (namex_loop parent ip path name s)"
proof (induction parent ip path name s rule: namex_loop.induct)
  case (1 parent ip path name s)
  show ?case unfolding namex_loop.simps [of parent ip path name s]
    by (rule frame 1 refl | assumption | simp add: 1)+
qed

lemma namex_keeps [frame]:
  "P s \<Longrightarrow> yields (\<lambda>r t. pred_option ino_ok (fst r) \<and> P t) W (namex path parent s)"
proof -
  assume P: "P s"
  have "yields (\<lambda>i t. ino_ok i \<and> P t) W
      (if path \<noteq> [] \<and> hd path = slash then iget ROOTDEV ROOTINO s
       else case p_cwd (myproc s) of None \<Rightarrow> Fault ''namex: null cwd'' | Some i \<Rightarrow> Ok i (idup i s))"
    using P by (auto intro!: iget_keeps idup_keeps cwd_inode split: option.split)
  then show ?thesis unfolding namex_def by (rule yields_andthen) (rule frame | simp)+
qed

lemma namei_keeps [frame]: "P s \<Longrightarrow> yields (\<lambda>r t. pred_option ino_ok r \<and> P t) W (namei path s)"
  unfolding namei_def Let_def by (rule frame ino_updates | assumption | simp)+

lemma namei_keeps_state [frame]: "P s \<Longrightarrow> yields (\<lambda>_. P) W (namei path s)"
  by (rule drop_result) (rule frame)

lemma nameiparent_keeps [frame]: "P s \<Longrightarrow> yields (\<lambda>r t. pred_option ino_ok (fst r) \<and> P t) W (nameiparent path s)"
  unfolding nameiparent_def Let_def by (rule frame ino_updates | assumption | simp)+

lemma nameiparent_keeps_state [frame]: "P s \<Longrightarrow> yields (\<lambda>_. P) W (nameiparent path s)"
  by (rule drop_result) (rule frame)

subsection \<open>The console and pipes\<close>

lemma uartwrite_keeps:
  "P s \<Longrightarrow> uartwrite cs i s = (j, t) \<Longrightarrow> if j < i + length cs then W t else P t"
proof (induction cs arbitrary: i s)
  case (Cons c cs)
  then show ?case
    using Cons.IH [of "(WriteReg THR c s)\<lparr>tx_busy := True\<rparr>" "Suc i"] set_tx_busy [OF set_uart [OF Cons.prems(1)]]
    by (auto simp: WriteReg_def intro: sleeps split: if_splits)
qed simp

lemma uart_batch_keeps:
  assumes "P s" and "\<And>j t. uartwrite buf 0 s = (j, t) \<Longrightarrow> \<not> j < length buf \<Longrightarrow> P t \<Longrightarrow> yields R W (f t)"
    and "\<And>j t. W t \<Longrightarrow> R (g j) t"
  shows "yields R W (case uartwrite buf 0 s of (j, t) \<Rightarrow> if j < length buf then Ok (g j) t else f t)"
  using assms uartwrite_keeps [OF assms(1), of buf 0] by (auto split: prod.split)

lemma consolewrite_loop_keeps:
  "P s \<Longrightarrow> yields (\<lambda>r t. case r of CwDone _ \<Rightarrow> P t | CwWait _ _ _ \<Rightarrow> W t) W (consolewrite_loop user_src src n i s)"
proof (induction user_src src n i s rule: consolewrite_loop.induct)
  case (1 user_src src n i s)
  show ?case unfolding consolewrite_loop.simps [of user_src src n i s] Let_def
    by (rule uart_batch_keeps frame 1 refl | assumption | (rule sym, assumption) | simp add: 1)+
qed

lemma consolewrite_keeps [frame]: "P s \<Longrightarrow> yields (\<lambda>_. P) W (consolewrite user_src src n s)"
  unfolding consolewrite_def by (rule yields_andthen, erule consolewrite_loop_keeps) (auto split: cw.splits)

lemma consoleread_loop_keeps [frame]:
  "P s \<Longrightarrow> yields (\<lambda>_. P) W (consoleread_loop user_dst dst target n s)"
proof (induction n arbitrary: dst s)
  case (Suc n)
  show ?case unfolding consoleread_loop.simps Let_def by (rule frame updates if_keeps Suc | assumption | simp)+
qed simp

lemma consoleread_keeps [frame]: "P s \<Longrightarrow> yields (\<lambda>_. P) W (consoleread user_dst dst n s)"
  unfolding consoleread_def by (rule frame | assumption)+

lemma pipeclose_keeps [frame]: "P s \<Longrightarrow> yields (\<lambda>_. P) W (pipeclose a writable s)"
  unfolding pipeclose_def Let_def by (rule frame updates if_keeps | assumption | simp)+

lemma pipewrite_loop_keeps: "P s \<Longrightarrow> yields (\<lambda>r t. case r of PwDone _ \<Rightarrow> P t | PwWait _ \<Rightarrow> W t) W (pipewrite_loop a addr n i s)"
proof (induction a addr n i s rule: pipewrite_loop.induct)
  case (1 a addr n i s)
  show ?case unfolding pipewrite_loop.simps [of a addr n i s]
    by (rule frame 1 refl updates | assumption | simp add: pipe_push_def wakes sleeps [OF wakes, simplified] 1)+
qed

lemma pipewrite_keeps [frame]: "P s \<Longrightarrow> yields (\<lambda>_. P) W (pipewrite a addr n s)"
  unfolding pipewrite_def by (rule yields_andthen, erule pipewrite_loop_keeps) (auto split: pw.splits)

lemma piperead_loop_keeps [frame]: "P s \<Longrightarrow> yields (\<lambda>_. P) W (piperead_loop a addr i k s)"
proof (induction k arbitrary: i s)
  case (Suc k)
  show ?case unfolding piperead_loop.simps Let_def by (rule frame updates Suc | assumption | simp)+
qed simp

lemma piperead_keeps [frame]: "P s \<Longrightarrow> yields (\<lambda>_. P) W (piperead a addr n s)"
  unfolding piperead_def Let_def by (rule frame updates | assumption)+

subsection \<open>Open files\<close>

lemma filealloc_keeps:
  "P s \<Longrightarrow> filealloc s = (r, t) \<Longrightarrow> P t"
  "P s \<Longrightarrow> filealloc s = (Some i, t) \<Longrightarrow> file_ok i"
  by (auto simp: filealloc_def intro: set_file files dest: find_idx_SomeD(1) split: option.splits)

lemma filedup_keeps [frame]: "P s \<Longrightarrow> yields (\<lambda>j. P) W (filedup i s)"
  unfolding filedup_def by (rule frame updates | assumption | simp)+

lemma fileclose_keeps [frame]: "P s \<Longrightarrow> yields (\<lambda>_. P) W (fileclose i s)"
  unfolding fileclose_def Let_def by (rule andthen_keeps frame updates | assumption | simp)+

lemma pipealloc_keeps [frame]:
  "P s \<Longrightarrow> yields (\<lambda>r t. pred_option (\<lambda>(i, j). file_ok i \<and> file_ok j) r \<and> P t) W (pipealloc s)"
proof -
  assume P: "P s"
  obtain r t where rt: "filealloc s = (r, t)" by (cases "filealloc s")
  obtain q u where qu: "filealloc t = (q, u)" by (cases "filealloc t")
  note ok = filealloc_keeps [OF P] and ok' = filealloc_keeps [OF filealloc_keeps(1) [OF P rt]]
  show ?thesis unfolding pipealloc_def Let_def
    using rt qu by (auto intro!: frame updates intro: ok(1) [OF rt] ok'(1) [OF qu] ok(2) ok'(2) split: option.split)
qed


lemma filestat_keeps [frame]: "P s \<Longrightarrow> yields (\<lambda>_. P) W (filestat i addr s)"
  unfolding filestat_def Let_def by (rule andthen_keeps frame updates | assumption | simp)+

lemma yields_ftype [frame]:
  "yields R W a \<Longrightarrow> yields R W b \<Longrightarrow> yields R W c \<Longrightarrow> yields R W d \<Longrightarrow>
   yields R W (case ty of FD_NONE \<Rightarrow> a | FD_PIPE \<Rightarrow> b | FD_INODE \<Rightarrow> c | FD_DEVICE \<Rightarrow> d)"
  by (cases ty) simp_all

lemma fileread_keeps [frame]: "P s \<Longrightarrow> yields (\<lambda>_. P) W (fileread i addr n s)"
  unfolding fileread_def Let_def
  by (rule frame updates if_keeps | assumption | simp)+

lemma filewrite_loop_keeps [frame]: "P s \<Longrightarrow> yields (\<lambda>_. P) W (filewrite_loop i addr n j s)"
proof (induction i addr n j s rule: filewrite_loop.induct)
  case (1 i addr n j s)
  show ?case unfolding filewrite_loop.simps [of i addr n j s] Let_def
    by (rule frame updates if_keeps 1 refl | assumption | simp)+
qed

lemma filewrite_keeps [frame]: "P s \<Longrightarrow> yields (\<lambda>_. P) W (filewrite i addr n s)"
  unfolding filewrite_def Let_def
  by (rule frame updates if_keeps | assumption | simp)+

end

section \<open>The tables of the kernel\<close>

text \<open>
  The arrays of the kernel have the sizes the source declares, and every index stored in one of
  them points into the table it is used with.
\<close>

definition proc_ok :: "proc \<Rightarrow> bool" where
  "proc_ok p \<longleftrightarrow> length (p_ofile p) = NOFILE \<and> (\<forall>f \<in> set (p_ofile p). pred_option (\<lambda>i. i < NFILE) f) \<and>
     pred_option (\<lambda>i. i < NINODE) (p_cwd p) \<and> pred_option (\<lambda>i. i < NPROC) (p_parent p) \<and>
     length (p_name p) = 16 \<and> length (p_signal_handlers p) = NSIG \<and> length (p_ipc_msg p) = IPC_MAX_MSG"

definition tables_ok :: "'z iostate_scheme \<Rightarrow> bool" where
  "tables_ok s \<longleftrightarrow>
     length (procs s) = NPROC \<and> (\<forall>p \<in> set (procs s). proc_ok p) \<and>
     (\<exists>i < NPROC. cur s = Some i) \<and> pred_option (\<lambda>i. i < NPROC) (initproc s) \<and>
     length (bufs s) = NBUF \<and>
     length (itable s) = NINODE \<and> (\<forall>ip \<in> set (itable s). length (i_addrs ip) = Suc NDIRECT) \<and>
     length (ftable s) = NFILE \<and> (\<forall>f \<in> set (ftable s). f_ip f < NINODE) \<and>
     (\<forall>a. length (pi_data (pipes s a)) = PIPESIZE) \<and>
     length (cons_buf s) = INPUT_BUF_SIZE \<and> length (devsw s) = NDEV"

lemma ball_list_modify: "(\<forall>x \<in> set xs. Q x) \<Longrightarrow> (\<And>x. Q x \<Longrightarrow> Q (f x)) \<Longrightarrow> \<forall>x \<in> set (list_modify i f xs). Q x"
  by (cases "i < length xs") (auto simp: list_modify_def list_update_beyond dest!: set_update_subset_insert [THEN subsetD])

lemma proc_ok_state [simp]:
  "proc_ok (p\<lparr>p_state := st\<rparr>) = proc_ok p" "proc_ok (p\<lparr>p_chan := c\<rparr>) = proc_ok p"
  by (simp_all add: proc_ok_def)

lemma tables_ok_wakeup: "tables_ok s \<Longrightarrow> tables_ok (wakeup c s)"
  by (auto simp: tables_ok_def wakeup_def wake_one_def)

lemma tables_ok_upd_proc:
  assumes "tables_ok s" and "\<And>p. proc_ok p \<Longrightarrow> proc_ok (f p)"
  shows "tables_ok (upd_proc i f s)"
proof -
  have "\<forall>p \<in> set (list_modify i f (procs s)). proc_ok p"
    by (rule ball_list_modify) (use assms in \<open>auto simp: tables_ok_def\<close>)
  with assms(1) show ?thesis by (simp add: tables_ok_def upd_proc_def)
qed

lemma proc_ok_myproc: "tables_ok s \<Longrightarrow> proc_ok (myproc s)"
  by (auto simp: tables_ok_def myproc_def)

lemma tables_ok_upd_inode:
  assumes "\<And>ip. length (i_addrs (f ip)) = length (i_addrs ip) \<or> length (i_addrs (f ip)) = Suc NDIRECT"
    and "tables_ok s"
  shows "tables_ok (upd_inode i f s)"
proof -
  have "\<forall>ip \<in> set (list_modify i f (itable s)). length (i_addrs ip) = Suc NDIRECT"
    by (rule ball_list_modify) (use assms(2) in \<open>simp add: tables_ok_def\<close>, metis assms(1))
  with assms(2) show ?thesis by (simp add: tables_ok_def upd_inode_def)
qed

lemma tables_ok_upd_file:
  assumes "\<And>x. f_ip (f x) = f_ip x \<or> f_ip (f x) < NINODE" and "tables_ok s"
  shows "tables_ok (upd_file i f s)"
proof -
  have "\<forall>x \<in> set (list_modify i f (ftable s)). f_ip x < NINODE"
    by (rule ball_list_modify) (use assms(2) in \<open>simp add: tables_ok_def\<close>, metis assms(1))
  with assms(2) show ?thesis by (simp add: tables_ok_def upd_file_def)
qed

text \<open>
  Process ids: the entries in use have distinct positive ids below the next one to be given out.
\<close>

abbreviation in_use :: "'z pstate_scheme \<Rightarrow> nat \<Rightarrow> bool" where
  "in_use s i \<equiv> i < length (procs s) \<and> p_state (procs s ! i) \<noteq> UNUSED"

definition pids_ok :: "'z pstate_scheme \<Rightarrow> bool" where
  "pids_ok s \<longleftrightarrow> 0 < nextpid s \<and> (\<forall>i. in_use s i \<longrightarrow> 0 < p_pid (procs s ! i) \<and> p_pid (procs s ! i) < nextpid s) \<and>
     (\<forall>i j. in_use s i \<longrightarrow> in_use s j \<longrightarrow> p_pid (procs s ! i) = p_pid (procs s ! j) \<longrightarrow> i = j)"

definition kernel_ok :: "'z iostate_scheme \<Rightarrow> bool" where
  "kernel_ok s \<longleftrightarrow> tables_ok s \<and> pids_ok s"

text \<open>Process \<open>m\<close> is executing in the kernel.\<close>

definition running :: "nat \<Rightarrow> 'z iostate_scheme \<Rightarrow> bool" where
  "running m s \<longleftrightarrow> kernel_ok s \<and> cur s = Some m \<and> m < NPROC \<and> p_state (procs s ! m) = RUNNING"

lemma running_kernel_ok: "running m s \<Longrightarrow> kernel_ok s"
  and running_tables: "running m s \<Longrightarrow> tables_ok s"
  and running_len: "running m s \<Longrightarrow> length (procs s) = NPROC"
  by (simp_all add: running_def kernel_ok_def tables_ok_def)

lemma running_proc: "running m s \<Longrightarrow> i < NPROC \<Longrightarrow> proc_ok (procs s ! i)"
  by (simp add: running_def kernel_ok_def tables_ok_def)

lemma pids_ok_cong:
  assumes "pids_ok s" and "nextpid t = nextpid s" and "length (procs t) = length (procs s)"
    and "\<And>i. i < length (procs s) \<Longrightarrow> p_pid (procs t ! i) = p_pid (procs s ! i)"
    and "\<And>i. i < length (procs s) \<Longrightarrow> p_state (procs t ! i) = UNUSED \<longleftrightarrow> p_state (procs s ! i) = UNUSED"
  shows "pids_ok t"
  using assms(1) unfolding pids_ok_def assms(2,3) by (metis assms(4,5))

lemma pids_ok_wakeup: "pids_ok s \<Longrightarrow> pids_ok (wakeup c s)"
  by (erule pids_ok_cong) (auto simp: proc_simps wake_one_def)

lemma running_wakeup: "running m s \<Longrightarrow> running m (wakeup c s)"
  by (simp add: running_def kernel_ok_def tables_ok_wakeup pids_ok_wakeup proc_simps tables_ok_def [of s])

text \<open>An update of an entry that keeps its id and its state.\<close>

lemma running_upd_proc:
  assumes "running m s" and "\<And>p. proc_ok p \<Longrightarrow> proc_ok (f p)" and "\<And>p. p_pid (f p) = p_pid p"
    and "\<And>p. p_state (f p) = p_state p"
  shows "running m (upd_proc i f s)"
proof -
  have "pids_ok (upd_proc i f s)"
    by (rule pids_ok_cong [of s]) (use assms in \<open>auto simp: proc_simps running_def kernel_ok_def\<close>)
  moreover have "tables_ok (upd_proc i f s)"
    using assms(1,2) by (intro tables_ok_upd_proc) (auto simp: running_def kernel_ok_def)
  ultimately show ?thesis using assms(1,4) running_len [OF assms(1)] by (simp add: running_def kernel_ok_def proc_simps)
qed

lemma running_sleep:
  assumes "running m s"
  shows "kernel_ok (upd_proc (me s) (\<lambda>p. p\<lparr>p_chan := Some c, p_state := SLEEPING\<rparr>) s)"
proof -
  have "tables_ok (upd_proc (me s) (\<lambda>p. p\<lparr>p_chan := Some c, p_state := SLEEPING\<rparr>) s)"
    using assms by (intro tables_ok_upd_proc) (auto simp: running_def kernel_ok_def)
  moreover have "pids_ok (upd_proc (me s) (\<lambda>p. p\<lparr>p_chan := Some c, p_state := SLEEPING\<rparr>) s)"
    by (rule pids_ok_cong [of s]) (use assms in \<open>auto simp: proc_simps running_def kernel_ok_def\<close>)
  ultimately show ?thesis by (simp add: kernel_ok_def)
qed

text \<open>The first interpretation: the routines keep the tables, for whatever process runs them.\<close>

interpretation run: kernel_inv "running m" kernel_ok "\<lambda>i. i < NINODE" "\<lambda>i. i < NFILE" for m
proof unfold_locales
  fix s :: "'a iostate_scheme" and i
  assume "running m s" and "p_cwd (myproc s) = Some i"
  with proc_ok_myproc [of s] running_tables [of m s] show "i < NINODE" by (simp add: proc_ok_def)
next
  fix s :: "'a iostate_scheme" and f :: "inode \<Rightarrow> inode" and i
  assume "running m s" and "\<And>ip. length (i_addrs (f ip)) = length (i_addrs ip) \<or> length (i_addrs (f ip)) = Suc NDIRECT"
  with tables_ok_upd_inode [of f s i] show "running m (upd_inode i f s)"
    by (simp add: running_def kernel_ok_def pids_ok_def upd_inode_def)
next
  fix s :: "'a iostate_scheme" and f :: "kfile \<Rightarrow> kfile" and i
  assume "running m s" and "\<And>x. f_ip (f x) = f_ip x \<or> f_ip (f x) < NINODE"
  with tables_ok_upd_file [of f s i] show "running m (upd_file i f s)"
    by (simp add: running_def kernel_ok_def pids_ok_def upd_file_def)
qed (erule running_wakeup | erule running_sleep |
    simp add: running_def kernel_ok_def pids_ok_def tables_ok_def upd_buf_def upd_pipe_def)+

section \<open>The process table\<close>

text \<open>
  The second contract: a relation \<open>R i\<close> between what process \<open>i\<close> was and what it is that survives
  waking a sleeper. The routines keep it for every process, because waking is all they do to the
  process table.
\<close>

definition procs_rel ::
  "(nat \<Rightarrow> proc \<Rightarrow> proc \<Rightarrow> bool) \<Rightarrow> 'z pstate_scheme \<Rightarrow> 'z pstate_scheme \<Rightarrow> bool" where
  "procs_rel R s t \<longleftrightarrow> cur t = cur s \<and> nextpid t = nextpid s \<and> initproc t = initproc s \<and>
     forkret_pc t = forkret_pc s \<and> length (procs t) = length (procs s) \<and>
     (\<forall>i < length (procs s). R i (procs s ! i) (procs t ! i))"

locale proc_relation =
  fixes R :: "nat \<Rightarrow> proc \<Rightarrow> proc \<Rightarrow> bool"
  assumes wake: "R i p q \<Longrightarrow> R i p (wake_one c q)"
begin

lemma procs_rel_wakeup: "procs_rel R s t \<Longrightarrow> procs_rel R s (wakeup c t)"
  using wake by (auto simp: procs_rel_def wakeup_def)

lemma procs_rel_upd_proc:
  "procs_rel R s t \<Longrightarrow> (\<And>p q. R i p q \<Longrightarrow> R i p (f q)) \<Longrightarrow> procs_rel R s (upd_proc i f t)"
  by (auto simp: procs_rel_def upd_proc_def)

end

sublocale proc_relation \<subseteq> rel: kernel_inv "procs_rel R s" "\<lambda>_. True" "\<lambda>_. True" "\<lambda>_. True"
  for s :: "'z iostate_scheme"
  by unfold_locales
    (erule procs_rel_wakeup | simp add: procs_rel_def upd_buf_def upd_inode_def upd_file_def upd_pipe_def)+

text \<open>Nothing but waking: the routines below the process layer leave every other field as it was.\<close>

definition woken :: "nat \<Rightarrow> proc \<Rightarrow> proc \<Rightarrow> bool" where
  "woken i p q \<longleftrightarrow> q = p \<or> p_state p = SLEEPING \<and> q = p\<lparr>p_state := RUNNABLE\<rparr>"

interpretation wok: proc_relation woken
  by unfold_locales (auto simp: woken_def wake_one_def)

lemma procs_rel_refl: "(\<And>i p. R i p p) \<Longrightarrow> procs_rel R s s"
  by (simp add: procs_rel_def)

lemma woken_refl [simp]: "procs_rel woken s s"
  by (rule procs_rel_refl) (simp add: woken_def)

end
