(* ===== verification/Procinv.thy ===== *)
theory Procinv
  imports Proc Kinv
begin

text \<open>
  What the process layer promises: the fairness of the scheduler, what \<open>fork\<close> gives the child, that
  an exiting process wakes its parent and is collected by it, that messages arrive as they were sent,
  and that the process calls keep the tables of the kernel within their bounds and process ids
  unique.
\<close>

section \<open>Fairness of the scheduler\<close>

text \<open>
  While process \<open>j\<close> runs, the kernel may make sleeping processes runnable and change \<open>j\<close> itself, but
  no other process stops being runnable.
\<close>

definition keeps_runnable :: "nat \<Rightarrow> 'z pstate_scheme \<Rightarrow> 'z pstate_scheme \<Rightarrow> bool" where
  "keeps_runnable j s t \<longleftrightarrow> length (procs t) = length (procs s) \<and>
     (\<forall>i < length (procs s). i \<noteq> j \<longrightarrow> p_state (procs s ! i) = RUNNABLE \<longrightarrow> p_state (procs t ! i) = RUNNABLE)"

lemma keeps_runnable_refl [simp]: "keeps_runnable j s s"
  by (simp add: keeps_runnable_def)

lemma keeps_runnable_trans: "keeps_runnable j s t \<Longrightarrow> keeps_runnable j t u \<Longrightarrow> keeps_runnable j s u"
  by (simp add: keeps_runnable_def)

lemma wakeup_keeps_runnable: "keeps_runnable j s (wakeup c s)"
  by (simp add: keeps_runnable_def proc_simps wake_one_def)

lemma own_update_keeps_runnable: "keeps_runnable j s (upd_proc j f s)"
  by (simp add: keeps_runnable_def proc_simps)

lemma parent_update_keeps_runnable:
  "(\<And>p. p_state (f p) = p_state p) \<Longrightarrow> keeps_runnable j s (upd_proc i f s)"
  by (simp add: keeps_runnable_def proc_simps)

lemma kkill_keeps_runnable: "keeps_runnable j s (snd (kkill pid s))"
  by (simp add: keeps_runnable_def kkill_def proc_simps split: option.split)

lemma reparent_loop_keeps_runnable: "keeps_runnable j s (reparent_loop k i p s)"
proof (induction k i p s rule: reparent_loop.induct)
  case (2 k i p s)
  let ?t = "wakeup (ChProc (the (initproc s))) (upd_proc i (\<lambda>q. q\<lparr>p_parent := initproc s\<rparr>) s)"
  have "keeps_runnable j s ?t"
    by (rule keeps_runnable_trans [OF parent_update_keeps_runnable wakeup_keeps_runnable]) simp
  with 2 show ?case by (auto intro: keeps_runnable_trans)
qed simp

lemma become_zombie_keeps_runnable: "keeps_runnable p s (become_zombie p status s)"
  by (auto simp: become_zombie_def Let_def reparent_def intro!: keeps_runnable_trans [OF _ own_update_keeps_runnable]
      keeps_runnable_trans [OF reparent_loop_keeps_runnable wakeup_keeps_runnable] reparent_loop_keeps_runnable split: option.split)

lemma sleep_keeps_runnable: "sleep c s = Sleep c t \<Longrightarrow> keeps_runnable (me s) s t"
  by (auto simp: sleep_def own_update_keeps_runnable)

lemma yield_keeps_runnable: "yield s = Resched t \<Longrightarrow> keeps_runnable (me s) s t"
  by (auto simp: yield_def own_update_keeps_runnable)

text \<open>
  A run of \<open>scheduler\<close> from position \<open>k\<close> of the table: the list of the processes it switches to,
  and the position it has reached. Each process runs until it gives up the processor; when a pass
  finds nothing more, interrupts may come before the next pass.
\<close>

inductive sched :: "nat \<Rightarrow> 'z pstate_scheme \<Rightarrow> nat list \<Rightarrow> nat \<Rightarrow> 'z pstate_scheme \<Rightarrow> bool" for k s where
  start: "sched k s [] k s"
| run: "sched k s js n t \<Longrightarrow> scheduler_pass n t = Some (j, u) \<Longrightarrow> keeps_runnable j u v \<Longrightarrow> sched k s (js @ [j]) (Suc j) v"
| next_pass: "sched k s js n t \<Longrightarrow> scheduler_pass n t = None \<Longrightarrow> keeps_runnable (length (procs t)) t v \<Longrightarrow> sched k s js 0 v"

lemma scheduler_pass_Some:
  assumes "scheduler_pass k s = Some (j, t)" and "k \<le> length (procs s)"
  shows "k \<le> j" and "j < length (procs s)" and "t = dispatch j s" and "p_state (procs s ! j) = RUNNABLE"
    and "k \<le> i \<Longrightarrow> i < length (procs s) \<Longrightarrow> p_state (procs s ! i) = RUNNABLE \<Longrightarrow> j \<le> i"
proof -
  from assms(1) have f: "find_from (\<lambda>p. p_state p = RUNNABLE) k (drop k (procs s)) = Some j" and "t = dispatch j s"
    by (auto simp: scheduler_pass_def split: option.splits)
  then show "t = dispatch j s" by simp
  from find_from_SomeD [OF f] assms(2)
  show "k \<le> j" "j < length (procs s)" "p_state (procs s ! j) = RUNNABLE" by auto
  show "j \<le> i" if "k \<le> i" "i < length (procs s)" "p_state (procs s ! i) = RUNNABLE"
  proof (rule ccontr)
    assume "\<not> j \<le> i"
    with that(1) have "i - k < j - k" by simp
    with find_from_SomeD [OF f] assms(2) that show False by (metis le_add_diff_inverse nth_drop)
  qed
qed

lemma scheduler_pass_None:
  assumes "scheduler_pass k s = None" and "k \<le> i" and "i < length (procs s)"
  shows "p_state (procs s ! i) \<noteq> RUNNABLE"
proof -
  from assms have "procs s ! i \<in> set (drop k (procs s))"
    by (auto simp: in_set_conv_nth intro!: exI [of _ "i - k"])
  with assms(1) show ?thesis by (auto simp: scheduler_pass_def find_from_None_iff split: option.splits)
qed

text \<open>The number of entries the scheduler visits from position \<open>n\<close> before it comes to entry \<open>i\<close>.\<close>

definition entries_before :: "nat \<Rightarrow> nat \<Rightarrow> nat \<Rightarrow> nat" where
  "entries_before len i n = (if n \<le> i then i - n else len - n + i)"

lemma dispatch_keeps_runnable: "keeps_runnable j s (dispatch j s)"
  by (simp add: dispatch_def keeps_runnable_def proc_simps)

lemma sched_bound:
  assumes "sched k s js n t" and "k \<le> length (procs s)" and "i < length (procs s)"
    and "p_state (procs s ! i) = RUNNABLE" and "i \<notin> set js"
  shows "length (procs t) = length (procs s) \<and> n \<le> length (procs s) \<and> p_state (procs t ! i) = RUNNABLE \<and>
         length js + entries_before (length (procs s)) i n \<le> entries_before (length (procs s)) i k"
  using assms
proof (induction rule: sched.induct)
  case start
  then show ?case by simp
next
  case (run js n t j u v)
  then have IH: "length (procs t) = length (procs s)" "n \<le> length (procs t)" "p_state (procs t ! i) = RUNNABLE"
    "length js + entries_before (length (procs s)) i n \<le> entries_before (length (procs s)) i k" and ij: "i \<noteq> j" by auto
  note p = scheduler_pass_Some [OF run.hyps(2) IH(2)]
  have keep: "keeps_runnable j t v"
    using keeps_runnable_trans [OF dispatch_keeps_runnable run.hyps(3) [unfolded p(3)]] .
  have "Suc (entries_before (length (procs s)) i (Suc j)) \<le> entries_before (length (procs s)) i n"
    using p(1,2) p(5) [of i] IH ij run.prems(2) by (auto simp: entries_before_def)
  with IH keep ij p(2) run.prems(2) show ?case by (auto simp: keeps_runnable_def)
next
  case (next_pass js n t v)
  then have IH: "length (procs t) = length (procs s)" "n \<le> length (procs t)" "p_state (procs t ! i) = RUNNABLE"
    "length js + entries_before (length (procs s)) i n \<le> entries_before (length (procs s)) i k" by auto
  have "i < n" using scheduler_pass_None [OF next_pass.hyps(2), of i] IH next_pass.prems(2) by (metis not_le)
  with IH next_pass.hyps(3) next_pass.prems(2) show ?case by (auto simp: keeps_runnable_def entries_before_def)
qed


text \<open>Two runnable processes: the first one is chosen and yields, and the second one is still waiting.\<close>

definition demo_two :: iostate where
  "demo_two = demo_io\<lparr>procs := [demo_proc\<lparr>p_state := RUNNABLE\<rparr>, demo_proc\<lparr>p_state := RUNNABLE, p_pid := 2\<rparr>], nextpid := 3\<rparr>"


section \<open>Creating processes\<close>

context kernel_inv
begin

lemma proc_pagetable_keeps [frame]: "P s \<Longrightarrow> yields (\<lambda>_. P) W (proc_pagetable tfpage s)"
  unfolding proc_pagetable_def by (rule frame updates | assumption)+

lemma proc_freepagetable_keeps [frame]: "P s \<Longrightarrow> yields (\<lambda>_. P) W (proc_freepagetable pagetable sz s)"
  unfolding proc_freepagetable_def by (rule frame updates | assumption)+

end

text \<open>
  While process \<open>i\<close> is being set up, its memory and registers are filled in; everything else
  of it stays, and of the other processes everything but waking.
\<close>

lemma yields_any: "yields (\<lambda>_ _. True) (\<lambda>_. True) r"
  by (cases r) simp_all

definition newborn :: "nat \<Rightarrow> nat \<Rightarrow> proc \<Rightarrow> proc \<Rightarrow> bool" where
  "newborn i j p q \<longleftrightarrow>
     (if j = i
      then p_state q = USED \<and>
           q = p\<lparr>p_sz := p_sz q, p_pagetable := p_pagetable q, p_tfpage := p_tfpage q, p_tf := p_tf q,
                 p_context := p_context q\<rparr>
      else woken j p q)"

interpretation nb: proc_relation "newborn i" for i
proof
  fix j p q c
  assume "newborn i j p q"
  then show "newborn i j p (wake_one c q)" by (auto simp: newborn_def woken_def wake_one_def split: if_splits)
qed

lemma newborn_steps:
  assumes "newborn i i p q"
  shows "newborn i i p (q\<lparr>p_pagetable := a\<rparr>)" and "newborn i i p (q\<lparr>p_tfpage := b, p_tf := f\<rparr>)"
    and "newborn i i p (q\<lparr>p_context := c\<rparr>)" and "newborn i i p (q\<lparr>p_sz := z, p_tf := f\<rparr>)"
  using assms by (cases p; cases q; simp add: newborn_def)+

lemma newborn_fields:
  assumes "newborn i i p q"
  shows "p_pid q = p_pid p" "p_state q = USED" "p_ofile q = p_ofile p" "p_fork_count q = p_fork_count p"
    "p_pending_signals q = p_pending_signals p" "p_handling_signal q = p_handling_signal p"
    "p_ipc_ready q = p_ipc_ready p" "p_killed q = p_killed p"
  using assms by (cases p; cases q; simp add: newborn_def)+

text \<open>The entry \<open>allocproc\<close> takes, with its process id and the fields it resets.\<close>

abbreviation claimed :: "nat \<Rightarrow> 'z pstate_scheme \<Rightarrow> 'z pstate_scheme" where
  "claimed i s \<equiv> upd_proc i (fresh_proc (nextpid s)) (s\<lparr>nextpid := nextpid s + 1\<rparr>)"

lemma newborn_claimed: "procs_rel (newborn i) (claimed i s) (claimed i s)"
  by (auto simp: procs_rel_def newborn_def woken_def upd_proc_def fresh_proc_def)

lemma allocproc_spec:
  fixes s :: "'z iostate_scheme"
  shows "yields (\<lambda>r t. case r of None \<Rightarrow> True
       | Some i \<Rightarrow> find_idx (\<lambda>p. p_state p = UNUSED) (procs s) = Some i \<and> procs_rel (newborn i) (claimed i s) t \<and>
                  p_pagetable (procs t ! i) \<noteq> 0)
     (\<lambda>_. True) (allocproc s)"
proof (cases "find_idx (\<lambda>p. p_state p = UNUSED) (procs s)")
  case (Some i)
  then have i: "i < length (procs s)" by (rule find_idx_SomeD)
  let ?N = "procs_rel (newborn i) (claimed i s)"
  let ?R = "\<lambda>r t. case r of None \<Rightarrow> True | Some i \<Rightarrow> find_idx (\<lambda>p. p_state p = UNUSED) (procs s) = Some i \<and>
    procs_rel (newborn i) (claimed i s) t \<and> p_pagetable (procs t ! i) \<noteq> 0"
  have upd: "?N (upd_proc i f t)" if "?N t" "\<And>p q. newborn i i p q \<Longrightarrow> newborn i i p (f q)" for f t
    using nb.procs_rel_upd_proc [OF that] .
  have fail: "yields ?R (\<lambda>_. True) (andthen (freeproc i t) (\<lambda>_ s. Ok None s))" for t
    by (rule yields_andthen [OF yields_any]) simp
  have fin: "?R (Some i) (upd_proc i (\<lambda>p. p\<lparr>p_context := c p\<rparr>) (upd_proc i (\<lambda>p. p\<lparr>p_pagetable := pt\<rparr>) t))"
    if t: "?N t" and pt: "pt \<noteq> 0" for pt t c
  proof -
    have "i < length (procs t)" using t i by (simp add: procs_rel_def)
    moreover have "?N (upd_proc i (\<lambda>p. p\<lparr>p_context := c p\<rparr>) (upd_proc i (\<lambda>p. p\<lparr>p_pagetable := pt\<rparr>) t))"
      by (intro upd newborn_steps t)
    ultimately show ?thesis using pt by (simp add: Some proc_simps)
  qed
  show ?thesis
    unfolding allocproc_def Some option.case allocpid_def andthen.simps Let_def
    by (rule nb.rel.andthen_keeps [where i = i and s = "claimed i s"] fail [unfolded Some] frame
        newborn_claimed upd fin [unfolded Some] newborn_steps | assumption)+
qed (simp add: allocproc_def)

lemma upd_file_procs [simp]:
  "procs (upd_file i f s) = procs s" "cur (upd_file i f s) = cur s" "nextpid (upd_file i f s) = nextpid s"
  "procs (upd_inode i g s) = procs s" "cur (upd_inode i g s) = cur s"
  by (simp_all add: upd_file_def upd_inode_def)

lemma dup_files_spec:
  assumes "dup_files k i p np s = Ok u t" and "p \<noteq> np" and "p < length (procs s)" and "np < length (procs s)"
  shows "\<exists>fs. procs t = list_modify np (\<lambda>q. q\<lparr>p_ofile := fs\<rparr>) (procs s) \<and> cur t = cur s \<and>
           nextpid t = nextpid s \<and> length fs = length (p_ofile (procs s ! np)) \<and>
           (\<forall>fd < length fs. fs ! fd = (if i \<le> fd \<and> fd < i + k \<and> p_ofile (procs s ! p) ! fd \<noteq> None
              then p_ofile (procs s ! p) ! fd else p_ofile (procs s ! np) ! fd))"
  using assms
proof (induction k arbitrary: i s)
  case 0
  then show ?case
    by (intro exI [of _ "p_ofile (procs s ! np)"]) (auto simp: list_modify_def)
next
  case (Suc k)
  show ?case
  proof (cases "p_ofile (procs s ! p) ! i")
    case None
    then have "dup_files k (Suc i) p np s = Ok u t" using Suc.prems(1) by simp
    then obtain fs where fs: "procs t = list_modify np (\<lambda>q. q\<lparr>p_ofile := fs\<rparr>) (procs s)" "cur t = cur s \<and> nextpid t = nextpid s"
      "length fs = length (p_ofile (procs s ! np))"
      "\<forall>fd < length fs. fs ! fd = (if Suc i \<le> fd \<and> fd < Suc i + k \<and> p_ofile (procs s ! p) ! fd \<noteq> None
          then p_ofile (procs s ! p) ! fd else p_ofile (procs s ! np) ! fd)"
      using Suc.IH [OF _ Suc.prems(2-4)] by blast
    have "(Suc i \<le> fd \<and> fd < Suc i + k \<and> p_ofile (procs s ! p) ! fd \<noteq> None) =
        (i \<le> fd \<and> fd < i + Suc k \<and> p_ofile (procs s ! p) ! fd \<noteq> None)" for fd
      using None by (cases "fd = i") auto
    with fs show ?thesis by (intro exI [of _ fs]) simp
  next
    case (Some f)
    define s1 where "s1 = upd_proc np (\<lambda>q. q\<lparr>p_ofile := (p_ofile q)[i := Some f]\<rparr>) (upd_file f (\<lambda>x. x\<lparr>f_ref := f_ref x + 1\<rparr>) s)"
    have "dup_files k (Suc i) p np s1 = Ok u t"
      using Suc.prems(1) Some by (auto simp: res_simps filedup_def s1_def split: if_splits)
    then obtain fs where fs: "procs t = list_modify np (\<lambda>q. q\<lparr>p_ofile := fs\<rparr>) (procs s1)" "cur t = cur s1 \<and> nextpid t = nextpid s1"
      "length fs = length (p_ofile (procs s1 ! np))"
      "\<forall>fd < length fs. fs ! fd = (if Suc i \<le> fd \<and> fd < Suc i + k \<and> p_ofile (procs s1 ! p) ! fd \<noteq> None
          then p_ofile (procs s1 ! p) ! fd else p_ofile (procs s1 ! np) ! fd)"
      using Suc.IH [of "Suc i" s1] Suc.prems by (auto simp: s1_def)
    have s1: "procs s1 ! p = procs s ! p" "p_ofile (procs s1 ! np) = (p_ofile (procs s ! np))[i := Some f]"
      using Suc.prems by (simp_all add: s1_def proc_simps)
    have "procs t = list_modify np (\<lambda>q. q\<lparr>p_ofile := fs\<rparr>) (procs s)"
      using fs(1) Suc.prems(4) by (simp add: s1_def proc_simps list_modify_def)
    moreover have "fs ! fd = (if i \<le> fd \<and> fd < i + Suc k \<and> p_ofile (procs s ! p) ! fd \<noteq> None
        then p_ofile (procs s ! p) ! fd else p_ofile (procs s ! np) ! fd)" if "fd < length fs" for fd
      using fs(3,4) s1 Some that by (cases "fd = i") auto
    moreover have "cur t = cur s \<and> nextpid t = nextpid s" "length fs = length (p_ofile (procs s ! np))"
      using fs(2,3) s1(2) by (simp_all add: s1_def)
    ultimately show ?thesis by (intro exI [of _ fs]) simp
  qed
qed

text \<open>The state of a process that \<open>fork\<close> has just made.\<close>

definition child_of :: "nat \<Rightarrow> (trapframe \<Rightarrow> trapframe) \<Rightarrow> proc \<Rightarrow> proc \<Rightarrow> bool" where
  "child_of p regs parent child \<longleftrightarrow> p_state child = RUNNABLE \<and> p_parent child = Some p \<and>
     p_tf child = regs (p_tf parent) \<and> p_sz child = p_sz parent \<and> p_cwd child = p_cwd parent \<and>
     (\<forall>fd < NOFILE. \<forall>f. p_ofile parent ! fd = Some f \<longrightarrow> p_ofile child ! fd = Some f) \<and>
     p_fork_count child = 0 \<and> p_pending_signals child = 0 \<and> \<not> p_handling_signal child \<and> \<not> p_ipc_ready child"

lemma fork_with_child:
  fixes s :: "'z iostate_scheme"
  assumes "fork_with regs s = Ok pid t" and "pid \<noteq> - 1" and "tables_ok s" and "p_state (myproc s) = RUNNING"
  obtains np where "np < length (procs s)" "p_state (procs s ! np) = UNUSED" "pid = nextpid s"
    "nextpid t = nextpid s + 1" "p_pid (procs t ! np) = pid" "child_of (me s) regs (myproc s) (procs t ! np)"
    "p_fork_count (myproc s) < 10" "p_fork_count (procs t ! me s) = p_fork_count (myproc s) + 1"
    "\<And>i. i < length (procs s) \<Longrightarrow> i \<noteq> np \<Longrightarrow> i \<noteq> me s \<Longrightarrow> woken i (procs s ! i) (procs t ! i)"
    "length (procs t) = length (procs s)" "cur t = cur s"
proof -
  let ?p = "me s"
  from assms(1,2) obtain np s1 r s2 u s4 d where
    cnt: "p_fork_count (procs s ! ?p) < 10" and a: "allocproc s = Ok (Some np) s1" and
    c: "uvmcopy (p_pagetable (procs s1 ! ?p)) (p_pagetable (procs s1 ! np)) (p_sz (procs s1 ! ?p)) s1 = Ok r s2" and
    f: "dup_files NOFILE 0 ?p np (upd_proc np (\<lambda>q. q\<lparr>p_sz := p_sz (procs s2 ! ?p), p_tf := regs (p_tf (procs s2 ! ?p))\<rparr>) s2) = Ok u s4"
    and d: "p_cwd (procs s4 ! ?p) = Some d" and
    t: "t = upd_proc ?p (\<lambda>q. q\<lparr>p_fork_count := p_fork_count q + 1\<rparr>)
              (upd_proc np (\<lambda>q. q\<lparr>p_cwd := Some d,
                 p_name := overwrite (p_name q) (safestrcpy (at_list (p_name (procs (idup d s4) ! ?p))) 16),
                 p_parent := Some ?p, p_state := RUNNABLE\<rparr>) (idup d s4))" and
    pid: "pid = p_pid (procs t ! np)"
    by (auto simp: fork_with_def Let_def res_simps split: if_splits option.splits)
  let ?N = "procs_rel (newborn np) (claimed np s)"
  have me: "?p < length (procs s)" using assms(3) by (auto simp: tables_ok_def)
  from allocproc_spec [of s] a have np: "find_idx (\<lambda>p. p_state p = UNUSED) (procs s) = Some np" and n1: "?N s1" by auto
  from find_idx_SomeD [OF np] have np': "np < length (procs s)" "p_state (procs s ! np) = UNUSED" by auto
  with assms(4) have ne: "?p \<noteq> np" by (auto simp: myproc_def)
  have n2: "?N s2" using yields_OkD [OF nb.rel.uvmcopy_keeps [OF n1] c] .
  define s3 where "s3 = upd_proc np (\<lambda>q. q\<lparr>p_sz := p_sz (procs s2 ! ?p), p_tf := regs (p_tf (procs s2 ! ?p))\<rparr>) s2"
  have n3: "?N s3" unfolding s3_def by (intro nb.procs_rel_upd_proc newborn_steps n2)
  have len: "length (procs s2) = length (procs s)" "length (procs s3) = length (procs s)"
    using n2 n3 by (simp_all add: procs_rel_def)
  have oth: "woken i (procs s ! i) (procs s3 ! i)" if "i < length (procs s)" "i \<noteq> np" for i
    using n3 that by (auto simp: procs_rel_def newborn_def proc_simps)
  have par: "procs s2 ! ?p = myproc s" "procs s3 ! ?p = myproc s"
    using n2 n3 ne me assms(4) by (auto simp: procs_rel_def newborn_def proc_simps woken_def myproc_def)
  have kid: "newborn np np (fresh_proc (nextpid s) (procs s ! np)) (procs s3 ! np)"
    using n3 np'(1) by (auto simp: procs_rel_def proc_simps)
  have kid3: "p_sz (procs s3 ! np) = p_sz (myproc s)" "p_tf (procs s3 ! np) = regs (p_tf (myproc s))"
    using len np'(1) par by (simp_all add: s3_def proc_simps)
  from dup_files_spec [OF f [folded s3_def] ne, unfolded par] obtain fs where
    s4: "procs s4 = list_modify np (\<lambda>q. q\<lparr>p_ofile := fs\<rparr>) (procs s3)" "cur s4 = cur s3" "nextpid s4 = nextpid s3"
    and l: "length fs = length (p_ofile (procs s3 ! np))"
    and fs: "\<forall>fd < length fs. fs ! fd = (if fd < NOFILE \<and> p_ofile (myproc s) ! fd \<noteq> None
              then p_ofile (myproc s) ! fd else p_ofile (procs s3 ! np) ! fd)"
    using len np'(1) me by auto
  have tp: "procs t ! ?p = (myproc s)\<lparr>p_fork_count := p_fork_count (myproc s) + 1\<rparr>"
    using me ne len by (simp add: t proc_simps idup_def s4 par)
  have "procs s4 ! ?p = myproc s" using me ne len by (simp add: s4 par)
  moreover obtain nm where tk: "procs t ! np = (procs s3 ! np)\<lparr>p_ofile := fs, p_cwd := Some d, p_name := nm,
      p_parent := Some ?p, p_state := RUNNABLE\<rparr>"
    using np'(1) ne len by (auto simp: t proc_simps idup_def s4)
  moreover have "length fs = NOFILE"
    using assms(3) np'(1) l by (simp add: newborn_fields [OF kid] fresh_proc_def tables_ok_def proc_ok_def)
  ultimately have kidt: "child_of ?p regs (myproc s) (procs t ! np)" using d fs kid3 newborn_fields [OF kid]
    by (auto simp: child_of_def fresh_proc_def)
  have otht: "procs t ! i = procs s3 ! i" if "i < length (procs s)" "i \<noteq> np" "i \<noteq> ?p" for i
    using that len by (simp add: t proc_simps idup_def s4)
  have pidt: "p_pid (procs t ! np) = nextpid s" using newborn_fields(1) [OF kid] by (simp add: tk fresh_proc_def)
  have "nextpid t = nextpid s + 1" "cur t = cur s" "length (procs t) = length (procs s)"
    using n3 len by (simp_all add: t idup_def s4 procs_rel_def upd_inode_def)
  with np' pid pidt kidt cnt tp oth otht show thesis by (intro that [of np]) (simp_all add: myproc_def)
qed

section \<open>The process calls keep the tables\<close>

lemma pids_ok_free:
  assumes "pids_ok s" and "\<And>p. p_state (f p) = UNUSED"
  shows "pids_ok (upd_proc i f s)"
  using assms unfolding pids_ok_def by (auto simp: proc_simps split: if_splits)

lemma pids_ok_new:
  assumes "pids_ok s" and "p_state (procs s ! i) = UNUSED" and "nextpid t = nextpid s + 1"
    and "length (procs t) = length (procs s)" and "p_pid (procs t ! i) = nextpid s"
    and "\<And>j. j < length (procs s) \<Longrightarrow> j \<noteq> i \<Longrightarrow> procs t ! j = procs s ! j"
  shows "pids_ok t"
proof -
  have used: "j = i \<or> in_use s j \<and> p_pid (procs t ! j) = p_pid (procs s ! j)" if "in_use t j" for j
    using that assms(4,6) by metis
  have old: "0 < p_pid (procs s ! j) \<and> p_pid (procs s ! j) < nextpid s" if "in_use s j" for j
    using assms(1) that unfolding pids_ok_def by blast
  have uniq: "j = k" if "in_use s j" "in_use s k" "p_pid (procs s ! j) = p_pid (procs s ! k)" for j k
    using assms(1) that unfolding pids_ok_def by blast
  have pos: "0 < nextpid s" using assms(1) by (simp add: pids_ok_def)
  have "0 < p_pid (procs t ! j) \<and> p_pid (procs t ! j) < nextpid s + 1" if "in_use t j" for j
    using used [OF that] old [of j] pos assms(5) by fastforce
  moreover have "j = k" if "in_use t j" "in_use t k" "p_pid (procs t ! j) = p_pid (procs t ! k)" for j k
    using used [OF that(1)] used [OF that(2)] old [of j] old [of k] uniq [of j k] that(3) assms(5) by fastforce
  ultimately show ?thesis using pos unfolding pids_ok_def assms(3) by (metis add_pos_pos zero_less_one)
qed

lemma pids_ok_claim:
  assumes "pids_ok s" and "p_state (procs s ! i) = UNUSED" and "i < length (procs s)"
  shows "pids_ok (claimed i s)"
  by (rule pids_ok_new [OF assms(1,2)]) (use assms(3) in \<open>simp_all add: proc_simps fresh_proc_def\<close>)

lemma running_free:
  assumes "running m s" and "i \<noteq> m" and "\<And>p. p_state (f p) = UNUSED" and "\<And>p. proc_ok p \<Longrightarrow> proc_ok (f p)"
  shows "running m (upd_proc i f s)"
  using assms pids_ok_free [of s f i] tables_ok_upd_proc [of s f i] running_len [OF assms(1)]
  by (simp add: running_def kernel_ok_def proc_simps)

lemma freeproc_keeps [frame]:
  assumes "running m s" and "i \<noteq> m"
  shows "yields (\<lambda>_. running m) kernel_ok (freeproc i s)"
  unfolding freeproc_def Let_def
  by (rule run.andthen_keeps frame assms running_free | assumption | simp add: proc_ok_def assms)+

lemma running_claim:
  assumes "running m s" and "p_state (procs s ! i) = UNUSED" and "i < NPROC"
  shows "running m (claimed i s)"
proof -
  have "i \<noteq> m" using assms by (auto simp: running_def)
  moreover have "tables_ok (claimed i s)"
    by (rule tables_ok_upd_proc)
      (use assms(1) in \<open>auto simp: running_def kernel_ok_def tables_ok_def proc_ok_def fresh_proc_def\<close>)
  ultimately show ?thesis
    using assms pids_ok_claim [of s i] running_len [OF assms(1)] by (simp add: running_def kernel_ok_def proc_simps)
qed

text \<open>Process \<open>m\<close> is setting up entry \<open>np\<close>.\<close>

definition forking :: "nat \<Rightarrow> nat \<Rightarrow> 'z iostate_scheme \<Rightarrow> bool" where
  "forking m np s \<longleftrightarrow> running m s \<and> np < NPROC \<and> p_state (procs s ! np) = USED"

lemma forking_ne: "forking m np s \<Longrightarrow> np \<noteq> m \<and> running m s"
  by (auto simp: forking_def running_def)

lemma forking_wakeup: "forking m np s \<Longrightarrow> forking m np (wakeup c s)"
  using running_len [of m s] by (auto simp: forking_def proc_simps wake_one_def intro: run.wakes)

interpretation frk: kernel_inv "forking m np" kernel_ok "\<lambda>i. i < NINODE" "\<lambda>i. i < NFILE" for m np
proof unfold_locales
  fix s :: "'a iostate_scheme" and i
  assume "forking m np s" and "p_cwd (myproc s) = Some i"
  then show "i < NINODE" using run.cwd_inode [of m s i] by (simp add: forking_def)
next
  fix s :: "'a iostate_scheme" and f :: "inode \<Rightarrow> inode" and i
  assume "forking m np s" and "\<And>ip. length (i_addrs (f ip)) = length (i_addrs ip) \<or> length (i_addrs (f ip)) = Suc NDIRECT"
  with run.set_inode [of f m s i] show "forking m np (upd_inode i f s)" by (simp add: forking_def)
next
  fix s :: "'a iostate_scheme" and f :: "pipe \<Rightarrow> pipe" and a
  assume "forking m np s" and "\<And>p. length (pi_data (f p)) = length (pi_data p)"
  with run.set_pipe [of f m s a] show "forking m np (upd_pipe a f s)" by (simp add: forking_def upd_pipe_def)
next
  fix s :: "'a iostate_scheme" and f :: "kfile \<Rightarrow> kfile" and i
  assume "forking m np s" and "\<And>x. f_ip (f x) = f_ip x \<or> f_ip (f x) < NINODE"
  with run.set_file [of f m s i] show "forking m np (upd_file i f s)" by (simp add: forking_def)
next
  show "forking m np s \<Longrightarrow> forking m np (wakeup c s)" for s :: "'a iostate_scheme" and c by (rule forking_wakeup)
qed (auto simp: forking_def intro: run.updates run.sleeps run.inodes run.files)

lemma forking_upd_proc:
  assumes "forking m np s" and "\<And>p. proc_ok p \<Longrightarrow> proc_ok (f p)" and "\<And>p. p_pid (f p) = p_pid p"
    and "\<And>p. p_state (f p) = p_state p"
  shows "forking m np (upd_proc i f s)"
  using assms running_upd_proc [of m s f i] running_len [of m s] by (simp add: forking_def proc_simps)

lemma forking_claim:
  assumes "running m s" and "p_state (procs s ! i) = UNUSED" and "i < NPROC"
  shows "forking m i (claimed i s)"
  using running_claim [OF assms] running_len [OF assms(1)] assms(3)
  by (simp add: forking_def proc_simps fresh_proc_def)

lemma allocproc_fail:
  assumes "forking m np s"
  shows "yields (\<lambda>r t. case r of None \<Rightarrow> running m t | Some i \<Rightarrow> forking m i t) kernel_ok
           (andthen (freeproc np s) (\<lambda>_ s. Ok None s))"
  using forking_ne [OF assms] by (intro yields_andthen [OF freeproc_keeps]) auto

lemma allocproc_keeps [frame]:
  assumes "running m s"
  shows "yields (\<lambda>r t. case r of None \<Rightarrow> running m t | Some i \<Rightarrow> forking m i t) kernel_ok (allocproc s)"
proof (cases "find_idx (\<lambda>p. p_state p = UNUSED) (procs s)")
  case (Some i)
  note i = find_idx_SomeD(1,2) [OF Some]
  have ne: "i \<noteq> m" "i < NPROC" using assms i by (auto simp: running_def kernel_ok_def tables_ok_def)
  show ?thesis
    unfolding allocproc_def Some option.case allocpid_def andthen.simps Let_def
    by (rule frk.andthen_keeps [where m = m and np = i] allocproc_fail frame forking_claim forking_upd_proc assms i ne
        | assumption | simp add: proc_ok_def)+
qed (simp add: allocproc_def assms)

lemma running_cur: "running m s \<Longrightarrow> me s = m" "running m s \<Longrightarrow> cur s = Some m"
  by (simp_all add: running_def)

lemma running_ofile:
  assumes "running m s" and "pred_option (\<lambda>f. f < NFILE) f"
  shows "running m (upd_proc i (\<lambda>p. p\<lparr>p_ofile := (p_ofile p)[fd := f]\<rparr>) s)"
  by (rule running_upd_proc [OF assms(1)])
    (use assms(2) in \<open>auto simp: proc_ok_def dest!: set_update_subset_insert [THEN subsetD]\<close>)

lemma running_ofile_file:
  assumes "running m s" and "i < NPROC" and "p_ofile (procs s ! i) ! fd = Some f" and "fd < NOFILE"
  shows "f < NFILE"
proof -
  from running_proc [OF assms(1,2)] assms(3,4) have "Some f \<in> set (p_ofile (procs s ! i))"
    by (metis nth_mem proc_ok_def)
  with running_proc [OF assms(1,2)] show ?thesis by (auto simp: proc_ok_def)
qed

lemma growproc_keeps [frame]: "running m s \<Longrightarrow> yields (\<lambda>_. running m) kernel_ok (growproc n s)"
  unfolding growproc_def Let_def by (rule frame running_upd_proc | assumption | simp add: proc_ok_def)+

lemma forking_ofile:
  assumes "forking m np s" and "pred_option (\<lambda>f. f < NFILE) f"
  shows "forking m np (upd_proc i (\<lambda>p. p\<lparr>p_ofile := (p_ofile p)[fd := f]\<rparr>) s)"
  by (rule forking_upd_proc [OF assms(1)])
    (use assms(2) in \<open>auto simp: proc_ok_def dest!: set_update_subset_insert [THEN subsetD]\<close>)

lemma dup_files_keeps [frame]:
  assumes "forking m np s" and "p < NPROC" and "i + k \<le> NOFILE"
  shows "yields (\<lambda>_. forking m np) kernel_ok (dup_files k i p np s)"
  using assms(1,3)
proof (induction k arbitrary: i s)
  case (Suc k)
  have "f < NFILE" if "p_ofile (procs s ! p) ! i = Some f" for f
    using running_ofile_file [OF _ assms(2) that, of m] Suc.prems by (simp add: forking_def)
  then show ?case using Suc.prems
    unfolding dup_files.simps filedup_def
    by (intro frk.andthen_keeps Suc.IH)
      (auto intro!: frame forking_ofile frk.set_file split: option.split)
qed simp

lemma forking_child:
  assumes "forking m np s" and "j < NINODE" and "length cs \<le> 16"
  shows "running m (upd_proc np (\<lambda>q. q\<lparr>p_cwd := Some j, p_name := overwrite (p_name q) cs,
           p_parent := Some m, p_state := RUNNABLE\<rparr>) s)" (is "running m ?t")
proof -
  from assms(1) have r: "running m s" "np < NPROC" "np \<noteq> m" "p_state (procs s ! np) = USED"
    using forking_ne [OF assms(1)] by (auto simp: forking_def)
  have m: "m < NPROC" using r(1) by (simp add: running_def)
  have "tables_ok ?t"
    using m assms(2,3) by (intro tables_ok_upd_proc running_tables [OF r(1)]) (simp add: proc_ok_def overwrite_def)
  moreover have "pids_ok s" using r(1) by (simp add: running_def kernel_ok_def)
  then have "pids_ok ?t" by (rule pids_ok_cong) (use r(4) in \<open>auto simp: proc_simps\<close>)
  ultimately show ?thesis using r running_len [OF r(1)] by (simp add: running_def kernel_ok_def proc_simps)
qed

lemma safestrcpy_at_length: "length (safestrcpy_at t i n) \<le> Suc n"
  by (induction n arbitrary: i) auto

lemma safestrcpy_length: "length (safestrcpy t n) \<le> nat n"
  using safestrcpy_at_length [of t 0 "nat (n - 1)"] by (simp add: safestrcpy_def) linarith

lemma fork_with_keeps [frame]:
  assumes "running m s"
  shows "yields (\<lambda>_. running m) kernel_ok (fork_with regs s)"
proof -
  have fin: "yields (\<lambda>_. running m) kernel_ok
      (let s = idup d t;
           s = upd_proc np (\<lambda>q. q\<lparr>p_cwd := Some d,
                 p_name := overwrite (p_name q) (safestrcpy (at_list (p_name (procs s ! m))) 16),
                 p_parent := Some m, p_state := RUNNABLE\<rparr>) s;
           s = upd_proc m (\<lambda>q. q\<lparr>p_fork_count := p_fork_count q + 1\<rparr>) s
       in Ok (p_pid (procs s ! np)) s)"
    if t: "forking m np t" and d: "p_cwd (procs t ! m) = Some d" for np t d
  proof -
    have "d < NINODE" using frk.cwd_inode [OF t] d running_cur [of m t] forking_ne [OF t] by (simp add: myproc_def)
    then show ?thesis unfolding Let_def
      by (intro yields_Ok running_upd_proc forking_child frk.idup_keeps t)
        (use safestrcpy_length [of _ 16] in \<open>auto simp: proc_ok_def\<close>)
  qed
  have fail: "yields (\<lambda>_. running m) kernel_ok (andthen (freeproc np t) (\<lambda>_ s. Ok (- 1) s))" if "forking m np t" for np t
    using forking_ne [OF that] by (intro yields_andthen [OF freeproc_keeps]) auto
  have m: "m < NPROC" using assms by (simp add: running_def)
  have rest: "yields (\<lambda>_. running m) kernel_ok
      (andthen (uvmcopy a b sz t) (\<lambda>r s.
         if r < 0 then andthen (freeproc np s) (\<lambda>_ s. Ok (- 1) s)
         else let s = upd_proc np (\<lambda>q. q\<lparr>p_sz := p_sz (procs s ! m), p_tf := regs (p_tf (procs s ! m))\<rparr>) s in
           andthen (dup_files NOFILE 0 m np s) (\<lambda>_ s.
           case p_cwd (procs s ! m) of None \<Rightarrow> Fault ''fork: null cwd'' | Some d \<Rightarrow> f s d)))"
    if "forking m np t" "\<And>t d. forking m np t \<Longrightarrow> p_cwd (procs t ! m) = Some d \<Longrightarrow> yields (\<lambda>_. running m) kernel_ok (f t d)"
    for np t a b sz f
    unfolding Let_def
    by (rule frk.andthen_keeps [where m = m and np = np] that fail frame forking_upd_proc m | assumption | simp add: proc_ok_def)+
  show ?thesis
    unfolding fork_with_def running_cur(1) [OF assms] Let_def [of m]
    by (rule yields_if yields_Ok assms yields_andthen [OF allocproc_keeps [OF assms]] yields_option rest fin | assumption | simp)+
qed

lemma kfork_keeps [frame]: "running m s \<Longrightarrow> yields (\<lambda>_. running m) kernel_ok (kfork s)"
  and thread_fork_keeps [frame]: "running m s \<Longrightarrow> yields (\<lambda>_. running m) kernel_ok (thread_fork func arg s)"
  unfolding kfork_def thread_fork_def by (rule frame, assumption)+

lemma close_files_keeps [frame]: "running m s \<Longrightarrow> yields (\<lambda>_. running m) kernel_ok (close_files k fd p s)"
proof (induction k arbitrary: fd s)
  case (Suc k)
  show ?case unfolding close_files.simps
    by (rule run.andthen_keeps [where m = m] frame running_ofile Suc | assumption | simp)+
qed simp

lemma reparent_loop_keeps: "running m s \<Longrightarrow> running m (reparent_loop k j p s)"
proof (induction k j p s rule: reparent_loop.induct)
  case (2 k j p s)
  have "running m (upd_proc j (\<lambda>q. q\<lparr>p_parent := initproc s\<rparr>) s)"
    by (rule running_upd_proc [OF 2(2)]) (use 2(2) in \<open>auto simp: proc_ok_def running_def kernel_ok_def tables_ok_def\<close>)
  then have "running m (if p_parent (procs s ! j) = Some p
      then wakeup (ChProc (the (initproc s))) (upd_proc j (\<lambda>q. q\<lparr>p_parent := initproc s\<rparr>) s) else s)"
    using 2(2) by (simp add: run.wakes)
  from 2(1) [OF this] show ?case by simp
qed simp

lemma become_zombie_keeps:
  assumes "running m s"
  shows "kernel_ok (become_zombie m status s)"
proof -
  define t where "t = (case p_parent (procs (reparent m s) ! m) of None \<Rightarrow> reparent m s | Some q \<Rightarrow> wakeup (ChProc q) (reparent m s))"
  have r: "running m t"
    unfolding t_def reparent_def by (auto intro: reparent_loop_keeps run.wakes assms split: option.split)
  then have "pids_ok t" "tables_ok t" by (simp_all add: running_def kernel_ok_def)
  moreover have "pids_ok (upd_proc m (\<lambda>q. q\<lparr>p_xstate := status, p_state := ZOMBIE\<rparr>) t)"
    by (rule pids_ok_cong [OF \<open>pids_ok t\<close>]) (use r in \<open>auto simp: proc_simps running_def\<close>)
  moreover have "tables_ok (upd_proc m (\<lambda>q. q\<lparr>p_xstate := status, p_state := ZOMBIE\<rparr>) t)"
    by (rule tables_ok_upd_proc [OF \<open>tables_ok t\<close>]) (simp add: proc_ok_def)
  ultimately show ?thesis by (simp add: become_zombie_def Let_def kernel_ok_def flip: t_def)
qed

lemma kexit_keeps [frame]:
  assumes "running m s"
  shows "yields (\<lambda>_. running m) kernel_ok (kexit status s)"
proof -
  define s1 where "s1 = (case p_parent (procs s ! m) of None \<Rightarrow> s
       | Some q \<Rightarrow> upd_proc q (\<lambda>r. r\<lparr>p_fork_count := p_fork_count r - 1\<rparr>) s)"
  have r: "running m s1"
    unfolding s1_def using assms by (auto intro!: running_upd_proc simp: proc_ok_def split: option.split)
  have fin: "yields (\<lambda>_. running m) kernel_ok
      (Resched (become_zombie m status (upd_proc m (\<lambda>q. q\<lparr>p_cwd := None\<rparr>) t)))" if "running m t" for t
    by (auto intro!: become_zombie_keeps running_upd_proc that simp: proc_ok_def)
  show ?thesis
    unfolding kexit_def running_cur(1) [OF assms] Let_def s1_def [symmetric]
    by (rule run.andthen_keeps [where m = m] fin frame r | assumption | simp)+
qed

lemma reap_keeps [frame]:
  assumes "running m s" and "p_state (procs s ! i) = ZOMBIE"
  shows "yields (\<lambda>_. running m) kernel_ok (reap i addr s)"
proof -
  have ne: "i \<noteq> m" using assms by (auto simp: running_def)
  show ?thesis
    unfolding reap_def Let_def by (rule run.andthen_keeps [where m = m] frame assms(1) ne | assumption)+
qed

lemma kwait_keeps [frame]:
  assumes "running m s"
  shows "yields (\<lambda>_. running m) kernel_ok (kwait addr s)"
  unfolding kwait_def
  by (rule frame assms | assumption | (drule find_idx_SomeD(2), simp) | simp add: assms)+

lemma kwaitpid_keeps [frame]: "running m s \<Longrightarrow> yields (\<lambda>_. running m) kernel_ok (kwaitpid pid addr s)"
  unfolding kwaitpid_def by (rule frame | assumption)+

lemma kgetchildren_keeps [frame]: "running m s \<Longrightarrow> yields (\<lambda>_. running m) kernel_ok (kgetchildren addr maxn s)"
  unfolding kgetchildren_def Let_def by (rule run.andthen_keeps [where m = m] frame | assumption)+

lemma kkill_keeps:
  assumes "running m s" and "kkill pid s = (r, t)"
  shows "running m t"
proof -
  let ?f = "\<lambda>p. p\<lparr>p_killed := True, p_state := (if p_state p = SLEEPING then RUNNABLE else p_state p)\<rparr>"
  have "running m (upd_proc i ?f s)" for i
  proof -
    have "pids_ok s" "tables_ok s" using assms(1) by (simp_all add: running_def kernel_ok_def)
    then have "pids_ok (upd_proc i ?f s)" "tables_ok (upd_proc i ?f s)"
      by (auto intro!: pids_ok_cong [of s] tables_ok_upd_proc simp: proc_simps proc_ok_def split: if_splits)
    then show ?thesis using assms(1) running_len [OF assms(1)] by (simp add: running_def kernel_ok_def proc_simps)
  qed
  with assms show ?thesis by (auto simp: kkill_def split: option.splits)
qed

lemma ksigsend_keeps: "running m s \<Longrightarrow> ksigsend pid sig s = (r, t) \<Longrightarrow> running m t"
  by (auto simp: ksigsend_def proc_ok_def intro!: running_upd_proc split: option.splits)

lemma copyin_loop_length:
  "copyin_loop pagetable dst srcva len s = Ok (r, bs) t \<Longrightarrow> length bs \<le> length dst + unat len"
proof (induction pagetable dst srcva len s rule: copyin_loop.induct)
  case (1 pagetable dst srcva len s)
  show ?case
  proof (cases "len > 0")
    case True
    let ?n = "page_part srcva len"
    have n: "unat ?n + unat (len - ?n) = unat len"
      using page_part_le [of srcva len] by (simp add: unat_sub word_le_nat_alt)
    from 1(2) True consider "bs = dst" | a sa pa sb where
      "walkaddr pagetable (PGROUNDDOWN srcva) s = Ok a sa" "(if a = 0 then vmfault pagetable (PGROUNDDOWN srcva) sa else Ok a sa) = Ok pa sb"
      "pa \<noteq> 0" "copyin_loop pagetable (dst @ mem_read (mem sb) (pa + (srcva - PGROUNDDOWN srcva)) (unat ?n))
                    (PGROUNDDOWN srcva + PGSIZE) (len - ?n) sb = Ok (r, bs) t"
      by (subst (asm) copyin_loop.simps) (auto simp: Let_def res_simps split: if_splits)
    then show ?thesis
    proof cases
      case 2
      from 1(1) [OF True refl 2(1,2) 2(3) refl 2(4)] n show ?thesis by simp
    qed simp
  qed (use 1 in \<open>simp add: copyin_loop.simps\<close>)
qed

lemma message_length:
  assumes "copyin pt src (word_of_int (min n 64)) s = Ok (r, msg) t" and "0 < n"
  shows "length msg \<le> IPC_MAX_MSG"
proof -
  define k where "k = nat (min n 64)"
  have k: "min n 64 = int k" "k \<le> IPC_MAX_MSG" using assms(2) by (auto simp: k_def)
  then have "unat (of_nat k :: u64) \<le> IPC_MAX_MSG" by (simp add: unat_of_nat take_bit_eq_mod)
  then show ?thesis using copyin_loop_length [OF assms(1) [unfolded copyin_def]] k by simp
qed

lemma kipc_send_keeps [frame]:
  assumes "running m s"
  shows "yields (\<lambda>_. running m) kernel_ok (kipc_send pid src n s)"
proof -
  have put: "running m (upd_proc t (\<lambda>p. p\<lparr>p_ipc_msg := overwrite (p_ipc_msg p) msg, p_ipc_len := k, p_ipc_ready := True\<rparr>) u)"
    if "length msg \<le> IPC_MAX_MSG" "running m u" for t msg k u
    using that by (intro running_upd_proc) (auto simp: proc_ok_def overwrite_def)
  show ?thesis
    unfolding kipc_send_def Let_def
    by (auto intro!: frame put assms run.wakes dest: message_length split: option.split)
qed

lemma kipc_recv_keeps [frame]: "running m s \<Longrightarrow> yields (\<lambda>_. running m) kernel_ok (kipc_recv dst n s)"
  unfolding kipc_recv_def Let_def
  by (rule run.andthen_keeps [where m = m] frame running_upd_proc | assumption | simp add: proc_ok_def)+

end
