(* ===== verification/Sysinv.thy ===== *)
theory Sysinv
  imports Trap Procinv
begin

text \<open>
  Every system call keeps the tables of the kernel. The routines of \<open>exec\<close> and the file system
  calls that leave the process table alone are shown inside the interface \<open>kernel_inv\<close>; the calls that change
  the entry of the calling process, or make and collect processes, for the invariant \<open>running\<close>.
\<close>

section \<open>Calls that leave the process table alone\<close>

context kernel_inv
begin

lemma loadseg_loop_keeps [frame]: "P s \<Longrightarrow> yields (\<lambda>_. P) W (loadseg_loop pagetable va ip offset sz i s)"
proof (induction pagetable va ip offset sz i s rule: loadseg_loop.induct)
  case (1 pagetable va ip offset sz i s)
  show ?case unfolding loadseg_loop.simps [of pagetable va ip offset sz i s] Let_def
    by (rule frame updates 1 refl | assumption | simp)+
qed

lemma loadseg_keeps [frame]: "P s \<Longrightarrow> yields (\<lambda>_. P) W (loadseg pagetable va ip offset sz s)"
  unfolding loadseg_def Let_def by (rule frame ino_updates | assumption | simp)+

lemma load_segments_keeps [frame]: "P s \<Longrightarrow> yields (\<lambda>_. P) W (load_segments k off pagetable sz ip s)"
proof (induction k arbitrary: off sz s)
  case (Suc k)
  show ?case unfolding load_segments.simps Let_def by (rule frame updates Suc | assumption | simp)+
qed simp

lemma exec_bad_keeps [frame]: "P s \<Longrightarrow> yields (\<lambda>_. P) W (exec_bad pagetable sz ip s)"
  unfolding exec_bad_def Let_def by (rule andthen_keeps frame ino_updates | assumption | simp)+

lemma push_args_keeps [frame]: "P s \<Longrightarrow> yields (\<lambda>_. P) W (push_args argv pagetable sp stackbase ustack s)"
proof (induction argv arbitrary: sp ustack s)
  case (Cons a argv)
  show ?case unfolding push_args.simps Let_def by (rule frame updates Cons | assumption | simp)+
qed simp

lemma argraw_keeps [frame]: "P s \<Longrightarrow> yields (\<lambda>_. P) W (argraw n s)"
  unfolding argraw_def Let_def by (rule frame ino_updates | assumption | simp)+

lemma argint_keeps [frame]: "P s \<Longrightarrow> yields (\<lambda>_. P) W (argint n s)"
  unfolding argint_def Let_def by (rule frame ino_updates | assumption | simp)+

lemma argaddr_keeps [frame]: "P s \<Longrightarrow> yields (\<lambda>_. P) W (argaddr n s)"
  unfolding argaddr_def Let_def by (rule frame ino_updates | assumption | simp)+

lemma fetchaddr_keeps [frame]: "P s \<Longrightarrow> yields (\<lambda>_. P) W (fetchaddr addr s)"
  unfolding fetchaddr_def Let_def by (rule frame ino_updates | assumption | simp)+

lemma fetchstr_keeps [frame]: "P s \<Longrightarrow> yields (\<lambda>_. P) W (fetchstr addr mx s)"
  unfolding fetchstr_def Let_def by (rule frame ino_updates | assumption | simp)+

lemma argstr_keeps [frame]: "P s \<Longrightarrow> yields (\<lambda>_. P) W (argstr n mx s)"
  unfolding argstr_def Let_def by (rule frame ino_updates | assumption | simp)+

lemma returning_keeps [frame]: "yields (\<lambda>_. P) W r \<Longrightarrow> yields (\<lambda>_. P) W (returning r)"
  unfolding returning_def by (rule andthen_keeps) simp_all

lemma link_bad_keeps [frame]: "P s \<Longrightarrow> yields (\<lambda>_. P) W (link_bad ip s)"
  unfolding link_bad_def Let_def by (rule frame ino_updates | assumption | simp)+

lemma sys_link_keeps [frame]: "P s \<Longrightarrow> yields (\<lambda>_. P) W (sys_link s)"
  unfolding sys_link_def Let_def by (rule andthen_keeps frame ino_updates | assumption | simp)+

lemma isdirempty_loop_keeps [frame]: "P s \<Longrightarrow> yields (\<lambda>_. P) W (isdirempty_loop sz dp off s)"
proof (induction sz dp off s rule: isdirempty_loop.induct)
  case (1 sz dp off s)
  show ?case unfolding isdirempty_loop.simps [of sz dp off s] by (rule frame updates 1 refl | assumption | simp)+
qed

lemma isdirempty_keeps [frame]: "P s \<Longrightarrow> yields (\<lambda>_. P) W (isdirempty dp s)"
  unfolding isdirempty_def Let_def by (rule frame ino_updates | assumption | simp)+

lemma unlink_bad_keeps [frame]: "P s \<Longrightarrow> yields (\<lambda>_. P) W (unlink_bad dp s)"
  unfolding unlink_bad_def Let_def by (rule frame ino_updates | assumption | simp)+

lemma unlink_entry_keeps [frame]: "P s \<Longrightarrow> yields (\<lambda>_. P) W (unlink_entry dp ip off s)"
  unfolding unlink_entry_def Let_def by (rule andthen_keeps frame ino_updates | assumption | simp)+

lemma sys_unlink_keeps [frame]: "P s \<Longrightarrow> yields (\<lambda>_. P) W (sys_unlink s)"
  unfolding sys_unlink_def Let_def by (rule andthen_keeps frame ino_updates | assumption | simp)+

lemma create_fail_keeps [frame]: "P s \<Longrightarrow> yields (\<lambda>r t. pred_option ino_ok r \<and> P t) W (create_fail ip dp s)"
  unfolding create_fail_def Let_def by (rule andthen_keeps frame ino_updates | assumption | simp)+

lemma create_new_keeps [frame]: "P s \<Longrightarrow> yields (\<lambda>r t. pred_option ino_ok r \<and> P t) W (create_new dp name type major minor s)"
  unfolding create_new_def Let_def by (rule yields_andthen [OF ialloc_keeps] andthen_keeps frame ino_updates | assumption | simp)+

lemma create_keeps [frame]: "P s \<Longrightarrow> yields (\<lambda>r t. pred_option ino_ok r \<and> P t) W (create path type major minor s)"
  unfolding create_def Let_def by (rule frame ino_updates | assumption | simp)+

lemma create_keeps_state [frame]: "P s \<Longrightarrow> yields (\<lambda>_. P) W (create path type major minor s)"
  by (rule drop_result) (rule frame)

lemma open_inode_keeps [frame]: "P s \<Longrightarrow> yields (\<lambda>r t. pred_option ino_ok r \<and> P t) W (open_inode path omode s)"
  unfolding open_inode_def Let_def by (rule frame ino_updates | assumption | simp)+

lemma sys_mkdir_keeps [frame]: "P s \<Longrightarrow> yields (\<lambda>_. P) W (sys_mkdir s)"
  unfolding sys_mkdir_def Let_def by (rule andthen_keeps frame ino_updates | assumption | simp)+

lemma sys_mknod_keeps [frame]: "P s \<Longrightarrow> yields (\<lambda>_. P) W (sys_mknod s)"
  unfolding sys_mknod_def Let_def by (rule andthen_keeps frame ino_updates | assumption | simp)+

lemma kfree_pages_keeps [frame]: "P s \<Longrightarrow> yields (\<lambda>_. P) W (kfree_pages ps s)"
proof (induction ps arbitrary: s)
  case (Cons p ps)
  show ?case by (cases p) (simp, (rule frame Cons | assumption)+)
qed simp

lemma exec_args_keeps [frame]: "P s \<Longrightarrow> yields (\<lambda>_. P) W (exec_args k i uargv argv s)"
proof (induction k arbitrary: i argv s)
  case (Suc k)
  show ?case unfolding exec_args.simps by (rule frame updates Suc | assumption | simp)+
qed simp

lemma close_two_keeps [frame]: "P s \<Longrightarrow> yields (\<lambda>_. P) W (close_two rfile wfile s)"
  unfolding close_two_def Let_def by (rule frame ino_updates | assumption | simp)+

end

section \<open>Calls on the calling process and its files\<close>

lemma exec_stack_keeps [frame]:
  assumes "running m s"
  shows "yields (\<lambda>_. running m) kernel_ok (exec_stack path argv entry pagetable sz s)"
proof -
  have commit: "running m (upd_proc i (\<lambda>p. p\<lparr>p_tf := f (p_tf p), p_name := overwrite (p_name p) (safestrcpy v 16),
      p_pagetable := pt, p_sz := z\<rparr>) t)" if "running m t" for i f v pt z t
    using safestrcpy_length [of v 16] by (intro running_upd_proc [OF that]) (auto simp: proc_ok_def overwrite_def)
  show ?thesis
    unfolding exec_stack_def Let_def
    by (rule run.andthen_keeps [where m = m] frame commit assms | assumption)+
qed

lemma kexec_keeps [frame]: "running m s \<Longrightarrow> yields (\<lambda>_. running m) kernel_ok (kexec path argv s)"
  unfolding kexec_def Let_def by (rule run.andthen_keeps [where m = m] frame run.ino_updates | assumption | simp)+

lemma argfd_keeps [frame]:
  assumes "running m s"
  shows "yields (\<lambda>r t. pred_option (\<lambda>(fd, f). 0 \<le> fd \<and> fd < int NOFILE \<and> f < NFILE) r \<and> running m t) kernel_ok (argfd n s)"
proof -
  have "f < NFILE" if "running m t" "p_ofile (myproc t) ! nat fd = Some f" "0 \<le> fd" "fd < int NOFILE" for t fd f
    using running_ofile_file [OF that(1) _ _ , of "me t" "nat fd" f] that
    by (auto simp: myproc_def running_def)
  then show ?thesis
    unfolding argfd_def
    by (intro yields_andthen [OF run.argint_keeps [OF assms]]) (auto simp: not_less not_le split: option.split)
qed

lemma argfd_keeps_state [frame]: "running m s \<Longrightarrow> yields (\<lambda>_. running m) kernel_ok (argfd n s)"
  by (rule run.drop_result) (rule frame)

lemma fdalloc_keeps: "fdalloc f s = (fd, t) \<Longrightarrow> running m s \<Longrightarrow> f < NFILE \<Longrightarrow> running m t"
  by (auto simp: fdalloc_def intro: running_ofile split: option.splits)

lemma clear_fd_keeps: "running m s \<Longrightarrow> running m (clear_fd fd s)"
  by (simp add: clear_fd_def running_ofile)

lemma filedup_keeps_state: "running m s \<Longrightarrow> yields (\<lambda>_. running m) kernel_ok (filedup i s)"
  by (rule frame)

lemma sys_dup_keeps [frame]: "running m s \<Longrightarrow> yields (\<lambda>_. running m) kernel_ok (sys_dup s)"
  unfolding sys_dup_def
  by (rule yields_andthen, erule argfd_keeps)
    (auto intro!: frame intro: fdalloc_keeps split: option.split prod.split)

lemma sys_read_keeps [frame]: "running m s \<Longrightarrow> yields (\<lambda>_. running m) kernel_ok (sys_read s)"
  unfolding sys_read_def Let_def by (rule run.andthen_keeps [where m = m] frame run.ino_updates | assumption | simp)+

lemma sys_write_keeps [frame]: "running m s \<Longrightarrow> yields (\<lambda>_. running m) kernel_ok (sys_write s)"
  unfolding sys_write_def Let_def by (rule run.andthen_keeps [where m = m] frame run.ino_updates | assumption | simp)+

lemma sys_fstat_keeps [frame]: "running m s \<Longrightarrow> yields (\<lambda>_. running m) kernel_ok (sys_fstat s)"
  unfolding sys_fstat_def Let_def by (rule run.andthen_keeps [where m = m] frame run.ino_updates | assumption | simp)+

lemma sys_close_keeps [frame]: "running m s \<Longrightarrow> yields (\<lambda>_. running m) kernel_ok (sys_close s)"
  unfolding sys_close_def Let_def by (rule run.andthen_keeps [where m = m] frame clear_fd_keeps | assumption | simp)+

lemma sys_open_keeps [frame]: "running m s \<Longrightarrow> yields (\<lambda>_. running m) kernel_ok (sys_open s)"
proof -
  have opened: "running m (upd_file f (\<lambda>x. x\<lparr>f_ip := ip, f_readable := r, f_writable := w\<rparr>)
      (if dev then upd_file f (\<lambda>x. x\<lparr>f_type := FD_DEVICE, f_major := mj\<rparr>) t
       else upd_file f (\<lambda>x. x\<lparr>f_type := FD_INODE, f_off := 0\<rparr>) t))"
    if "running m t" "ip < NINODE" for f ip r w mj t dev
    using that by (auto intro!: run.set_file)
  have failed: "yields (\<lambda>_. running m) kernel_ok (andthen (iunlockput ip t) (\<lambda>_ s. end_op_with v s))"
    if "running m t" for ip v t by (rule frame that | assumption | simp)+
  have finished: "yields (\<lambda>_. running m) kernel_ok
      (andthen (if c then itrunc ip t else Ok () t) (\<lambda>_ s. andthen (iunlock ip s) (\<lambda>_ s. end_op_with v s)))"
    if "running m t" for c ip v t by (rule run.andthen_keeps [where m = m] frame that | assumption | simp)+
  have closed: "yields (\<lambda>_. running m) kernel_ok
      (andthen (fileclose f t) (\<lambda>_ s. andthen (iunlockput ip s) (\<lambda>_ s. end_op_with v s)))"
    if "running m t" for f ip v t by (rule frame failed that | assumption | simp)+
  have files: "yields (\<lambda>_. running m) kernel_ok
      (case filealloc t of (None, s) \<Rightarrow> fail s | (Some f, s) \<Rightarrow> (case fdalloc f s of (fd, s) \<Rightarrow> act f fd s))"
    if "running m t" "\<And>u. running m u \<Longrightarrow> yields (\<lambda>_. running m) kernel_ok (fail u)"
      "\<And>f fd u. running m u \<Longrightarrow> yields (\<lambda>_. running m) kernel_ok (act f fd u)"
    for fail t and act :: "nat \<Rightarrow> int \<Rightarrow> 'a iostate_scheme \<Rightarrow> (u64, 'a iostate_scheme) res"
    using that run.filealloc_keeps [OF that(1)]
    by (auto split: prod.split option.split intro!: that(2,3) intro: fdalloc_keeps)
  assume "running m s"
  then show ?thesis
    unfolding sys_open_def Let_def
    by (intro yields_andthen [OF run.argint_keeps] yields_andthen [OF run.argstr_keeps] yields_prod_fun yields_if
       yields_andthen [OF run.begin_op_keeps] yields_andthen [OF run.open_inode_keeps])
      (auto split: option.split intro!: yields_if yields_andthen [OF run.end_op_keeps] failed finished closed files opened)
qed

lemma sys_chdir_keeps [frame]: "running m s \<Longrightarrow> yields (\<lambda>_. running m) kernel_ok (sys_chdir s)"
proof -
  have moved: "running m (upd_proc i (\<lambda>p. p\<lparr>p_cwd := Some ip\<rparr>) t)" if "running m t" "ip < NINODE" for i ip t
    using that by (intro running_upd_proc) (auto simp: proc_ok_def)
  have target: "yields (\<lambda>r t. pred_option (\<lambda>ip. ip < NINODE) r \<and> running m t) kernel_ok
      (if r < 0 then Ok None t else namei path t)" if "running m t" for r :: int and path t
    using that run.namei_keeps [OF that] by simp
  assume "running m s"
  then show ?thesis
    unfolding sys_chdir_def
    by (intro yields_andthen [OF run.begin_op_keeps] yields_andthen [OF run.argstr_keeps] yields_prod_fun
        yields_andthen [OF target])
      (auto intro!: frame run.andthen_keeps [where m = m] moved split: option.split)
qed

lemma sys_exec_keeps [frame]: "running m s \<Longrightarrow> yields (\<lambda>_. running m) kernel_ok (sys_exec s)"
  unfolding sys_exec_def Let_def by (rule run.andthen_keeps [where m = m] frame run.ino_updates | assumption | simp)+

lemma sys_pipe_keeps [frame]: "running m s \<Longrightarrow> yields (\<lambda>_. running m) kernel_ok (sys_pipe s)"
proof -
  have installed: "yields (\<lambda>_. running m) kernel_ok (case fdalloc f t of (fd, s) \<Rightarrow> act fd s)"
    if "running m t" "f < NFILE" "\<And>fd u. running m u \<Longrightarrow> yields (\<lambda>_. running m) kernel_ok (act fd u)"
    for f t and act :: "int \<Rightarrow> 'a iostate_scheme \<Rightarrow> (u64, 'a iostate_scheme) res"
    using that by (auto split: prod.split intro: fdalloc_keeps)
  assume "running m s"
  then show ?thesis
    unfolding sys_pipe_def Let_def
    by (intro yields_andthen [OF run.argaddr_keeps] yields_andthen [OF run.pipealloc_keeps])
     (auto split: option.split intro!: installed yields_if run.close_two_keeps clear_fd_keeps yields_andthen [OF run.copyout_keeps])
qed

lemma sys_exit_keeps [frame]: "running m s \<Longrightarrow> yields (\<lambda>_. running m) kernel_ok (sys_exit s)"
  unfolding sys_exit_def Let_def by (rule run.andthen_keeps [where m = m] frame running_upd_proc | assumption | simp add: proc_ok_def)+

lemma sys_getproccount_keeps [frame]: "running m s \<Longrightarrow> yields (\<lambda>_. running m) kernel_ok (sys_getproccount s)"
  unfolding sys_getproccount_def Let_def by (rule run.andthen_keeps [where m = m] frame running_upd_proc | assumption | simp add: proc_ok_def)+

lemma sys_getprocinfo_keeps [frame]: "running m s \<Longrightarrow> yields (\<lambda>_. running m) kernel_ok (sys_getprocinfo s)"
  unfolding sys_getprocinfo_def Let_def by (rule run.andthen_keeps [where m = m] frame running_upd_proc | assumption | simp add: proc_ok_def)+

lemma sys_getpid_keeps [frame]: "running m s \<Longrightarrow> yields (\<lambda>_. running m) kernel_ok (sys_getpid s)"
  unfolding sys_getpid_def Let_def by (rule run.andthen_keeps [where m = m] frame running_upd_proc | assumption | simp add: proc_ok_def)+

lemma sys_fork_keeps [frame]: "running m s \<Longrightarrow> yields (\<lambda>_. running m) kernel_ok (sys_fork s)"
  unfolding sys_fork_def Let_def by (rule run.andthen_keeps [where m = m] frame running_upd_proc | assumption | simp add: proc_ok_def)+

lemma sys_thread_create_keeps [frame]: "running m s \<Longrightarrow> yields (\<lambda>_. running m) kernel_ok (sys_thread_create s)"
  unfolding sys_thread_create_def Let_def by (rule run.andthen_keeps [where m = m] frame running_upd_proc | assumption | simp add: proc_ok_def)+

lemma sys_thread_join_keeps [frame]: "running m s \<Longrightarrow> yields (\<lambda>_. running m) kernel_ok (sys_thread_join s)"
  unfolding sys_thread_join_def Let_def by (rule run.andthen_keeps [where m = m] frame running_upd_proc | assumption | simp add: proc_ok_def)+

lemma sys_thread_exit_keeps [frame]: "running m s \<Longrightarrow> yields (\<lambda>_. running m) kernel_ok (sys_thread_exit s)"
  unfolding sys_thread_exit_def Let_def by (rule run.andthen_keeps [where m = m] frame running_upd_proc | assumption | simp add: proc_ok_def)+

lemma sys_wait_keeps [frame]: "running m s \<Longrightarrow> yields (\<lambda>_. running m) kernel_ok (sys_wait s)"
  unfolding sys_wait_def Let_def by (rule run.andthen_keeps [where m = m] frame running_upd_proc | assumption | simp add: proc_ok_def)+

lemma sys_getppid_keeps [frame]: "running m s \<Longrightarrow> yields (\<lambda>_. running m) kernel_ok (sys_getppid s)"
  unfolding sys_getppid_def Let_def by (rule run.andthen_keeps [where m = m] frame running_upd_proc | assumption | simp add: proc_ok_def)+

lemma sys_sbrk_keeps [frame]: "running m s \<Longrightarrow> yields (\<lambda>_. running m) kernel_ok (sys_sbrk s)"
  unfolding sys_sbrk_def Let_def by (rule run.andthen_keeps [where m = m] frame running_upd_proc | assumption | simp add: proc_ok_def)+

lemma pause_from_keeps [frame]: "running m s \<Longrightarrow> yields (\<lambda>_. running m) kernel_ok (pause_from ticks0 n s)"
  unfolding pause_from_def Let_def by (rule run.andthen_keeps [where m = m] frame run.ino_updates | assumption | simp)+

lemma sys_pause_keeps [frame]: "running m s \<Longrightarrow> yields (\<lambda>_. running m) kernel_ok (sys_pause s)"
  unfolding sys_pause_def Let_def by (rule run.andthen_keeps [where m = m] frame running_upd_proc | assumption | simp add: proc_ok_def)+

lemma sys_uptime_keeps [frame]: "running m s \<Longrightarrow> yields (\<lambda>_. running m) kernel_ok (sys_uptime s)"
  unfolding sys_uptime_def Let_def by (rule run.andthen_keeps [where m = m] frame running_upd_proc | assumption | simp add: proc_ok_def)+

lemma sys_waitpid_keeps [frame]: "running m s \<Longrightarrow> yields (\<lambda>_. running m) kernel_ok (sys_waitpid s)"
  unfolding sys_waitpid_def Let_def by (rule run.andthen_keeps [where m = m] frame running_upd_proc | assumption | simp add: proc_ok_def)+

lemma sys_getchildren_keeps [frame]: "running m s \<Longrightarrow> yields (\<lambda>_. running m) kernel_ok (sys_getchildren s)"
  unfolding sys_getchildren_def Let_def by (rule run.andthen_keeps [where m = m] frame running_upd_proc | assumption | simp add: proc_ok_def)+

lemma sys_signal_keeps [frame]: "running m s \<Longrightarrow> yields (\<lambda>_. running m) kernel_ok (sys_signal s)"
  unfolding sys_signal_def Let_def by (rule run.andthen_keeps [where m = m] frame running_upd_proc | assumption | simp add: proc_ok_def)+

lemma sys_sigreturn_keeps [frame]: "running m s \<Longrightarrow> yields (\<lambda>_. running m) kernel_ok (sys_sigreturn s)"
  unfolding sys_sigreturn_def Let_def by (rule run.andthen_keeps [where m = m] frame running_upd_proc | assumption | simp add: proc_ok_def)+

lemma sys_ipc_send_keeps [frame]: "running m s \<Longrightarrow> yields (\<lambda>_. running m) kernel_ok (sys_ipc_send s)"
  unfolding sys_ipc_send_def Let_def by (rule run.andthen_keeps [where m = m] frame running_upd_proc | assumption | simp add: proc_ok_def)+

lemma sys_ipc_recv_keeps [frame]: "running m s \<Longrightarrow> yields (\<lambda>_. running m) kernel_ok (sys_ipc_recv s)"
  unfolding sys_ipc_recv_def Let_def by (rule run.andthen_keeps [where m = m] frame running_upd_proc | assumption | simp add: proc_ok_def)+

lemma sys_kill_keeps [frame]: "running m s \<Longrightarrow> yields (\<lambda>_. running m) kernel_ok (sys_kill s)"
  unfolding sys_kill_def by (rule run.andthen_keeps [where m = m] frame | erule (1) kkill_keeps | assumption)+

lemma sys_sigsend_keeps [frame]: "running m s \<Longrightarrow> yields (\<lambda>_. running m) kernel_ok (sys_sigsend s)"
  unfolding sys_sigsend_def by (rule run.andthen_keeps [where m = m] frame | erule (1) ksigsend_keeps | assumption)+

section \<open>Dispatch, interrupts and traps\<close>

lemma printf_loop_returns: "case printf_loop fmt args s of Ok _ _ \<Rightarrow> True | Fault _ \<Rightarrow> True | _ \<Rightarrow> False"
  by (induction fmt args s rule: printf_loop.induct) (auto split: prod.splits conv.splits list.splits parg.splits)

lemma running_emit: "running m s \<Longrightarrow> running m (emit bs s)"
  unfolding emit_def by (rule run.set_uart)

lemma printf_keeps [frame]: "running m s \<Longrightarrow> yields (\<lambda>_. running m) kernel_ok (printf fmt args s)"
  using printf_loop_returns [of "ascii fmt" args s] printf_emits [of fmt args s]
  by (cases "printf fmt args s") (auto simp: printf_def intro: running_emit)

lemma procdump_loop_keeps [frame]: "running m s \<Longrightarrow> yields (\<lambda>_. running m) kernel_ok (procdump_loop ps s)"
proof (induction ps arbitrary: s)
  case (Cons p ps)
  then show ?case unfolding procdump_loop.simps by (auto intro!: frame)
qed simp

lemma running_upd_tf: "running m s \<Longrightarrow> running m (upd_tf f s)"
  unfolding upd_tf_def by (rule running_upd_proc) (simp_all add: proc_ok_def)

lemma syscalls_keep: "syscalls num = Some f \<Longrightarrow> running m s \<Longrightarrow> yields (\<lambda>_. running m) kernel_ok (f s)"
  unfolding syscalls_def by (simp only: option.inject option.distinct split: if_splits) (auto intro: frame)

lemma syscall_keeps: "running m s \<Longrightarrow> yields (\<lambda>_. running m) kernel_ok (syscall s)"
  unfolding syscall_def Let_def
  by (auto intro!: yields_andthen [OF syscalls_keep] yields_andthen [OF printf_keeps] running_upd_tf split: option.split)

text \<open>The registers, the disk queue and the console's line are no part of the tables.\<close>

lemma running_regs [simp]:
  fixes s :: "'z kernel_scheme"
  shows "running m (s\<lparr>sstatus := a\<rparr>) = running m s" "running m (s\<lparr>sepc := a\<rparr>) = running m s"
    "running m (s\<lparr>stvec := a\<rparr>) = running m s" "running m (s\<lparr>stimecmp := a\<rparr>) = running m s"
    "running m (s\<lparr>plic_w := ws\<rparr>) = running m s" "running m (s\<lparr>ticks := k\<rparr>) = running m s"
  by (simp_all add: running_def kernel_ok_def tables_ok_def pids_ok_def)

lemma running_devices [simp]:
  fixes s :: "'z vstate_scheme"
  shows "running m (upd_vd f s) = running m s" "running m (mmio_write r v s) = running m s"
    "running m (s\<lparr>uart_rx := cs\<rparr>) = running m s" "running m (s\<lparr>cons_e := e\<rparr>) = running m s"
    "running m (s\<lparr>cons_w := e\<rparr>) = running m s" "running m (s\<lparr>tx_busy := b\<rparr>) = running m s"
    "length cb = length (cons_buf s) \<Longrightarrow> running m (s\<lparr>cons_buf := cb\<rparr>) = running m s"
    "running m (emit bs s) = running m s" "cons_buf (emit bs s) = cons_buf s"
  by (simp_all add: running_def kernel_ok_def tables_ok_def pids_ok_def upd_vd_def mmio_write_def emit_def)

lemma running_consputc [simp]:
  fixes s :: "'z vstate_scheme"
  shows "running m (consputc c s) = running m s" "cons_buf (consputc c s) = cons_buf s"
  using consputc_emits [of c s] by auto

lemma kill_line_keeps: "running m (s :: 'z vstate_scheme) \<Longrightarrow> running m (kill_line s)"
proof (induction s rule: kill_line.induct)
  case (1 s)
  then show ?case by (subst kill_line.simps) auto
qed

lemma consoleintr_keeps [frame]:
  "running m (s :: 'z vstate_scheme) \<Longrightarrow> yields (\<lambda>_. running m) kernel_ok (consoleintr c s)"
  unfolding consoleintr_def procdump_def Let_def
  by (auto intro!: yields_if yields_andthen [OF printf_keeps] procdump_loop_keeps run.wakes kill_line_keeps)

lemma uartintr_loop_keeps [frame]:
  "running m (s :: 'z vstate_scheme) \<Longrightarrow> yields (\<lambda>_. running m) kernel_ok (uartintr_loop s)"
proof (induction s rule: uartintr_loop.induct)
  case (1 s)
  obtain c t where ct: "uartgetc s = (c, t)" by (cases "uartgetc s")
  with 1(2) have "running m t" by (auto simp: uartgetc_def split: list.splits)
  with 1(1) [OF ct [symmetric]] show ?case
    by (subst uartintr_loop.simps) (auto simp: ct intro!: yields_andthen [OF consoleintr_keeps])
qed

lemma uartintr_keeps [frame]:
  "running m (s :: 'z vstate_scheme) \<Longrightarrow> yields (\<lambda>_. running m) kernel_ok (uartintr idle s)"
  unfolding uartintr_def by (auto simp: Let_def intro!: uartintr_loop_keeps run.wakes)

lemma intr_loop_keeps: "running m s \<Longrightarrow> yields (\<lambda>_. running m) kernel_ok (intr_loop s)"
proof (induction s rule: intr_loop.induct)
  case (1 s)
  then show ?case
    by (subst intr_loop.simps) (auto simp: Let_def intro!: run.wakes run.set_bufs split: option.split)
qed

lemma virtio_disk_intr_keeps [frame]: "running m s \<Longrightarrow> yields (\<lambda>_. running m) kernel_ok (virtio_disk_intr R s)"
  unfolding virtio_disk_intr_def by (auto intro: intr_loop_keeps)

lemma clockintr_keeps: "running m s \<Longrightarrow> running m (clockintr hw s)"
  unfolding clockintr_def by (auto simp: Let_def intro!: run.wakes)

lemma devintr_keeps [frame]: "running m s \<Longrightarrow> yields (\<lambda>_. running m) kernel_ok (devintr hw s)"
  unfolding devintr_def Let_def plic_complete_def plic_store_def
  by (auto intro!: run.andthen_keeps [where m = m] frame clockintr_keeps)

lemma yield_keeps:
  assumes "running m s"
  shows "yields R kernel_ok (yield s)"
proof -
  have "pids_ok (upd_proc (me s) (\<lambda>p. p\<lparr>p_state := RUNNABLE\<rparr>) s)"
    by (rule pids_ok_cong [of s]) (use assms running_cur [OF assms] in \<open>auto simp: proc_simps running_def kernel_ok_def\<close>)
  with assms show ?thesis
    by (auto simp: yield_def kernel_ok_def running_def intro: tables_ok_upd_proc)
qed

lemma deliver_signal_keeps [simp]:
  "proc_ok p \<Longrightarrow> proc_ok (deliver_signal p)" "p_pid (deliver_signal p) = p_pid p"
  "p_state (deliver_signal p) = p_state p"
  by (auto simp: deliver_signal_def proc_ok_def split: option.split)

lemma prepare_return_keeps: "running m s \<Longrightarrow> running m (prepare_return s)"
  unfolding prepare_return_def Let_def by (auto intro: running_upd_tf)

lemma usertrap_return_keeps: "running m s \<Longrightarrow> yields (\<lambda>_. running m) kernel_ok (usertrap_return s)"
  unfolding usertrap_return_def Let_def by (auto intro!: prepare_return_keeps running_upd_proc)

lemma usertrap_cause_keeps [frame]: "running m s \<Longrightarrow> yields (\<lambda>_. running m) kernel_ok (usertrap_cause hw s)"
  unfolding usertrap_cause_def setkilled_def
  by (auto intro!: run.andthen_keeps [where m = m] frame syscall_keeps running_upd_tf running_upd_proc
        simp: proc_ok_def)

lemma usertrap_keeps: "running m s \<Longrightarrow> yields (\<lambda>_. running m) kernel_ok (usertrap hw s)"
  unfolding usertrap_def Let_def
  by (rule run.andthen_keeps [where m = m] yields_if kexit_keeps yield_keeps usertrap_cause_keeps usertrap_return_keeps
      running_upd_tf | assumption | simp)+

lemma scheduler_resumes:
  fixes s :: "'a iostate_scheme"
  assumes "kernel_ok s" and "scheduler_pass k s = Some (i, t)"
  shows "running i t"
proof -
  from assms(2) have f: "find_from (\<lambda>p. p_state p = RUNNABLE) k (drop k (procs s)) = Some i" and t: "t = dispatch i s"
    by (auto simp: scheduler_pass_def split: option.splits)
  from find_from_SomeD [OF f] have i: "i < length (procs s)" "p_state (procs s ! i) = RUNNABLE" by auto
  let ?u = "upd_proc i (\<lambda>p. p\<lparr>p_state := RUNNING\<rparr>) s"
  have "pids_ok ?u"
    by (rule pids_ok_cong [of s]) (use assms(1) i in \<open>auto simp: proc_simps kernel_ok_def\<close>)
  moreover have "tables_ok ?u" using assms(1) by (intro tables_ok_upd_proc) (auto simp: kernel_ok_def)
  moreover have "length (procs s) = NPROC" using assms(1) by (simp add: kernel_ok_def tables_ok_def)
  moreover have "pids_ok (v\<lparr>cur := c\<rparr>) = pids_ok v" "tables_ok v \<Longrightarrow> j < NPROC \<Longrightarrow> tables_ok (v\<lparr>cur := Some j\<rparr>)"
    for v :: "'a iostate_scheme" and c j by (simp_all add: pids_ok_def tables_ok_def)
  ultimately show ?thesis using i by (simp add: t dispatch_def running_def kernel_ok_def proc_simps)
qed


section \<open>A kernel with one user process\<close>

definition demo_inode :: inode where
  "demo_inode = \<lparr>i_dev = 0, i_inum = 0, i_ref = 0, i_lock = initsleeplock, i_valid = False, i_type = 0, i_major = 0,
     i_minor = 0, i_nlink = 0, i_size = 0, i_addrs = replicate (Suc NDIRECT) 0\<rparr>"

definition demo_file :: kfile where
  "demo_file = \<lparr>f_type = FD_NONE, f_ref = 0, f_readable = False, f_writable = False, f_pipe = 0, f_ip = 0, f_off = 0,
     f_major = 0\<rparr>"

definition demo_vd :: vdisk where
  "demo_vd = \<lparr>vd_desc = replicate NUM zero_desc, avail_idx = 0, avail_ring = replicate NUM 0, dev_used_idx = 0,
     used_ring = replicate NUM 0, vd_free = replicate NUM True, used_idx = 0,
     vd_info = replicate NUM \<lparr>info_b = None, info_status = 0\<rparr>,
     vd_ops = replicate NUM \<lparr>req_type = 0, req_sector = 0\<rparr>\<rparr>"

definition demo_kernel :: "proc \<Rightarrow> kernel" where
  "demo_kernel p = vstate.extend
     (iostate.extend (demo_io\<lparr>procs := p # replicate 63 idle_proc, itable := replicate NINODE demo_inode,
        ftable := replicate NFILE demo_file\<rparr>) (vstate.fields demo_vd []))
     (kernel.fields 0 0x1000 8 0 0x80005000 0x8000000000080100 0 0 [] 0x80100000 0x80005000 0 0x80002800 False True)"

lemma demo_kernel_running: "proc_ok p \<Longrightarrow> p_state p = RUNNING \<Longrightarrow> p_pid p = 1 \<Longrightarrow> running 0 (demo_kernel p)"
proof -
  assume p: "proc_ok p" "p_state p = RUNNING" "p_pid p = 1"
  have "proc_ok idle_proc" by (simp add: proc_ok_def idle_proc_def)
  then have "tables_ok (demo_kernel p)"
    using p(1) by (auto simp: tables_ok_def demo_kernel_def demo_io_def demo_inode_def demo_file_def iostate.defs vstate.defs
        kernel.defs)
  moreover have "pids_ok (demo_kernel p)"
    using p by (auto simp: pids_ok_def demo_kernel_def demo_io_def iostate.defs vstate.defs kernel.defs idle_proc_def
        nth_Cons split: nat.splits)
  ultimately show ?thesis
    using p by (simp add: running_def kernel_ok_def)
       (simp add: demo_kernel_def demo_io_def iostate.defs vstate.defs kernel.defs)
qed

text \<open>The system call \<open>getpid\<close> of process 1, from the trap to the return.\<close>

definition demo_call :: "u64 \<Rightarrow> kernel" where
  "demo_call num = demo_kernel (demo_proc\<lparr>p_tf := idle_tf\<lparr>tf_a7 := num\<rparr>\<rparr>)"

definition demo_hw :: hw where
  "demo_hw = \<lparr>hw_irq = 0, hw_tx_idle = True, hw_virtio = (\<lambda>_. 0), hw_time = 0\<rparr>"

lemma deliver_signal_none: "p_pending_signals p = 0 \<Longrightarrow> deliver_signal p = p"
  by (auto simp: deliver_signal_def find_Some_iff split: option.split)


end
