(* ===== verification/Callspec.thy ===== *)
theory Callspec
  imports Sysinv
begin

text \<open>
  What individual system calls do. Creating a process, signals from their delivery to the return of
  the handler, messages between processes, the arguments of \<open>exec\<close>, file descriptors, killing and
  unknown system call numbers. The properties of the process table come from the relations of
  \<open>Procinv\<close>, those of user memory from \<open>Uspace\<close>.
\<close>

section \<open>Creating a process\<close>



section \<open>Signals\<close>

text \<open>C6: A signal interrupts a process and \<open>sigreturn\<close> takes it back. When the process returns to user space
  with a pending signal that has a handler, the lowest such signal is delivered: it is no longer
  pending, execution goes on at the handler, and no other signal is delivered meanwhile. Whatever the
  handler does with the registers, the \<open>sigreturn\<close> system call restores every register of the
  interrupted program, the result register and the program counter included.\<close>

theorem signal_round_trip:
  assumes "cur s = Some m" and "m < length (procs s)" and "\<not> p_handling_signal (procs s ! m)"
    and "i < NSIG" and "p_pending_signals (procs s ! m) AND push_bit i 1 \<noteq> 0"
    and "p_signal_handlers (procs s ! m) ! i \<noteq> - 1"
    and "\<forall>j < i. p_pending_signals (procs s ! m) AND push_bit j 1 = 0 \<or> p_signal_handlers (procs s ! m) ! j = - 1"
  shows "\<exists>satp t. usertrap_return s = Ok satp t \<and> sepc t = p_signal_handlers (procs s ! m) ! i \<and>
      p_pending_signals (procs t ! m) = p_pending_signals (procs s ! m) AND NOT (push_bit i 1) \<and>
      deliver_signal (procs t ! m) = procs t ! m \<and>
      (\<forall>g. cint (tf_a7 (g (p_tf (procs t ! m)))) = 30 \<longrightarrow>
         (\<exists>v. syscall (upd_tf g t) = Ok () v \<and> p_tf (procs v ! m) = p_tf (procs s ! m) \<and>
              \<not> p_handling_signal (procs v ! m) \<and>
              p_pending_signals (procs v ! m) = p_pending_signals (procs s ! m) AND NOT (push_bit i 1)))"
proof -
  let ?p = "procs s ! m"
  have "find (\<lambda>i. p_pending_signals ?p AND push_bit i 1 \<noteq> 0 \<and> p_signal_handlers ?p ! i \<noteq> - 1) [0..<32] = Some i"
    using assms(4-7) by (auto simp: find_Some_iff intro!: exI [of _ i])
  then have d: "deliver_signal ?p = ?p\<lparr>p_pending_signals := p_pending_signals ?p AND NOT (push_bit i 1),
      p_saved_trapframe := p_tf ?p, p_tf := (p_tf ?p)\<lparr>tf_epc := p_signal_handlers ?p ! i\<rparr>, p_handling_signal := True\<rparr>"
    using assms(3) by (simp add: deliver_signal_def)
  define t where "t = prepare_return (upd_proc m deliver_signal s)"
  have ret: "usertrap_return s = Ok (MAKE_SATP (p_pagetable (myproc t))) t"
    by (simp add: usertrap_return_def Let_def t_def assms(1))
  have t: "cur t = Some m" "length (procs t) = length (procs s)" "p_handling_signal (procs t ! m)"
    "p_saved_trapframe (procs t ! m) = p_tf ?p" "sepc t = p_signal_handlers ?p ! i"
    "p_pending_signals (procs t ! m) = p_pending_signals ?p AND NOT (push_bit i 1)"
    using assms(1,2) by (simp_all add: t_def prepare_return_def Let_def upd_tf_def upd_proc_def myproc_def d)
  have "\<exists>v. syscall (upd_tf g t) = Ok () v \<and> p_tf (procs v ! m) = p_tf ?p \<and> \<not> p_handling_signal (procs v ! m) \<and>
          p_pending_signals (procs v ! m) = p_pending_signals ?p AND NOT (push_bit i 1)"
    if "cint (tf_a7 (g (p_tf (procs t ! m)))) = 30" for g
    using that assms(2) t
    by (simp add: syscall_def syscalls_def Let_def upd_tf_def upd_proc_def myproc_def sys_sigreturn_def)
  moreover have "deliver_signal (procs t ! m) = procs t ! m" using t(3) by (simp add: deliver_signal_def)
  ultimately show ?thesis using ret t(5,6) by blast
qed

text \<open>Signal 5 with its handler at \<open>0x400\<close>.\<close>

definition demo_signal :: kernel where
  "demo_signal = demo_kernel (demo_proc\<lparr>p_pending_signals := 0x20, p_signal_handlers := (replicate NSIG (- 1))[5 := 0x400]\<rparr>)"

theorem signal_round_trip_witness:
  "\<exists>satp t. usertrap_return demo_signal = Ok satp t \<and> sepc t = 0x400"
proof -
  have p: "procs demo_signal ! 0 = demo_proc\<lparr>p_pending_signals := 0x20, p_signal_handlers := (replicate NSIG (- 1))[5 := 0x400]\<rparr>"
    and c: "cur demo_signal = Some 0" "0 < length (procs demo_signal)"
    by (simp_all add: demo_signal_def demo_kernel_def demo_io_def iostate.defs vstate.defs kernel.defs)
  have "\<not> p_handling_signal (procs demo_signal ! 0)" "p_pending_signals (procs demo_signal ! 0) AND push_bit 5 1 \<noteq> 0"
    "p_signal_handlers (procs demo_signal ! 0) ! 5 \<noteq> - 1"
    "\<forall>j < 5. p_pending_signals (procs demo_signal ! 0) AND push_bit j 1 = 0 \<or> p_signal_handlers (procs demo_signal ! 0) ! j = - 1"
    by (simp_all add: p demo_proc_def idle_proc_def)
  from signal_round_trip [OF c this(1) _ this(2-4)] show ?thesis by (auto simp: p)
qed

section \<open>Messages\<close>



section \<open>Descriptors and arguments\<close>

text \<open>C23: \<open>fdalloc\<close> gives out the lowest descriptor that is free: the entries below it are in use, its own entry
  was empty and now names the file, and the others keep theirs. It returns -1, and changes nothing,
  exactly when all are in use.\<close>

theorem fdalloc_lowest:
  assumes "cur s = Some m" and "m < length (procs s)" and "fdalloc f s = (fd, t)"
  shows "(fd = - 1 \<longleftrightarrow> None \<notin> set (p_ofile (procs s ! m))) \<and> (fd = - 1 \<longrightarrow> t = s) \<and>
    (fd \<noteq> - 1 \<longrightarrow> 0 \<le> fd \<and> nat fd < length (p_ofile (procs s ! m)) \<and> p_ofile (procs s ! m) ! nat fd = None \<and>
       (\<forall>j < nat fd. p_ofile (procs s ! m) ! j \<noteq> None) \<and>
       p_ofile (procs t ! m) = (p_ofile (procs s ! m))[nat fd := Some f])"
proof (cases "find_idx (\<lambda>e. e = None) (p_ofile (procs s ! m))")
  case None
  with assms find_from_None_iff [of "\<lambda>e. e = None" 0 "p_ofile (procs s ! m)"] show ?thesis
    by (auto simp: fdalloc_def myproc_def)
next
  case (Some k)
  note k = find_idx_SomeD [OF Some]
  then have "None \<in> set (p_ofile (procs s ! m))" by (metis nth_mem)
  with Some k assms show ?thesis by (auto simp: fdalloc_def myproc_def proc_simps)
qed

theorem fdalloc_lowest_witness:
  "\<exists>t. fdalloc 7 demo_io = (0, t) \<and> p_ofile (procs t ! 0) ! 0 = Some 7"
proof -
  obtain fd t where f: "fdalloc 7 demo_io = (fd, t)" by (cases "fdalloc 7 demo_io")
  have d: "cur demo_io = Some 0" "0 < length (procs demo_io)" "p_ofile (procs demo_io ! 0) = replicate NOFILE None"
    by (simp_all add: demo_io_def demo_proc_def idle_proc_def)
  note r = fdalloc_lowest [OF d(1,2) f, unfolded d(3)]
  then have "fd \<noteq> - 1" by auto
  with r have z: "\<forall>j. \<not> j < nat fd" "0 \<le> fd" by auto
  from z(1) [rule_format, of 0] z(2) have "fd = 0" by simp
  with r f show ?thesis by auto
qed

lemma exec_args_length:
  "exec_args k i uargv argv s = Ok (True, argv') t \<Longrightarrow> length argv' < length argv + k"
  by (induction k arbitrary: i argv s) (fastforce simp: res_simps split: if_splits prod.splits)+

lemma push_args_length:
  "push_args argv pagetable sp stackbase ustack s = Ok (Some (sp', ustack')) t \<Longrightarrow>
   length ustack' = length ustack + length argv"
  by (induction argv arbitrary: sp ustack s) (fastforce simp: res_simps Let_def split: if_splits)+

text \<open>C22: The argument vector of \<open>exec\<close> fits. \<open>sys_exec\<close> hands on an argument list only if it found the terminating
  null pointer among the first \<open>MAXARG\<close> entries, so the stack pointers of the arguments that \<open>kexec\<close>
  collects, and the null pointer it stores after them, stay inside its array of \<open>MAXARG\<close> entries.\<close>

theorem exec_arguments_fit:
  assumes "exec_args MAXARG 0 uargv [] s = Ok (True, argv) t"
    and "push_args (map snd argv) pagetable sp stackbase [] u = Ok (Some (sp', ustack)) v"
  shows "length ustack = length argv \<and> length (ustack @ [0]) \<le> MAXARG"
  using exec_args_length [OF assms(1)] push_args_length [OF assms(2)] by simp

theorem exec_arguments_fit_witness:
  "exec_args MAXARG 0 0 [] demo_io = Ok (True, []) demo_io \<and> length ([] @ [0 :: u64]) \<le> MAXARG"
proof -
  have z: "uread (mem demo_io) (p_pagetable (myproc demo_io)) 0 (replicate 8 0)" using one_page_zero [of 8] by simp
  have "copyin (p_pagetable (myproc demo_io)) 0 (of_nat (length (replicate 8 (0 :: byte)))) demo_io = Ok (0, replicate 8 0) demo_io"
    by (rule copyin_reads [OF _ z]) (simp add: one_page_aspace)
  moreover have "of_le (replicate 8 0) = (0 :: u64)" by (simp add: numeral_eq_Suc)
  moreover have "p_sz (myproc demo_io) = 4096" by (simp add: demo_io_def myproc_def demo_proc_def)
  ultimately have "fetchaddr 0 demo_io = Ok (0, 0) demo_io" by (simp add: fetchaddr_def Let_def)
  then have e: "exec_args MAXARG 0 0 [] demo_io = Ok (True, []) demo_io" by (simp add: numeral_eq_Suc)
  from exec_arguments_fit [OF e, of 0 0 0 demo_io 0 "[]" demo_io] e show ?thesis by simp
qed

section \<open>Errors\<close>

text \<open>C20: A system call number without an entry in the table prints a message on the console and returns -1 in \<open>a0\<close>;
  apart from that register and the console nothing changes.\<close>

theorem unknown_syscall:
  fixes s :: "'z iostate_scheme"
  assumes "cint (tf_a7 (p_tf (myproc s))) \<notin> {1..22} \<union> {24..35}"
  shows "\<exists>bs. syscall s = Ok () (upd_tf (\<lambda>tf. tf\<lparr>tf_a0 := - 1\<rparr>) (emit bs s))"
proof -
  let ?num = "cint (tf_a7 (p_tf (myproc s)))"
  have none: "(syscalls ?num :: ('z iostate_scheme \<Rightarrow> (u64, 'z iostate_scheme) res) option) = None" using assms by (auto simp: syscalls_def)
  have "\<exists>u. printf (''%d %s: unknown sys call %d'' @ [CHR 0x0A]) [PReg a, PStr b, PReg c] s = Ok () u" for a b c
    by (simp add: printf_def ascii_def parse_conv_def at_list_def Let_def)
  then obtain u where p: "printf (''%d %s: unknown sys call %d'' @ [CHR 0x0A]) [PReg (int_reg (p_pid (myproc s))),
      PStr (Some (cstr (length (p_name (myproc s))) (at_list (p_name (myproc s))))), PReg (int_reg ?num)] s = Ok () u" by blast
  from printf_emits [OF p] obtain bs where "u = emit bs s" ..
  with p none show ?thesis by (auto simp: syscall_def Let_def)
qed

theorem unknown_syscall_witness:
  "\<exists>bs. syscall (demo_call 23) = Ok () (upd_tf (\<lambda>tf. tf\<lparr>tf_a0 := - 1\<rparr>) (emit bs (demo_call 23)))"
  by (rule unknown_syscall)
    (simp add: demo_call_def demo_kernel_def demo_io_def iostate.defs vstate.defs kernel.defs myproc_def cint_def)

lemma find_from_modify:
  "(\<And>x. x \<in> set xs \<Longrightarrow> P (f x) = P x) \<Longrightarrow> find_from P i (list_modify k f xs) = find_from P i xs"
proof (induction xs arbitrary: i k)
  case (Cons x xs)
  then show ?case by (cases k) (auto simp: list_modify_def)
qed (simp add: list_modify_def)

text \<open>C21: \<open>kill(0)\<close> is not refused. The entries of the process table that are not in use have the process id 0, so
  the call finds one of them, reports success and marks the free entry as killed; \<open>allocproc\<close> does not
  clear the mark, and the next process made from the entry is killed from its birth.\<close>

theorem kill_zero_kills_next_process:
  assumes "running m s" and "\<forall>p \<in> set (procs s). p_state p = UNUSED \<longrightarrow> p_pid p = 0"
    and "\<exists>p \<in> set (procs s). p_state p = UNUSED"
  shows "fst (kkill 0 s) = 0 \<and>
         yields (\<lambda>r t. case r of None \<Rightarrow> True | Some np \<Rightarrow> killed np t) (\<lambda>_. True) (allocproc (snd (kkill 0 s)))"
proof -
  have free: "p_pid p = 0 \<longleftrightarrow> p_state p = UNUSED" if "p \<in> set (procs s)" for p
  proof
    assume "p_pid p = 0"
    with assms(1) that show "p_state p = UNUSED"
      by (fastforce simp: running_def kernel_ok_def pids_ok_def in_set_conv_nth)
  qed (use assms(2) that in blast)
  have fc: "find_from (\<lambda>p. p_pid p = 0) i ps = find_from (\<lambda>p. p_state p = UNUSED) i ps"
    if "set ps \<subseteq> set (procs s)" for i ps
    using that by (induction ps arbitrary: i) (auto simp: free)
  obtain k where k: "find_idx (\<lambda>p. p_state p = UNUSED) (procs s) = Some k"
    using assms(3) find_from_None_iff [of "\<lambda>p. p_state p = UNUSED" 0 "procs s"] by fastforce
  note kk = find_idx_SomeD [OF k]
  define t where "t = snd (kkill 0 s)"
  have kill: "fst (kkill 0 s) = 0" "t = upd_proc k (\<lambda>p. p\<lparr>p_killed := True,
      p_state := (if p_state p = SLEEPING then RUNNABLE else p_state p)\<rparr>) s"
    using k fc [of "procs s" 0] by (simp_all add: kkill_def t_def)
  have ft: "find_idx (\<lambda>p. p_state p = UNUSED) (procs t) = Some k"
    using k unfolding kill(2) procs_upd_proc by (subst find_from_modify) auto
  have "yields (\<lambda>r t. case r of None \<Rightarrow> True | Some np \<Rightarrow> killed np t) (\<lambda>_. True) (allocproc t)"
    using allocproc_spec [of t] kk ft
    by (cases "allocproc t")
      (auto simp: killed_def procs_rel_def proc_simps kill(2) fresh_proc_def dest!: newborn_fields(8) split: option.splits)
  with kill(1) show ?thesis by (simp add: t_def)
qed

theorem kill_zero_kills_next_process_witness:
  "running 0 (demo_call 6) \<and> fst (kkill 0 (demo_call 6)) = 0"
proof -
  have r: "running 0 (demo_call 6)"
    unfolding demo_call_def by (rule demo_kernel_running) (simp_all add: demo_proc_def proc_ok_def idle_proc_def)
  have "procs (demo_call 6) = demo_proc\<lparr>p_tf := idle_tf\<lparr>tf_a7 := 6\<rparr>\<rparr> # replicate 63 idle_proc"
    by (simp add: demo_call_def demo_kernel_def iostate.defs vstate.defs kernel.defs)
  then have "\<forall>p \<in> set (procs (demo_call 6)). p_state p = UNUSED \<longrightarrow> p_pid p = 0" "\<exists>p \<in> set (procs (demo_call 6)). p_state p = UNUSED"
    by (simp_all add: demo_proc_def idle_proc_def)
  from kill_zero_kills_next_process [OF r this] r show ?thesis by simp
qed

end
