(* ===== verification/Ulib.thy ===== *)
theory Ulib
  imports Printf
begin

text \<open>
  The library of the user programs, \<open>user/ulib.c\<close>. A pointer to a C string is the list of the
  bytes from there to the end of its buffer; \<open>at_list\<close> reads NUL past the end, so the list of
  the characters of a string stands for the string. The routines that write through a pointer
  work on the flat memory of \<open>Cstring\<close> or return the bytes they store.

  An open descriptor is what is left of its input together with a schedule of what the
  following calls of \<open>read\<close> find: an error, or how many bytes have arrived beyond the first
  one. Every way the kernel may cut an input into pieces is such a schedule. \<open>read\<close> itself is
  the system call stub, and \<open>uread_call\<close> its effect on a descriptor.
\<close>

type_synonym infile = "byte list \<times> nat option list"

definition uread_call :: "nat \<Rightarrow> infile \<Rightarrow> byte list option \<times> infile" where
  "uread_call n f =
     (case f of (bs, ks) \<Rightarrow>
        (case ks of
           [] \<Rightarrow> (Some (take n bs), (drop n bs, []))
         | None # ks \<Rightarrow> (None, (bs, ks))
         | Some k # ks \<Rightarrow> let j = min n (Suc k) in (Some (take j bs), (drop j bs, ks))))"

section \<open>Strings\<close>

fun strcpy :: "byte list \<Rightarrow> byte list" where
  "strcpy [] = [0]"
| "strcpy (c # t) = c # (if c \<noteq> 0 then strcpy t else [])"

function strcmp :: "byte list \<Rightarrow> byte list \<Rightarrow> int" where
  "strcmp p q =
     (if at_list p 0 \<noteq> 0 \<and> at_list p 0 = at_list q 0 then strcmp (drop 1 p) (drop 1 q)
      else uint (at_list p 0) - uint (at_list q 0))"
  by pat_completeness auto
termination
  by (relation "measure (\<lambda>(p, _). length p)") (auto simp: at_list_def split: if_splits)

declare strcmp.simps [simp del]

fun strlen :: "byte list \<Rightarrow> nat" where
  "strlen [] = 0"
| "strlen (c # s) = (if c \<noteq> 0 then Suc (strlen s) else 0)"

text \<open>The result of \<open>strchr\<close> is the offset of the character, or none for the null pointer.\<close>

fun strchr :: "byte list \<Rightarrow> byte \<Rightarrow> nat option" where
  "strchr [] c = None"
| "strchr (b # s) c = (if b = 0 then None else if b = c then Some 0 else map_option Suc (strchr s c))"

text \<open>The sum is kept in a 32-bit register.\<close>

fun atoi_loop :: "u32 \<Rightarrow> byte list \<Rightarrow> u32" where
  "atoi_loop n [] = n"
| "atoi_loop n (c # s) = (if 48 \<le> c \<and> c \<le> 57 then atoi_loop (n * 10 + ucast c - 48) s else n)"

definition atoi :: "byte list \<Rightarrow> int" where
  "atoi s = sint (atoi_loop 0 s)"

text \<open>\<open>gets\<close> stores the result in \<open>buf\<close>, the bytes of the line and a NUL.\<close>

fun gets_loop :: "nat \<Rightarrow> byte list \<Rightarrow> infile \<Rightarrow> byte list \<times> infile" where
  "gets_loop 0 acc f = (acc, f)"
| "gets_loop (Suc room) acc f =
     (case uread_call 1 f of
        (Some [c], f) \<Rightarrow> if c = 10 \<or> c = 13 then (acc @ [c], f) else gets_loop room (acc @ [c]) f
      | (_, f) \<Rightarrow> (acc, f))"

definition gets :: "nat \<Rightarrow> infile \<Rightarrow> byte list \<times> infile" where
  "gets mx f = (case gets_loop (mx - 1) [] f of (line, f) \<Rightarrow> (line @ [0], f))"

section \<open>Memory\<close>

definition memset :: "memory \<Rightarrow> u64 \<Rightarrow> int \<Rightarrow> nat \<Rightarrow> memory" where
  "memset m dst c n = memset_loop m dst (word_of_int c) 0 n"

definition memmove :: "memory \<Rightarrow> u64 \<Rightarrow> u64 \<Rightarrow> int \<Rightarrow> memory" where
  "memmove m dst src n =
     (if src > dst then copy_forward m dst src (nat n)
      else copy_backward m (dst + word_of_int n) (src + word_of_int n) (nat n))"

fun memcmp_from :: "view \<Rightarrow> view \<Rightarrow> nat \<Rightarrow> nat \<Rightarrow> int" where
  "memcmp_from p1 p2 i 0 = 0"
| "memcmp_from p1 p2 i (Suc n) =
     (if p1 i \<noteq> p2 i then uint (p1 i) - uint (p2 i) else memcmp_from p1 p2 (Suc i) n)"

definition memcmp :: "view \<Rightarrow> view \<Rightarrow> nat \<Rightarrow> int" where
  "memcmp p1 p2 n = memcmp_from p1 p2 0 n"

definition memcpy :: "memory \<Rightarrow> u64 \<Rightarrow> u64 \<Rightarrow> nat \<Rightarrow> memory" where
  "memcpy m dst src n = memmove m dst src (int n)"

section \<open>Reading\<close>

lemma uread_call_Some:
  assumes "uread_call n (bs, ks) = (Some cs, f)"
  shows "bs = cs @ fst f" and "length cs \<le> n" and "cs = [] \<longleftrightarrow> n = 0 \<or> bs = []"
    and "set (snd f) \<subseteq> set ks"
  using assms by (auto simp: uread_call_def Let_def split: list.splits option.splits)

lemma uread_call_total: "None \<notin> set ks \<Longrightarrow> \<exists>cs f. uread_call n (bs, ks) = (Some cs, f)"
  by (auto simp: uread_call_def Let_def split: list.splits option.splits)

section \<open>Strings and numbers\<close>

lemma strchr_Some:
  "strchr s c = Some i \<Longrightarrow> i < length s \<and> s ! i = c \<and> (\<forall>j < i. s ! j \<noteq> c) \<and> (\<forall>j \<le> i. s ! j \<noteq> 0)"
proof (induction s arbitrary: i)
  case (Cons b s)
  then show ?case by (cases i) (auto simp: nth_Cons split: if_splits nat.splits)
qed simp

lemma strchr_None: "0 \<notin> set s \<Longrightarrow> strchr s c = None \<longleftrightarrow> c \<notin> set s"
  by (induction s) auto

lemma strcmp_eq_0:
  assumes "0 \<notin> set p" and "0 \<notin> set q"
  shows "strcmp p q = 0 \<longleftrightarrow> p = q"
  using assms
proof (induction p q rule: strcmp.induct)
  case (1 p q)
  show ?case
  proof (cases "at_list p 0 \<noteq> 0 \<and> at_list p 0 = at_list q 0")
    case True
    with 1 show ?thesis
      by (subst strcmp.simps) (cases p; cases q; auto simp: at_list_def)
  next
    case False
    with 1(2,3) show ?thesis
      by (subst strcmp.simps) (cases p; cases q; auto simp: at_list_def uint_0_iff simp flip: word_uint_eq_iff)
  qed
qed

lemma atoi_loop_digits:
  assumes "\<forall>c \<in> set ds. 48 \<le> c \<and> c \<le> 57" and "rest = [] \<or> \<not> (48 \<le> hd rest \<and> hd rest \<le> 57)"
  shows "atoi_loop n (ds @ rest) = n * 10 ^ length ds + of_nat (num_value 10 ds)"
  using assms(1)
proof (induction ds arbitrary: n)
  case Nil
  with assms(2) show ?case by (cases rest) (auto simp: num_value_def)
next
  case (Cons c ds)
  have v: "foldl (\<lambda>v d. v * 10 + digit_val d) a ds = a * 10 ^ length ds + num_value 10 ds" for a
    by (induction ds rule: rev_induct) (simp_all add: num_value_def algebra_simps)
  have c: "unat c \<ge> 48" "\<not> 97 \<le> c" using Cons.prems by (auto simp: word_le_nat_alt)
  then have u: "(ucast c :: u32) = of_nat (digit_val c) + 48"
    by (simp add: digit_val_def of_nat_diff)
  show ?case
    using Cons v [of "digit_val c"] by (simp add: num_value_def algebra_simps u)
qed

text \<open>C27: The library routine that copies memory for the user programs agrees with the kernel's. They
  choose the direction by different tests, the kernel copies backwards only when the ranges overlap
  and the library whenever the source is not above the destination, but the memory after the copy
  is the same for every overlap and every length, negative ones included.\<close>

theorem memmove_agrees:
  assumes "unat src + nat n \<le> 2 ^ 64" and "unat dst + nat n \<le> 2 ^ 64"
  shows "memmove m dst src n = Cstring.memmove m dst src (nat n)"
proof (rule ext)
  fix x
  let ?r = "if unat (x - dst) < nat n then m (src + (x - dst)) else m x"
  have n: "nat n \<le> 2 ^ 64" using assms(1) by simp
  have "memmove m dst src n x = ?r"
  proof (cases "src > dst")
    case True
    then have "unat dst < unat src" by (simp add: word_less_nat_alt)
    then have "src + of_nat j \<noteq> dst + of_nat i" if "i < j" "j < nat n" for i j
      using no_wrap_eq [OF assms, of j i] that by auto
    with True n show ?thesis by (simp add: memmove_def copy_forward_apply)
  next
    case False
    then have "unat src \<le> unat dst" by (simp add: not_less word_le_nat_alt)
    then have "src + of_nat i \<noteq> dst + of_nat j" if "i < j" "j < nat n" for i j
      using no_wrap_eq [OF assms, of i j] that by auto
    with n have b: "copy_backward m (dst + of_nat (nat n)) (src + of_nat (nat n)) (nat n) x = ?r"
      by (intro copy_backward_apply) auto
    have "copy_backward m (dst + word_of_int n) (src + word_of_int n) (nat n) x = ?r"
    proof (cases "0 \<le> n")
      case True
      then have "(word_of_int n :: u64) = of_nat (nat n)" by simp
      with b show ?thesis by (simp only:)
    qed simp
    with False show ?thesis by (simp only: memmove_def if_False)
  qed
  then show "memmove m dst src n x = Cstring.memmove m dst src (nat n) x"
    using memmove_apply [OF assms] by simp
qed

theorem memmove_agrees_witness:
  "memmove (\<lambda>a. ucast a) 101 100 3 102 = 101 \<and> Cstring.memmove (\<lambda>a. ucast a) 101 100 3 102 = 101"
proof -
  have "memmove (\<lambda>a. ucast a) 101 100 3 = Cstring.memmove (\<lambda>a. ucast a) 101 100 (nat 3)"
    by (rule memmove_agrees) simp_all
  moreover have "nat 3 = 3" by simp
  moreover have "memmove (\<lambda>a. ucast a) 101 100 3 102 = 101" by (simp add: memmove_def numeral_3_eq_3)
  ultimately show ?thesis by (simp only: simp_thms)
qed

end
