(* ===== verification/Uprintf.thy ===== *)
theory Uprintf
  imports Ulib
begin

text \<open>
  Formatted output of the user programs, \<open>user/printf.c\<close>. Every \<open>putc\<close> is a \<open>write\<close> of one
  byte; the model of a routine is the list of the bytes it writes to its descriptor. The tests
  of a conversion are those of the kernel's \<open>printf\<close> in the same order, so \<open>parse_conv\<close> serves
  both; what differs is the state kept between the characters, the case of the hexadecimal
  digits and a \<open>%\<close> at the end of the format, which prints nothing here either.
\<close>

definition udigits :: "byte list" where
  "udigits = ascii ''0123456789ABCDEF''"

function udigits_rev :: "u64 \<Rightarrow> u64 \<Rightarrow> byte list" where
  "udigits_rev x base =
     udigits ! unat (x mod base) #
     (if base < 2 \<or> x div base = 0 then [] else udigits_rev (x div base) base)"
  by pat_completeness auto
termination
proof (relation "measure (\<lambda>(x, _). unat x)")
  fix x base :: u64
  assume a: "\<not> (base < 2 \<or> x div base = 0)"
  then have "x \<noteq> 0" and "2 \<le> base" by auto
  then have "0 < unat x" and "2 \<le> unat base" by (auto simp: unat_gt_0 word_le_nat_alt)
  then show "((x div base, base), x, base) \<in> measure (\<lambda>(x, _). unat x)"
    by (simp add: unat_div)
qed simp

declare udigits_rev.simps [simp del]

text \<open>The contents of \<open>buf\<close> in \<open>printint\<close>; it is sent from its end.\<close>

definition uprintint_buf :: "u64 \<Rightarrow> u64 \<Rightarrow> bool \<Rightarrow> byte list" where
  "uprintint_buf xx base sign =
     (let neg = (sign \<and> sint xx < 0); x = (if neg then - xx else xx)
      in udigits_rev x base @ (if neg then ascii ''-'' else []))"

definition uprintint :: "u64 \<Rightarrow> u64 \<Rightarrow> bool \<Rightarrow> byte list" where
  "uprintint xx base sign = rev (uprintint_buf xx base sign)"

fun uhexdigits :: "nat \<Rightarrow> u64 \<Rightarrow> byte list" where
  "uhexdigits 0 x = []"
| "uhexdigits (Suc k) x = udigits ! unat (drop_bit 60 x) # uhexdigits k (push_bit 4 x)"

definition uprintptr :: "u64 \<Rightarrow> byte list" where
  "uprintptr x = ascii ''0x'' @ uhexdigits 16 x"

fun uprint_reg :: "conv \<Rightarrow> u64 \<Rightarrow> byte list" where
  "uprint_reg CInt w = uprintint (word_of_int (cint w)) 10 True"
| "uprint_reg CLong w = uprintint w 10 True"
| "uprint_reg CUint w = uprintint (ucast (ucast w :: u32)) 10 False"
| "uprint_reg CUlong w = uprintint w 10 False"
| "uprint_reg CHex w = uprintint (ucast (ucast w :: u32)) 16 False"
| "uprint_reg CHexl w = uprintint w 16 False"
| "uprint_reg CPtr w = uprintptr w"
| "uprint_reg CChar w = [ucast w]"
| "uprint_reg _ w = []"

text \<open>
  \<open>percent\<close> says that \<open>state\<close> is \<open>'%'\<close>. The result is none when the arguments do not fit the format.
\<close>

fun vprintf_loop :: "bool \<Rightarrow> byte list \<Rightarrow> parg list \<Rightarrow> byte list option" where
  "vprintf_loop percent [] args = Some []"
| "vprintf_loop False (c0 # rest) args =
     (if c0 = of_char CHR ''%'' then vprintf_loop True rest args
      else map_option (\<lambda>out. c0 # out) (vprintf_loop False rest args))"
| "vprintf_loop True (c0 # rest) args =
     (case parse_conv (c0 # rest) of (cv, n) \<Rightarrow>
       (case cv of
          CPercent \<Rightarrow> map_option (\<lambda>out. ascii ''%'' @ out) (vprintf_loop False (drop (n - 1) rest) args)
        | CStop \<Rightarrow> Some []
        | CUnknown c \<Rightarrow> map_option (\<lambda>out. ascii ''%'' @ c # out) (vprintf_loop False (drop (n - 1) rest) args)
        | CStr \<Rightarrow>
            (case args of
               PStr str # args \<Rightarrow>
                 map_option (\<lambda>out. (case str of None \<Rightarrow> ascii ''(null)'' | Some cs \<Rightarrow> cs) @ out)
                   (vprintf_loop False (drop (n - 1) rest) args)
             | _ \<Rightarrow> None)
        | _ \<Rightarrow>
            (case args of
               PReg w # args \<Rightarrow> map_option (\<lambda>out. uprint_reg cv w @ out) (vprintf_loop False (drop (n - 1) rest) args)
             | _ \<Rightarrow> None)))"

definition vprintf :: "string \<Rightarrow> parg list \<Rightarrow> byte list option" where
  "vprintf fmt args = vprintf_loop False (ascii fmt) args"

section \<open>Numbers\<close>

lemma udigits_nth: "k < 10 \<Longrightarrow> udigits ! k = of_nat (48 + k)"
proof -
  have d: "udigits = [48, 49, 50, 51, 52, 53, 54, 55, 56, 57, 65, 66, 67, 68, 69, 70]"
    by (simp add: udigits_def ascii_def)
  assume "k < 10"
  then have "k \<in> set [0..<10]" by simp
  then show ?thesis unfolding d by (auto simp: upt_rec)
qed

lemma decimal_digit:
  assumes "k < 10"
  shows "48 \<le> (of_nat (48 + k) :: byte)" and "(of_nat (48 + k) :: byte) \<le> 57"
    and "digit_val (of_nat (48 + k) :: byte) = k"
proof -
  have u: "unat (of_nat (48 + k) :: byte) = 48 + k" using assms by (simp add: unat_of_nat take_bit_eq_mod del: of_nat_add)
  then show "48 \<le> (of_nat (48 + k) :: byte)" "(of_nat (48 + k) :: byte) \<le> 57"
    using assms by (simp_all add: word_le_nat_alt del: of_nat_add)
  moreover have "\<not> 97 \<le> (of_nat (48 + k) :: byte)"
    using u assms by (simp add: word_le_nat_alt del: of_nat_add)
  ultimately show "digit_val (of_nat (48 + k) :: byte) = k" using u by (simp add: digit_val_def del: of_nat_add)
qed

lemma udigits_rev_decimal:
  "num_value 10 (rev (udigits_rev x 10)) = unat x \<and> (\<forall>d \<in> set (udigits_rev x 10). 48 \<le> d \<and> d \<le> 57)"
proof (induction "unat x" arbitrary: x rule: less_induct)
  case less
  let ?d = "udigits ! unat (x mod 10)"
  have m: "unat (x mod 10) < 10" by (simp add: unat_mod)
  have d: "48 \<le> ?d" "?d \<le> 57" "digit_val ?d = unat x mod 10"
    unfolding udigits_nth [OF m] using decimal_digit [OF m] by (simp_all add: unat_mod)
  show ?case
  proof (cases "x div 10 = 0")
    case True
    then have "unat x div 10 = 0" using unat_div [of x 10] by simp
    with True d show ?thesis by (simp add: udigits_rev.simps [of x] num_value_def)
  next
    case False
    then have "unat (x div 10) < unat x"
      by (cases "x = 0") (simp_all add: unat_div unat_gt_0)
    from less.hyps [OF this] False d show ?thesis
      by (simp add: udigits_rev.simps [of x] num_value_snoc unat_div)
  qed
qed

text \<open>C28: Printing a number and reading it back. What the programs print with \<open>%d\<close> for a number that is
  not negative, followed by anything that is not a digit, is the number when \<open>atoi\<close> reads it.\<close>

theorem atoi_reads_printed:
  assumes "0 \<le> i" and "i < 2 ^ 31" and "rest = [] \<or> \<not> (48 \<le> hd rest \<and> hd rest \<le> 57)"
  shows "atoi (uprintint (word_of_int i) 10 True @ rest) = i"
proof -
  let ?x = "word_of_int i :: u64"
  have u: "uint ?x = i" using assms(1,2) by (simp add: uint_word_of_int)
  then have "\<not> sint ?x < 0" using assms(1,2) by (simp add: sint_u64)
  then have p: "uprintint ?x 10 True = rev (udigits_rev ?x 10)" by (simp add: uprintint_def uprintint_buf_def)
  have "atoi_loop 0 (rev (udigits_rev ?x 10) @ rest) = of_nat (unat ?x)"
    using udigits_rev_decimal [of ?x] assms(3) by (subst atoi_loop_digits) auto
  moreover have "unat ?x = nat i" using u by (simp add: unat_eq_nat_uint)
  ultimately have "atoi_loop 0 (uprintint ?x 10 True @ rest) = word_of_int i" using p assms(1) by simp
  then show ?thesis using assms(1,2) by (simp add: atoi_def int_word_sint)
qed

theorem atoi_reads_printed_witness:
  "uprintint 4096 10 True = ascii ''4096'' \<and> atoi (uprintint 4096 10 True @ ascii '' bytes'') = 4096"
proof -
  have "atoi (uprintint (word_of_int 4096) 10 True @ ascii '' bytes'') = 4096"
    by (rule atoi_reads_printed) (simp_all add: ascii_def)
  then show ?thesis
    by (simp add: uprintint_def uprintint_buf_def udigits_rev.simps udigits_def ascii_def sint_u64)
qed

end
