(* ===== verification/Grep.thy ===== *)
theory Grep
  imports Ulib
begin

text \<open>
  The search program, \<open>user/grep.c\<close>: the regular expression matcher and the loop that cuts the
  input into lines. A string is the list of its bytes, as in \<open>Ulib\<close>; the recursion of the
  matcher follows its pointers. The specification reads a pattern as a sequence of items, and
  the matcher is shown to find exactly the texts that have a match; the loop, whose buffer of
  1024 bytes is filled by reads of any size, is shown to print exactly the matching lines.
\<close>

abbreviation DOT :: byte where "DOT \<equiv> 46"
abbreviation STAR :: byte where "STAR \<equiv> 42"
abbreviation DOLLAR :: byte where "DOLLAR \<equiv> 36"
abbreviation CARET :: byte where "CARET \<equiv> 94"

section \<open>The matcher\<close>

function matchhere :: "byte list \<Rightarrow> byte list \<Rightarrow> bool"
  and matchstar :: "byte \<Rightarrow> byte list \<Rightarrow> byte list \<Rightarrow> bool" where
  "matchhere re text =
     (if at_list re 0 = 0 then True
      else if at_list re 1 = STAR then matchstar (at_list re 0) (drop 2 re) text
      else if at_list re 0 = DOLLAR \<and> at_list re 1 = 0 then at_list text 0 = 0
      else if at_list text 0 \<noteq> 0 \<and> (at_list re 0 = DOT \<or> at_list re 0 = at_list text 0)
      then matchhere (drop 1 re) (drop 1 text)
      else False)"
| "matchstar c re text =
     (if matchhere re text then True
      else if at_list text 0 \<noteq> 0 \<and> (at_list text 0 = c \<or> c = DOT) then matchstar c re (drop 1 text)
      else False)"
  by pat_completeness auto
termination
  by (relation "inv_image (less_than <*lex*> less_than)
        (case_sum (\<lambda>(re, text). (2 * length re, length text)) (\<lambda>(c, re, text). (Suc (2 * length re), length text)))")
    (auto simp: at_list_def split: if_splits)

declare matchhere.simps [simp del] matchstar.simps [simp del]

function match_from :: "byte list \<Rightarrow> byte list \<Rightarrow> bool" where
  "match_from re text =
     (if matchhere re text then True
      else if at_list text 0 \<noteq> 0 then match_from re (drop 1 text) else False)"
  by pat_completeness auto
termination
  by (relation "measure (\<lambda>(_, text). length text)") (auto simp: at_list_def split: if_splits)

declare match_from.simps [simp del]

definition match :: "byte list \<Rightarrow> byte list \<Rightarrow> bool" where
  "match re text = (if at_list re 0 = CARET then matchhere (drop 1 re) text else match_from re text)"

section \<open>The loop over the input\<close>

text \<open>
  The lines in the buffer from \<open>p\<close> on: what is printed, and what is left after the last newline.
\<close>

function grep_lines :: "byte list \<Rightarrow> byte list \<Rightarrow> byte list \<times> byte list" where
  "grep_lines pattern p =
     (case strchr p 10 of
        None \<Rightarrow> ([], p)
      | Some q \<Rightarrow>
          (case grep_lines pattern (drop (Suc q) p) of (out, rest) \<Rightarrow>
             ((if match pattern (take q p) then take (Suc q) p else []) @ out, rest)))"
  by pat_completeness auto
termination
  by (relation "measure (\<lambda>(_, p). length p)") (auto dest!: strchr_Some)

declare grep_lines.simps [simp del]

abbreviation GREP_BUF :: nat where "GREP_BUF \<equiv> 1024"

lemma uread_call_shrinks: "uread_call n f = (Some cs, f') \<Longrightarrow> cs \<noteq> [] \<Longrightarrow> length (fst f') < length (fst f)"
  by (cases f) (auto dest!: uread_call_Some(1))

text \<open>\<open>pend\<close> is the part of the buffer that is in use, its first \<open>m\<close> bytes.\<close>

function grep_loop :: "byte list \<Rightarrow> byte list \<Rightarrow> infile \<Rightarrow> byte list" where
  "grep_loop pattern pend f =
     (case uread_call (GREP_BUF - length pend - 1) f of
        (None, f') \<Rightarrow> []
      | (Some cs, f') \<Rightarrow>
          if cs = [] then []
          else (case grep_lines pattern (pend @ cs) of (out, rest) \<Rightarrow> out @ grep_loop pattern rest f'))"
  by pat_completeness auto
termination
  by (relation "measure (\<lambda>(_, _, f). length (fst f))") (auto intro: uread_call_shrinks [OF sym])

declare grep_loop.simps [simp del]

definition grep :: "byte list \<Rightarrow> infile \<Rightarrow> byte list" where
  "grep pattern fd = grep_loop pattern [] fd"

section \<open>Patterns as sequences of items\<close>

datatype item = One byte | Many byte

definition fits :: "byte \<Rightarrow> byte \<Rightarrow> bool" where
  "fits c b \<longleftrightarrow> c = DOT \<or> b = c"

text \<open>The items of a pattern, and whether it must reach the end of the text.\<close>

fun items :: "byte list \<Rightarrow> item list \<times> bool" where
  "items [] = ([], False)"
| "items [c] = (if c = DOLLAR then ([], True) else ([One c], False))"
| "items (c # d # re) =
     (if d = STAR then apfst (Cons (Many c)) (items re) else apfst (Cons (One c)) (items (d # re)))"

fun covers :: "item list \<Rightarrow> byte list \<Rightarrow> bool" where
  "covers [] u \<longleftrightarrow> u = []"
| "covers (One c # xs) u \<longleftrightarrow> (\<exists>b v. u = b # v \<and> fits c b \<and> covers xs v)"
| "covers (Many c # xs) u \<longleftrightarrow> (\<exists>v w. u = v @ w \<and> (\<forall>b \<in> set v. fits c b) \<and> covers xs w)"

definition begins :: "byte list \<Rightarrow> byte list \<Rightarrow> bool" where
  "begins re text \<longleftrightarrow> (\<exists>u v. text = u @ v \<and> covers (fst (items re)) u \<and> (snd (items re) \<longrightarrow> v = []))"

definition occurs :: "byte list \<Rightarrow> byte list \<Rightarrow> bool" where
  "occurs re text \<longleftrightarrow>
     (case re of
        [] \<Rightarrow> True
      | c # re' \<Rightarrow> if c = CARET then begins re' text else (\<exists>a b. text = a @ b \<and> begins re b))"

lemma begins_Nil [simp]: "begins [] text"
  by (simp add: begins_def)

lemma begins_Many:
  "begins (c # STAR # re) text \<longleftrightarrow> (\<exists>v w. text = v @ w \<and> (\<forall>b \<in> set v. fits c b) \<and> begins re w)"
proof -
  have i: "fst (items (c # STAR # re)) = Many c # fst (items re)" "snd (items (c # STAR # re)) = snd (items re)"
    by simp_all
  show ?thesis
  proof
    assume "begins (c # STAR # re) text"
    then obtain u x where u: "text = u @ x" "covers (Many c # fst (items re)) u" "snd (items re) \<longrightarrow> x = []"
      unfolding begins_def i by blast
    then obtain v w where "u = v @ w" "\<forall>b \<in> set v. fits c b" "covers (fst (items re)) w" by auto
    with u show "\<exists>v w. text = v @ w \<and> (\<forall>b \<in> set v. fits c b) \<and> begins re w"
      unfolding begins_def by (intro exI [of _ v] exI [of _ "w @ x"]) auto
  next
    assume "\<exists>v w. text = v @ w \<and> (\<forall>b \<in> set v. fits c b) \<and> begins re w"
    then obtain v w x where "text = v @ w @ x" "\<forall>b \<in> set v. fits c b" "covers (fst (items re)) w" "snd (items re) \<longrightarrow> x = []"
      unfolding begins_def by blast
    then show "begins (c # STAR # re) text"
      unfolding begins_def i by (intro exI [of _ "v @ w"] exI [of _ x]) auto
  qed
qed

lemma begins_One:
  assumes "\<not> (\<exists>re'. re = STAR # re')" and "\<not> (c = DOLLAR \<and> re = [])"
  shows "begins (c # re) text \<longleftrightarrow> (\<exists>b v. text = b # v \<and> fits c b \<and> begins re v)"
proof -
  have "items (c # re) = apfst (Cons (One c)) (items re)" using assms by (cases re) auto
  then have i: "fst (items (c # re)) = One c # fst (items re)" "snd (items (c # re)) = snd (items re)"
    by simp_all
  show ?thesis unfolding begins_def i covers.simps by (metis append_Cons)
qed

lemma begins_dollar: "begins [DOLLAR] text \<longleftrightarrow> text = []"
  by (auto simp: begins_def)

lemma star_Cons:
  "(\<exists>v w. b # t = v @ w \<and> (\<forall>x \<in> set v. P x) \<and> Q w) \<longleftrightarrow> Q (b # t) \<or> P b \<and> (\<exists>v w. t = v @ w \<and> (\<forall>x \<in> set v. P x) \<and> Q w)"
proof
  assume "\<exists>v w. b # t = v @ w \<and> (\<forall>x \<in> set v. P x) \<and> Q w"
  then obtain v w where "b # t = v @ w" "\<forall>x \<in> set v. P x" "Q w" by blast
  then show "Q (b # t) \<or> P b \<and> (\<exists>v w. t = v @ w \<and> (\<forall>x \<in> set v. P x) \<and> Q w)" by (cases v) auto
next
  assume "Q (b # t) \<or> P b \<and> (\<exists>v w. t = v @ w \<and> (\<forall>x \<in> set v. P x) \<and> Q w)"
  then consider "Q (b # t)" | v w where "P b" "t = v @ w" "\<forall>x \<in> set v. P x" "Q w" by blast
  then show "\<exists>v w. b # t = v @ w \<and> (\<forall>x \<in> set v. P x) \<and> Q w"
  proof cases
    case 1
    then show ?thesis by (intro exI [of _ "[]"] exI [of _ "b # t"]) simp
  next
    case 2
    then show ?thesis by (intro exI [of _ "b # v"] exI [of _ w]) simp
  qed
qed

lemma matchhere_iff:
  shows "0 \<notin> set re \<Longrightarrow> 0 \<notin> set tx \<Longrightarrow> matchhere re tx \<longleftrightarrow> begins re tx"
    and "0 \<notin> set re' \<Longrightarrow> 0 \<notin> set tx' \<Longrightarrow>
         matchstar c re' tx' \<longleftrightarrow> (\<exists>v w. tx' = v @ w \<and> (\<forall>b \<in> set v. fits c b) \<and> begins re' w)"
proof (induction re tx and c re' tx' rule: matchhere_matchstar.induct)
  case (1 re tx)
  show ?case
  proof (cases re)
    case Nil
    then show ?thesis by (subst matchhere.simps) (simp add: at_list_def)
  next
    case (Cons c re1)
    then have c0: "at_list re 0 = c" "c \<noteq> 0" "0 \<notin> set re1" using 1(3) by (auto simp: at_list_def)
    consider (star) re2 where "re1 = STAR # re2" | (dollar) "c = DOLLAR" "re1 = []"
      | (one) "\<not> (\<exists>re2. re1 = STAR # re2)" "\<not> (c = DOLLAR \<and> re1 = [])" by auto
    then show ?thesis
    proof cases
      case star
      with 1 Cons c0 show ?thesis by (subst matchhere.simps) (simp add: begins_Many at_list_def)
    next
      case dollar
      with 1(4) Cons c0 show ?thesis by (subst matchhere.simps) (cases tx, auto simp: begins_dollar at_list_def)
    next
      case one
      have ns: "at_list re 1 \<noteq> STAR" "\<not> (c = DOLLAR \<and> at_list re 1 = 0)"
        using one Cons c0(3) by (cases re1; auto simp: at_list_def)+
      show ?thesis
      proof (cases tx)
        case Nil
        with ns c0 Cons show ?thesis by (subst matchhere.simps) (simp add: begins_One [OF one] at_list_def)
      next
        case (Cons b tx1)
        with 1(4) have b: "at_list tx 0 = b" "b \<noteq> 0" "0 \<notin> set tx1" by (auto simp: at_list_def)
        have "matchhere re tx \<longleftrightarrow> fits c b \<and> matchhere re1 tx1"
          using ns c0 b Cons \<open>re = c # re1\<close> by (subst matchhere.simps) (auto simp: fits_def)
        moreover have "matchhere re1 tx1 \<longleftrightarrow> begins re1 tx1" if "fits c b"
          using 1(2) ns c0 b Cons \<open>re = c # re1\<close> that by (auto simp: fits_def)
        ultimately show ?thesis using Cons \<open>re = c # re1\<close> by (auto simp: begins_One [OF one])
      qed
    qed
  qed
next
  case (2 c re tx)
  have IH: "matchhere re tx \<longleftrightarrow> begins re tx" using 2(1) 2(3,4) by blast
  show ?case
  proof (cases tx)
    case Nil
    with IH show ?thesis by (subst matchstar.simps) (simp add: at_list_def)
  next
    case (Cons b tx1)
    with 2(4) have b: "at_list tx 0 = b" "b \<noteq> 0" "0 \<notin> set tx1" by (auto simp: at_list_def)
    have "matchstar c re tx \<longleftrightarrow> begins re tx \<or> fits c b \<and> matchstar c re tx1"
      using IH b Cons by (subst matchstar.simps) (auto simp: fits_def)
    moreover have "matchstar c re tx1 \<longleftrightarrow> (\<exists>v w. tx1 = v @ w \<and> (\<forall>b \<in> set v. fits c b) \<and> begins re w)"
      if "\<not> begins re tx" "fits c b"
      using 2(2) 2(3) IH that b Cons by (auto simp: fits_def)
    ultimately show ?thesis unfolding Cons star_Cons by blast
  qed
qed

lemma match_occurs:
  assumes "0 \<notin> set re" and "0 \<notin> set text"
  shows "match re text \<longleftrightarrow> occurs re text"
proof -
  have sub: "match_from re text' \<longleftrightarrow> (\<exists>a b. text' = a @ b \<and> begins re b)" if "0 \<notin> set text'" for text'
    using that
  proof (induction text')
    case Nil
    then show ?case using assms(1) by (simp add: match_from.simps [of re] matchhere_iff at_list_def)
  next
    case (Cons b text')
    then show ?case using assms(1)
      by (subst match_from.simps) (auto simp: matchhere_iff at_list_def Cons_eq_append_conv)
  qed
  show ?thesis
  proof (cases re)
    case Nil
    then show ?thesis using assms sub [OF assms(2)] by (auto simp: match_def occurs_def at_list_def)
  next
    case (Cons c re')
    then show ?thesis using assms sub [OF assms(2)] matchhere_iff(1) [of re' "text"]
      by (auto simp: match_def occurs_def at_list_def)
  qed
qed

text \<open>C25: The regular expression matcher finds a match exactly when there is one. A pattern is a sequence of
  items, a character or \<open>.\<close> with an optional star, bound to the beginning of the text by a leading
  \<open>^\<close> and to its end by a final \<open>$\<close>: \<open>match\<close> succeeds if and only if some part of the text, starting
  where the pattern allows, is covered by the items in order. The search of the program, which tries
  the shortest repetition first, misses nothing.\<close>

theorem match_iff_occurs:
  assumes "0 \<notin> set re" and "0 \<notin> set text"
  shows "match re text \<longleftrightarrow> occurs re text"
  using assms by (rule match_occurs)

theorem match_iff_occurs_witness:
  "match (ascii ''^ab*c$'') (ascii ''abbbc'') \<and> occurs (ascii ''^ab*c$'') (ascii ''abbbc'')"
proof -
  have "match (ascii ''^ab*c$'') (ascii ''abbbc'')"
    by (simp add: match_def matchhere.simps matchstar.simps at_list_def ascii_def)
  with match_iff_occurs [of "ascii ''^ab*c$''" "ascii ''abbbc''"] show ?thesis by (simp add: ascii_def)
qed

section \<open>Lines\<close>

text \<open>The complete lines of an input, without their newlines, and what follows the last newline.\<close>

fun split_lines :: "byte list \<Rightarrow> byte list list \<times> byte list" where
  "split_lines [] = ([], [])"
| "split_lines (c # cs) =
     (case split_lines cs of (ls, r) \<Rightarrow>
        if c = 10 then ([] # ls, r)
        else (case ls of [] \<Rightarrow> ([], c # r) | l # ls' \<Rightarrow> ((c # l) # ls', r)))"

definition chosen :: "byte list \<Rightarrow> byte list list \<Rightarrow> byte list" where
  "chosen pattern ls = concat (map (\<lambda>l. l @ [10]) (filter (match pattern) ls))"

lemma split_lines_none: "10 \<notin> set u \<Longrightarrow> split_lines u = ([], u)"
  by (induction u) auto

lemma split_lines_first: "10 \<notin> set u \<Longrightarrow> split_lines (u @ 10 # v) = (u # fst (split_lines v), snd (split_lines v))"
  by (induction u) (auto split: prod.split)

lemma split_lines_rest: "10 \<notin> set (snd (split_lines u))"
  by (induction u) (auto split: prod.splits list.splits)

lemma split_lines_append:
  "split_lines (u @ v) = (fst (split_lines u) @ fst (split_lines (snd (split_lines u) @ v)),
                          snd (split_lines (snd (split_lines u) @ v)))"
proof (induction u)
  case (Cons c u)
  then show ?case by (auto split: prod.splits list.splits)
qed simp

lemma split_lines_member: "l \<in> set (fst (split_lines u)) \<Longrightarrow> set l \<subseteq> set u"
proof (induction u arbitrary: l)
  case (Cons c u)
  then show ?case by (cases "split_lines u"; cases "fst (split_lines u)") (fastforce split: if_splits)+
qed simp

lemma split_lines_bytes: "set (snd (split_lines u)) \<subseteq> set u"
  by (induction u) (auto split: prod.splits list.splits)

lemma grep_lines_eq:
  "0 \<notin> set p \<Longrightarrow> grep_lines pattern p = (chosen pattern (fst (split_lines p)), snd (split_lines p))"
proof (induction pattern p rule: grep_lines.induct)
  case (1 pattern p)
  show ?case
  proof (cases "strchr p 10")
    case None
    then show ?thesis using strchr_None [OF 1(2), of 10]
      by (simp add: grep_lines.simps [of pattern p] split_lines_none chosen_def)
  next
    case (Some q)
    note q = strchr_Some [OF Some]
    then have p: "p = take q p @ 10 # drop (Suc q) p" by (metis id_take_nth_drop)
    have no: "10 \<notin> set (take q p)" using q by (auto simp: in_set_conv_nth)
    have tk: "take (Suc q) p = take q p @ [10]" using q by (simp add: take_Suc_conv_app_nth)
    have "0 \<notin> set (drop (Suc q) p)" using 1(2) by (auto dest: in_set_dropD)
    with 1(1) [OF Some] have "grep_lines pattern (drop (Suc q) p)
        = (chosen pattern (fst (split_lines (drop (Suc q) p))), snd (split_lines (drop (Suc q) p)))" by simp
    moreover have "split_lines p = (take q p # fst (split_lines (drop (Suc q) p)), snd (split_lines (drop (Suc q) p)))"
      using split_lines_first [OF no, of "drop (Suc q) p"] p by simp
    ultimately show ?thesis by (subst grep_lines.simps) (simp add: Some tk chosen_def)
  qed
qed

lemma grep_loop_eq:
  assumes "0 \<notin> set (pend @ bs)" and "None \<notin> set ks" and "10 \<notin> set pend"
    and "\<forall>l \<in> set (fst (split_lines (pend @ bs))). length l < GREP_BUF - 1"
  shows "grep_loop pattern pend (bs, ks) = chosen pattern (fst (split_lines (pend @ bs)))"
  using assms
proof (induction "length bs" arbitrary: pend bs ks rule: less_induct)
  case less
  from uread_call_total [OF less.prems(2)] obtain cs f where
    r: "uread_call (GREP_BUF - length pend - 1) (bs, ks) = (Some cs, f)" by blast
  note rd = uread_call_Some [OF r]
  have eq: "grep_loop pattern pend (bs, ks) = (if cs = [] then []
      else (case grep_lines pattern (pend @ cs) of (out, rest) \<Rightarrow> out @ grep_loop pattern rest f))"
    by (subst grep_loop.simps) (simp only: r prod.case option.case)
  show ?case
  proof (cases "cs = []")
    case True
    have "fst (split_lines (pend @ bs)) = []"
    proof (cases "10 \<in> set bs")
      case newline: True
      then obtain u v where uv: "bs = u @ 10 # v" "10 \<notin> set u" by (meson split_list_first)
      with less.prems(3) have "fst (split_lines (pend @ bs)) = (pend @ u) # fst (split_lines v)"
        using split_lines_first [of "pend @ u" v] by simp
      with less.prems(4) have "length pend < GREP_BUF - 1" by simp
      with True rd(3) newline show ?thesis by simp
    next
      case False
      with less.prems(3) show ?thesis by (simp add: split_lines_none)
    qed
    with True eq show ?thesis by (simp add: chosen_def)
  next
    case False
    obtain bs' ks' where f: "f = (bs', ks')" by (cases f)
    with rd have bs: "bs = cs @ bs'" and ks': "None \<notin> set ks'" using less.prems(2) by auto
    let ?rest = "snd (split_lines (pend @ cs))"
    have sp: "fst (split_lines (pend @ bs)) = fst (split_lines (pend @ cs)) @ fst (split_lines (?rest @ bs'))"
      using split_lines_append [of "pend @ cs" bs'] by (simp add: bs)
    have "grep_loop pattern ?rest (bs', ks') = chosen pattern (fst (split_lines (?rest @ bs')))"
    proof (rule less.hyps)
      show "length bs' < length bs" using False by (simp add: bs)
      show "0 \<notin> set (?rest @ bs')" using less.prems(1) split_lines_bytes [of "pend @ cs"] by (auto simp: bs)
      show "10 \<notin> set ?rest" by (rule split_lines_rest)
      show "\<forall>l \<in> set (fst (split_lines (?rest @ bs'))). length l < GREP_BUF - 1" using less.prems(4) sp by simp
    qed (rule ks')
    moreover have "0 \<notin> set (pend @ cs)" using less.prems(1) by (auto simp: bs)
    ultimately show ?thesis using eq False grep_lines_eq [of "pend @ cs" pattern]
      by (simp add: f sp chosen_def)
  qed
qed

text \<open>C26: \<open>grep\<close> prints the lines that contain a match, each with its newline and in their order, and
  nothing else, however the kernel cuts the input into the pieces that \<open>read\<close> returns. It holds for
  every input without NUL and read errors whose complete lines are shorter than the buffer; a last
  line without a newline is never printed.\<close>

theorem grep_prints_matching_lines:
  assumes "0 \<notin> set bs" and "0 \<notin> set pattern" and "None \<notin> set ks"
    and "\<forall>l \<in> set (fst (split_lines bs)). length l < GREP_BUF - 1"
  shows "grep pattern (bs, ks) = concat (map (\<lambda>l. l @ [10]) (filter (occurs pattern) (fst (split_lines bs))))"
proof -
  have "grep pattern (bs, ks) = chosen pattern (fst (split_lines bs))"
    unfolding grep_def using assms grep_loop_eq [of "[]" bs ks pattern] by simp
  moreover have "filter (match pattern) (fst (split_lines bs)) = filter (occurs pattern) (fst (split_lines bs))"
  proof (rule filter_cong [OF refl])
    fix l assume "l \<in> set (fst (split_lines bs))"
    then have "0 \<notin> set l" using assms(1) split_lines_member [of l bs] by auto
    with assms(2) show "match pattern l = occurs pattern l" by (simp add: match_occurs)
  qed
  ultimately show ?thesis by (simp add: chosen_def)
qed

theorem grep_prints_matching_lines_witness:
  "grep (ascii ''b$'') (ascii ''ab'' @ [10] @ ascii ''bc'' @ [10] @ ascii ''xb'', [Some 3, Some 0]) = ascii ''ab'' @ [10]"
proof -
  let ?bs = "ascii ''ab'' @ [10] @ ascii ''bc'' @ [10] @ ascii ''xb''"
  have ls: "fst (split_lines ?bs) = [ascii ''ab'', ascii ''bc'']" by (simp add: ascii_def)
  have "match (ascii ''b$'') (ascii ''ab'') \<and> \<not> match (ascii ''b$'') (ascii ''bc'')"
    by (simp add: match_def match_from.simps matchhere.simps at_list_def ascii_def)
  then have "occurs (ascii ''b$'') (ascii ''ab'') \<and> \<not> occurs (ascii ''b$'') (ascii ''bc'')"
    using match_occurs [of "ascii ''b$''" "ascii ''ab''"] match_occurs [of "ascii ''b$''" "ascii ''bc''"]
    by (simp add: ascii_def)
  moreover have "grep (ascii ''b$'') (?bs, [Some 3, Some 0])
      = concat (map (\<lambda>l. l @ [10]) (filter (occurs (ascii ''b$'')) (fst (split_lines ?bs))))"
    by (rule grep_prints_matching_lines) (simp_all add: ls, simp_all add: ascii_def)
  ultimately show ?thesis unfolding ls by simp
qed

end
