(* ===== verification/Wc.thy ===== *)
theory Wc
  imports Ulib
begin

text \<open>
  The two programs that count lines, words and characters: \<open>user/wc.c\<close> of xv6, which reads its input
  in pieces of 512 bytes, and \<open>custom_wc\<close> of the utilities (\<open>src/custom_wc.c\<close>), which reads it
  character by character. Both keep a flag for being inside a word; the specification says where
  words begin. They differ in what separates words: the form feed does only for the second.
\<close>

section \<open>\<open>wc\<close> of xv6\<close>

record wcount =
  wc_l :: int
  wc_w :: int
  wc_c :: int
  wc_inword :: bool

definition wc_sep :: "byte \<Rightarrow> bool" where
  "wc_sep b \<longleftrightarrow> strchr [32, 13, 9, 10, 11] b \<noteq> None"

fun wc_bytes :: "byte list \<Rightarrow> wcount \<Rightarrow> wcount" where
  "wc_bytes [] k = k"
| "wc_bytes (b # bs) k =
     (let k = k\<lparr>wc_c := wc_c k + 1\<rparr>;
          k = (if b = 10 then k\<lparr>wc_l := wc_l k + 1\<rparr> else k);
          k = (if wc_sep b then k\<lparr>wc_inword := False\<rparr>
               else if \<not> wc_inword k then k\<lparr>wc_w := wc_w k + 1, wc_inword := True\<rparr> else k)
      in wc_bytes bs k)"

lemma uread_shrinks: "uread_call n f = (Some cs, f') \<Longrightarrow> cs \<noteq> [] \<Longrightarrow> length (fst f') < length (fst f)"
  by (cases f) (auto dest!: uread_call_Some(1))

text \<open>None: the read error, after which the program exits with status 1.\<close>

function wc_loop :: "wcount \<Rightarrow> infile \<Rightarrow> wcount option" where
  "wc_loop k f =
     (case uread_call 512 f of
        (None, f') \<Rightarrow> None
      | (Some cs, f') \<Rightarrow> if cs = [] then Some k else wc_loop (wc_bytes cs k) f')"
  by pat_completeness auto
termination
  by (relation "measure (\<lambda>(_, f). length (fst f))") (auto intro: uread_shrinks [OF sym])

declare wc_loop.simps [simp del]

definition wc :: "infile \<Rightarrow> (int \<times> int \<times> int) option" where
  "wc fd = map_option (\<lambda>k. (wc_l k, wc_w k, wc_c k))
     (wc_loop \<lparr>wc_l = 0, wc_w = 0, wc_c = 0, wc_inword = False\<rparr> fd)"

section \<open>\<open>custom_wc\<close>\<close>

record Counts =
  lines :: int
  words :: int
  chars :: int

text \<open>\<open>isspace\<close> of the C locale.\<close>

definition isspace :: "byte \<Rightarrow> bool" where
  "isspace ch \<longleftrightarrow> ch = 32 \<or> 9 \<le> ch \<and> ch \<le> 13"

fun count_chars :: "byte list \<Rightarrow> bool \<Rightarrow> Counts \<Rightarrow> Counts" where
  "count_chars [] in_word out = out"
| "count_chars (ch # fp) in_word out =
     (let out = out\<lparr>chars := chars out + 1\<rparr>;
          out = (if ch = 10 then out\<lparr>lines := lines out + 1\<rparr> else out)
      in if isspace ch then count_chars fp False out
         else if \<not> in_word then count_chars fp True (out\<lparr>words := words out + 1\<rparr>)
         else count_chars fp in_word out)"

definition count_stream :: "byte list \<Rightarrow> Counts" where
  "count_stream fp = count_chars fp False \<lparr>lines = 0, words = 0, chars = 0\<rparr>"

section \<open>Where words begin\<close>

definition word_starts :: "(byte \<Rightarrow> bool) \<Rightarrow> bool \<Rightarrow> byte list \<Rightarrow> nat set" where
  "word_starts sep inw bs =
     {i. i < length bs \<and> \<not> sep (bs ! i) \<and> (if i = 0 then \<not> inw else sep (bs ! (i - 1)))}"

lemma finite_word_starts [simp]: "finite (word_starts sep inw bs)"
  by (rule finite_subset [of _ "{..<length bs}"]) (auto simp: word_starts_def)

lemma word_starts_Cons:
  "word_starts sep inw (b # bs) =
     (if sep b \<or> inw then {} else {0}) \<union> Suc ` word_starts sep (\<not> sep b) bs"
proof (rule set_eqI)
  fix i
  show "i \<in> word_starts sep inw (b # bs) \<longleftrightarrow>
      i \<in> (if sep b \<or> inw then {} else {0}) \<union> Suc ` word_starts sep (\<not> sep b) bs"
    by (cases i) (auto simp: word_starts_def nth_Cons split: nat.splits)
qed

lemma card_word_starts_Cons:
  "card (word_starts sep inw (b # bs)) =
     (if sep b \<or> inw then 0 else 1) + card (word_starts sep (\<not> sep b) bs)"
  by (simp add: word_starts_Cons card_image card_insert_if image_iff)

lemma word_starts_Nil [simp]: "word_starts sep inw [] = {}"
  by (simp add: word_starts_def)

lemma wc_bytes_counts:
  "wc_bytes bs k = k\<lparr>wc_l := wc_l k + int (count_list bs 10), wc_w := wc_w k + int (card (word_starts wc_sep (wc_inword k) bs)),
     wc_c := wc_c k + int (length bs), wc_inword := (if bs = [] then wc_inword k else \<not> wc_sep (last bs))\<rparr>"
  by (induction bs arbitrary: k) (auto simp: Let_def card_word_starts_Cons)

lemma wc_bytes_append: "wc_bytes (as @ bs) k = wc_bytes bs (wc_bytes as k)"
  by (induction as arbitrary: k) (simp_all add: Let_def)

lemma wc_loop_eq: "None \<notin> set ks \<Longrightarrow> wc_loop k (bs, ks) = Some (wc_bytes bs k)"
proof (induction "length bs" arbitrary: k bs ks rule: less_induct)
  case less
  from uread_call_total [OF less.prems] obtain cs f where r: "uread_call 512 (bs, ks) = (Some cs, f)" by blast
  note rd = uread_call_Some [OF r]
  obtain bs' ks' where f: "f = (bs', ks')" by (cases f)
  have eq: "wc_loop k (bs, ks) = (if cs = [] then Some k else wc_loop (wc_bytes cs k) (bs', ks'))"
    by (subst wc_loop.simps) (simp only: r f prod.case option.case)
  show ?case
  proof (cases "cs = []")
    case True
    with rd(3) eq show ?thesis by simp
  next
    case False
    have bs: "bs = cs @ bs'" and "set ks' \<subseteq> set ks" using rd(1,4) by (simp_all add: f)
    then have "length bs' < length bs" "None \<notin> set ks'" using False less.prems by auto
    from less.hyps [OF this] False show ?thesis unfolding eq by (simp add: bs wc_bytes_append)
  qed
qed

lemma count_chars_counts:
  "count_chars bs inw k = k\<lparr>lines := lines k + int (count_list bs 10),
     words := words k + int (card (word_starts isspace inw bs)), chars := chars k + int (length bs)\<rparr>"
  by (induction bs inw k rule: count_chars.induct) (auto simp: Let_def card_word_starts_Cons)



end
