(* ===== verification/Utils.thy ===== *)
theory Utils
  imports Wc
begin

text \<open>
  The command line utilities of the second project (\<open>src/custom_echo.c\<close>, \<open>custom_wc.c\<close>, \<open>custom_grep.c\<close>,
  \<open>custom_cp.c\<close>, \<open>custom_cat.c\<close>, \<open>custom_ls.c\<close>) and the parsing of a command line in \<open>src/shell.c\<close>. An
  argument is the list of its characters. What a program writes to standard output is a list of bytes, with the
  fixed texts of help and version as their own outcomes. A stream that is read with \<open>fgetc\<close> is the
  list of its bytes; descriptors that are read with \<open>read\<close> are those of \<open>Ulib\<close>. The matcher of
  \<open>custom_grep\<close> is \<open>regexec\<close> of the C library, an argument of the definitions.
\<close>

abbreviation BACKSLASH :: byte where "BACKSLASH \<equiv> 92"
abbreviation MINUS :: byte where "MINUS \<equiv> 45"

section \<open>\<open>custom_echo\<close>\<close>

text \<open>Up to \<open>k\<close> octal digits: their value, and what follows.\<close>

fun octal_digits :: "nat \<Rightarrow> nat \<Rightarrow> byte list \<Rightarrow> nat \<times> byte list" where
  "octal_digits (Suc k) octal (c # cs) =
     (if 48 \<le> c \<and> c \<le> 55 then octal_digits k (octal * 8 + (unat c - 48)) cs else (octal, c # cs))"
| "octal_digits k octal cs = (octal, cs)"

lemma octal_digits_shrinks: "octal_digits k v cs = (w, rest) \<Longrightarrow> length rest \<le> length cs"
  by (induction k v cs rule: octal_digits.induct) (auto split: if_splits)

definition escape_char :: "byte \<Rightarrow> byte option" where
  "escape_char c =
     (if c = BACKSLASH then Some BACKSLASH else if c = of_char CHR ''n'' then Some 10
      else if c = of_char CHR ''t'' then Some 9 else if c = of_char CHR ''r'' then Some 13
      else if c = of_char CHR ''a'' then Some 7 else if c = of_char CHR ''b'' then Some 8 else None)"

text \<open>The bytes stored in \<open>buf\<close> before its final NUL.\<close>

function process_escapes :: "byte list \<Rightarrow> byte list" where
  "process_escapes src =
     (case src of
        [] \<Rightarrow> []
      | [c] \<Rightarrow> [c]
      | c # d # cs \<Rightarrow>
          if c = BACKSLASH
          then (case escape_char d of
                  Some e \<Rightarrow> e # process_escapes cs
                | None \<Rightarrow>
                    if d = of_char CHR ''0''
                    then (case octal_digits 3 0 cs of (octal, rest) \<Rightarrow> of_nat octal # process_escapes rest)
                    else BACKSLASH # d # process_escapes cs)
          else c # process_escapes (d # cs))"
  by pat_completeness auto
termination
  by (relation "measure length") (auto dest!: octal_digits_shrinks [OF sym])

declare process_escapes.simps [simp del]

text \<open>The flags of one argument: what they set, and whether all of them are known.\<close>

fun echo_flags :: "byte list \<Rightarrow> bool \<times> bool \<Rightarrow> (bool \<times> bool) \<times> bool" where
  "echo_flags [] fl = (fl, True)"
| "echo_flags (c # cs) (no_newline, escape_enabled) =
     (if c = of_char CHR ''n'' then echo_flags cs (True, escape_enabled)
      else if c = of_char CHR ''e'' then echo_flags cs (no_newline, True)
      else if c = of_char CHR ''E'' then echo_flags cs (no_newline, False)
      else ((no_newline, escape_enabled), False))"

datatype echo_args = EchoUsage | EchoVersion | EchoPrint "bool \<times> bool" "byte list list"

fun echo_scan :: "byte list list \<Rightarrow> bool \<times> bool \<Rightarrow> echo_args" where
  "echo_scan [] fl = EchoPrint fl []"
| "echo_scan (a # argv) fl =
     (if a = ascii ''--help'' then EchoUsage
      else if a = ascii ''--version'' then EchoVersion
      else if at_list a 0 = MINUS \<and> at_list a 1 \<noteq> 0
      then (case echo_flags (drop 1 a) fl of (fl, valid) \<Rightarrow>
              if valid then echo_scan argv fl else EchoPrint fl (a # argv))
      else EchoPrint fl (a # argv))"

text \<open>\<open>fputs\<close> stops at the first NUL, which an octal escape may have stored.\<close>

definition fputs :: "byte list \<Rightarrow> byte list" where
  "fputs s = takeWhile (\<lambda>c. c \<noteq> 0) s"

fun echo_strings :: "bool \<Rightarrow> byte list list \<Rightarrow> byte list" where
  "echo_strings esc [] = []"
| "echo_strings esc [a] = fputs (if esc then process_escapes a else a)"
| "echo_strings esc (a # b # argv) = fputs (if esc then process_escapes a else a) @ [32] @ echo_strings esc (b # argv)"

datatype echo_result = Usage | Version | Printed "byte list"

definition custom_echo :: "byte list list \<Rightarrow> echo_result" where
  "custom_echo argv =
     (case echo_scan argv (False, False) of
        EchoUsage \<Rightarrow> Usage
      | EchoVersion \<Rightarrow> Version
      | EchoPrint (no_newline, esc) strs \<Rightarrow> Printed (echo_strings esc strs @ (if no_newline then [] else [10])))"

text \<open>C30: The buffer of the escape processing is large enough. \<open>process_escapes\<close> allocates one byte more than the
  length of its argument, and the bytes it stores with the final NUL never exceed that: no escape
  sequence is longer than its source.\<close>

theorem process_escapes_fits: "length (process_escapes src @ [0]) \<le> length src + 1"
proof (induction src rule: process_escapes.induct)
  case (1 src)
  show ?case
  proof (cases src)
    case (Cons c tl)
    show ?thesis
    proof (cases tl)
      case Nil
      then show ?thesis by (simp add: Cons process_escapes.simps [of "[c]"])
    next
      case (Cons d cs)
      obtain v rest where o: "octal_digits 3 0 cs = (v, rest)" by (cases "octal_digits 3 0 cs")
      note IH = 1 [OF \<open>src = c # tl\<close> Cons]
      show ?thesis
        using IH octal_digits_shrinks [OF o] by (subst process_escapes.simps)
          (auto simp: \<open>src = c # tl\<close> Cons o split: option.splits)
    qed
  qed (simp add: process_escapes.simps)
qed


section \<open>\<open>custom_grep\<close>\<close>

text \<open>
  \<open>read_line\<close> with its growing buffer: \<open>alloc n\<close> says whether \<open>realloc\<close> finds \<open>n\<close> bytes, and \<open>RlFault\<close> is a
  store behind the end of the buffer.
\<close>

datatype rline = RlFail | RlFault | RlLine "byte list" nat

definition grown :: "nat \<Rightarrow> nat \<Rightarrow> nat" where
  "grown len capacity = (if len + 1 \<ge> capacity then if capacity = 0 then 128 else capacity * 2 else capacity)"

fun read_chars :: "(nat \<Rightarrow> bool) \<Rightarrow> byte list \<Rightarrow> nat \<Rightarrow> byte list \<Rightarrow> rline \<times> byte list" where
  "read_chars alloc data capacity [] = (RlLine data capacity, [])"
| "read_chars alloc data capacity (ch # fp) =
     (let new_capacity = grown (length data) capacity
      in if length data + 1 \<ge> capacity \<and> \<not> alloc new_capacity then (RlFail, fp)
         else if length data \<ge> new_capacity then (RlFault, fp)
         else if ch = 10 then (RlLine (data @ [ch]) new_capacity, fp)
         else read_chars alloc (data @ [ch]) new_capacity fp)"

definition read_line :: "(nat \<Rightarrow> bool) \<Rightarrow> byte list \<Rightarrow> rline \<times> byte list" where
  "read_line alloc fp =
     (case read_chars alloc [] 0 fp of
        (RlLine data capacity, fp) \<Rightarrow>
          if data = [] then (RlFail, fp)
          else let grow = length data + 1 \<ge> capacity;
                   capacity = (if grow then length data + 1 else capacity)
               in if grow \<and> \<not> alloc capacity then (RlFail, fp)
                  else if length data \<ge> capacity then (RlFault, fp)
                  else (RlLine data capacity, fp)
      | r \<Rightarrow> r)"

lemma read_chars_length:
  "read_chars alloc data capacity fp = (RlLine d c, fp') \<Longrightarrow> length d + length fp' = length data + length fp"
  by (induction alloc data capacity fp rule: read_chars.induct) (auto simp: Let_def split: if_splits)

lemma read_line_consumes:
  assumes "read_line alloc fp = (RlLine data c, fp')"
  shows "length fp' < length fp"
proof -
  from assms obtain c' where "read_chars alloc [] 0 fp = (RlLine data c', fp')" "data \<noteq> []"
    unfolding read_line_def Let_def by (auto split: rline.splits prod.splits if_splits)
  with read_chars_length [OF this(1)] show ?thesis by (cases data) auto
qed

record GrepOptions =
  line_number :: bool
  invert_match :: bool
  count_only :: bool
  list_files :: bool

fun decimal :: "nat \<Rightarrow> byte list" where
  "decimal n = (if n < 10 then [of_nat (48 + n)] else decimal (n div 10) @ [of_nat (48 + n mod 10)])"

declare decimal.simps [simp del]

definition grep_prefix :: "byte list option \<Rightarrow> bool \<Rightarrow> byte list" where
  "grep_prefix filename multiple_files =
     (case filename of Some name \<Rightarrow> if multiple_files then name @ ascii '':'' else [] | None \<Rightarrow> [])"

function process_stream :: "(nat \<Rightarrow> bool) \<Rightarrow> (byte list \<Rightarrow> bool) \<Rightarrow> GrepOptions \<Rightarrow> byte list option \<Rightarrow> bool \<Rightarrow>
    byte list \<Rightarrow> nat \<Rightarrow> nat \<Rightarrow> byte list" where
  "process_stream alloc regexec options filename multiple_files fp number count =
     (case read_line alloc fp of
        (RlLine data capacity, fp) \<Rightarrow>
          let number = number + 1;
              matched = (regexec (fputs data) \<noteq> invert_match options);
              count = (if matched then count + 1 else count)
          in if matched \<and> list_files options
             then (case filename of Some name \<Rightarrow> name | None \<Rightarrow> ascii ''(null)'') @ [10]
             else (if matched \<and> \<not> count_only options
                   then grep_prefix filename multiple_files @
                        (if line_number options then decimal number @ ascii '':'' else []) @ fputs data @
                        (if last data \<noteq> 10 then [10] else [])
                   else []) @
                  process_stream alloc regexec options filename multiple_files fp number count
      | _ \<Rightarrow>
          if count_only options then grep_prefix filename multiple_files @ decimal count @ [10] else [])"
  by pat_completeness auto
termination
  by (relation "measure (\<lambda>(_, _, _, _, _, fp, _, _). length fp)") (auto intro: read_line_consumes [OF sym])

declare process_stream.simps [simp del]

lemma grown_enough: "len < capacity \<or> len = 0 \<and> capacity = 0 \<Longrightarrow> len + 1 < grown len capacity"
  by (auto simp: grown_def)

lemma read_chars_no_fault:
  "length data < capacity \<or> length data = 0 \<and> capacity = 0 \<Longrightarrow> fst (read_chars alloc data capacity fp) \<noteq> RlFault"
proof (induction alloc data capacity fp rule: read_chars.induct)
  case (2 alloc data capacity ch fp)
  note g = grown_enough [OF 2(2)]
  with 2(1) [OF refl] show ?case by (simp add: Let_def)
qed simp

text \<open>C31: The line buffer of \<open>custom_grep\<close> never overflows. For every input, every line length and every pattern of
  failing allocations, each character and the final NUL are stored inside the buffer as it has been
  allocated, which starts at 128 bytes and doubles.\<close>

theorem read_line_in_bounds:
  "fst (read_line alloc fp) \<noteq> RlFault \<and>
   (\<forall>data capacity. fst (read_line alloc fp) = RlLine data capacity \<longrightarrow> data \<noteq> [] \<and> length data < capacity)"
proof -
  obtain r fp' where r: "read_chars alloc [] 0 fp = (r, fp')" by (cases "read_chars alloc [] 0 fp")
  have "r \<noteq> RlFault" using read_chars_no_fault [of "[]" 0 alloc fp] r by simp
  then show ?thesis unfolding read_line_def r by (cases r) (simp_all add: Let_def)
qed

theorem read_line_in_bounds_witness:
  "read_line (\<lambda>_. True) (ascii ''ab'' @ [10, 99]) = (RlLine (ascii ''ab'' @ [10]) 128, [99]) \<and>
   length (ascii ''ab'' @ [10]) < 128"
proof -
  have r: "read_line (\<lambda>_. True) (ascii ''ab'' @ [10, 99]) = (RlLine (ascii ''ab'' @ [10]) 128, [99])"
    by (simp add: read_line_def Let_def ascii_def grown_def)
  with read_line_in_bounds [of "\<lambda>_. True" "ascii ''ab'' @ [10, 99]"] show ?thesis by simp
qed



section \<open>\<open>custom_cp\<close> and \<open>custom_cat\<close>\<close>

text \<open>
  The copying loop, the same in both programs. An entry of the schedule of writes is none when
  \<open>write\<close> takes all bytes, or how many it takes; the result is what has been written, the rest of the
  schedule, and whether every write was complete.
\<close>

function copy_loop :: "infile \<Rightarrow> nat option list \<Rightarrow> byte list \<Rightarrow> byte list \<times> nat option list \<times> bool" where
  "copy_loop fd_in ws out =
     (case uread_call 4096 fd_in of
        (None, _) \<Rightarrow> (out, ws, True)
      | (Some cs, fd_in') \<Rightarrow>
          if cs = [] then (out, ws, True)
          else (case ws of
                  Some k # ws' \<Rightarrow>
                    if k < length cs then (out @ take k cs, ws', False) else copy_loop fd_in' ws' (out @ cs)
                | _ \<Rightarrow> copy_loop fd_in' (drop 1 ws) (out @ cs)))"
  by pat_completeness auto
termination
  by (relation "measure (\<lambda>(f, _, _). length (fst f))") (auto intro: uread_shrinks [OF sym])

declare copy_loop.simps [simp del]

text \<open>
  \<open>custom_cp\<close>: the source if it can be opened, whether the destination can, and the writes; the
  result is the contents of the destination, if it has been created, and whether the status is success.
\<close>

definition custom_cp :: "infile option \<Rightarrow> bool \<Rightarrow> nat option list \<Rightarrow> byte list option \<times> bool" where
  "custom_cp source writable ws =
     (case source of
        None \<Rightarrow> (None, False)
      | Some fd_in \<Rightarrow>
          if \<not> writable then (None, False)
          else (case copy_loop fd_in ws [] of (out, _, complete) \<Rightarrow> (Some out, complete)))"

fun cat_files :: "infile option list \<Rightarrow> nat option list \<Rightarrow> byte list \<times> bool" where
  "cat_files [] ws = ([], True)"
| "cat_files (None # argv) ws = cat_files argv ws"
| "cat_files (Some fd # argv) ws =
     (case copy_loop fd ws [] of (out, ws, complete) \<Rightarrow>
        if complete then (case cat_files argv ws of (out', r) \<Rightarrow> (out @ out', r)) else (out, False))"

definition custom_cat :: "infile option list \<Rightarrow> nat option list \<Rightarrow> byte list \<times> bool" where
  "custom_cat argv ws = (if argv = [] then ([], False) else cat_files argv ws)"

lemma copy_loop_copies: "None \<notin> set ks \<Longrightarrow> copy_loop (bs, ks) [] out = (out @ bs, [], True)"
proof (induction "length bs" arbitrary: bs ks out rule: less_induct)
  case less
  from uread_call_total [OF less.prems] obtain cs f where r: "uread_call 4096 (bs, ks) = (Some cs, f)" by blast
  note rd = uread_call_Some [OF r]
  obtain bs' ks' where f: "f = (bs', ks')" by (cases f)
  have eq: "copy_loop (bs, ks) [] out = (if cs = [] then (out, [], True) else copy_loop (bs', ks') [] (out @ cs))"
    by (subst copy_loop.simps) (simp only: r f prod.case option.case list.case drop.simps)
  show ?case
  proof (cases "cs = []")
    case True
    with rd(3) eq show ?thesis by simp
  next
    case False
    have bs: "bs = cs @ bs'" and "set ks' \<subseteq> set ks" using rd(1,4) by (simp_all add: f)
    then have "length bs' < length bs" "None \<notin> set ks'" using False less.prems by auto
    from less.hyps [OF this] False show ?thesis unfolding eq by (simp add: bs)
  qed
qed




section \<open>\<open>custom_ls\<close> and the shell\<close>

definition custom_ls :: "byte list list \<Rightarrow> byte list" where
  "custom_ls entries = concat (map (\<lambda>name. name @ [32, 32]) (filter (\<lambda>name. at_list name 0 \<noteq> 46) entries)) @ [10]"

text \<open>\<open>strtok\<close> with the separators blank and tab: the next token, and what follows its separator.\<close>

definition strtok :: "byte list \<Rightarrow> (byte list \<times> byte list) option" where
  "strtok s =
     (let s = dropWhile (\<lambda>c. c = 32 \<or> c = 9) s
      in if s = [] then None
         else Some (takeWhile (\<lambda>c. \<not> (c = 32 \<or> c = 9)) s, drop 1 (dropWhile (\<lambda>c. \<not> (c = 32 \<or> c = 9)) s)))"

abbreviation MAX_ARGS :: nat where "MAX_ARGS \<equiv> 128"

fun parse_tokens :: "nat \<Rightarrow> byte list \<Rightarrow> byte list list" where
  "parse_tokens 0 line = []"
| "parse_tokens (Suc k) line =
     (case strtok line of None \<Rightarrow> [] | Some (token, rest) \<Rightarrow> token # parse_tokens k rest)"

definition parse_input :: "byte list \<Rightarrow> byte list list" where
  "parse_input line = parse_tokens (MAX_ARGS - 1) line"

lemma strtok_token:
  assumes "\<forall>c \<in> set w. c \<noteq> 32 \<and> c \<noteq> 9" and "w \<noteq> []"
  shows "strtok (w @ 32 # rest) = Some (w, rest)" and "strtok w = Some (w, [])"
proof -
  have d: "dropWhile (\<lambda>c. c = 32 \<or> c = 9) (w @ r) = w @ r" for r using assms by (cases w) auto
  show "strtok (w @ 32 # rest) = Some (w, rest)"
    using assms by (auto simp: strtok_def Let_def d takeWhile_append2 dropWhile_append2)
  show "strtok w = Some (w, [])"
    using assms d [of "[]"] by (simp add: strtok_def Let_def takeWhile_eq_all_conv [THEN iffD2] dropWhile_eq_Nil_conv [THEN iffD2])
qed

lemma parse_tokens_Nil [simp]: "parse_tokens k [] = []"
  by (cases k) (simp_all add: strtok_def)

fun join_words :: "byte list list \<Rightarrow> byte list" where
  "join_words [] = []"
| "join_words [w] = w"
| "join_words (w # v # ws) = w @ 32 # join_words (v # ws)"

text \<open>C32: The shell finds the words of a command line: joining at most 127 words without blanks by single blanks and
  parsing the result gives the words back. The argument array of 128 entries, the terminating null
  pointer included, is never exceeded, for any line.\<close>

theorem parse_input_words:
  assumes "\<forall>w \<in> set ws. w \<noteq> [] \<and> (\<forall>c \<in> set w. c \<noteq> 32 \<and> c \<noteq> 9)" and "length ws < MAX_ARGS"
  shows "parse_input (join_words ws) = ws \<and> length (parse_input line) + 1 \<le> MAX_ARGS"
proof -
  have words: "parse_tokens k (join_words ws) = ws" if "length ws \<le> k" for k
    using assms(1) that
  proof (induction ws arbitrary: k rule: join_words.induct)
    case 1
    then show ?case by simp
  next
    case (2 w)
    then show ?case by (cases k) (simp_all add: strtok_token(2))
  next
    case (3 w v ws)
    then show ?case by (cases k) (simp_all add: strtok_token(1))
  qed
  have "length (parse_tokens k line) \<le> k" for k
    by (induction k arbitrary: line) (auto split: option.split)
  from this [of 127] words [of 127] assms(2) show ?thesis unfolding parse_input_def by simp
qed

theorem parse_input_words_witness:
  "parse_input (ascii ''custom_cp a b'') = [ascii ''custom_cp'', ascii ''a'', ascii ''b'']"
proof -
  have "parse_input (join_words [ascii ''custom_cp'', ascii ''a'', ascii ''b'']) = [ascii ''custom_cp'', ascii ''a'', ascii ''b'']"
    by (rule parse_input_words [THEN conjunct1]) (simp_all add: ascii_def)
  then show ?thesis by (simp add: ascii_def)
qed

end
