(* ===== verification/Spec2Isabelle.thy ===== *)
theory Spec2Isabelle
  imports Callspec Uprintf Grep Utils
begin

text \<open>
  A verification development for the xv6 kernel for RISC-V with the system calls added by group 14
  (\<open>src/G14_Project1_xv6CustomizeSystemCalls/xv6-riscv\<close>), for parts of its user programs, and for the Unix utilities of
  the second project (\<open>src/G14_Project2_1_Linux_Commands/src\<close>).

  \<^bold>\<open>The program.\<close> The kernel hands out physical pages, builds page tables from them, and keeps a table
  of 64 processes. A disk is read through a cache of 30 buffers; a write-ahead log on top of the cache
  makes groups of block writes atomic; inodes, directories and path names are built on the log. Open
  files lead to inodes, to pipes or to the console, which sits on the serial port. A trap from user
  space enters the kernel, which serves an interrupt or dispatches a system call; a process that has
  to wait sleeps on a channel and the scheduler takes another one. The group added process
  inspection, \<open>waitpid\<close> and \<open>getchildren\<close>, signals, messages between processes, process copies called
  threads, and a limit on the number of children.

  \<^bold>\<open>How it is modelled.\<close> Every routine of the kernel is a function from a state to an outcome
  (\<open>Kprelude\<close>): a return, a \<open>panic\<close>, going to sleep on a channel, giving up the processor, or an access that C leaves
  undefined. The state is one record that grows along the components: \<open>machine\<close> (memory and free list),
  \<open>pstate\<close> (process table), \<open>bstate\<close> (buffers and disk), \<open>lstate\<close> (log), \<open>fstate\<close> (inodes), \<open>uartstate\<close>, \<open>constate\<close>,
  \<open>iostate\<close> (files and pipes), \<open>vstate\<close> (disk queue), \<open>kernel\<close> (control registers). A routine is polymorphic in
  the fields it does not know, so each theory reads like its C file. Machine words keep their
  width; addresses, sizes and ring indices wrap as in C, and counters of the kernel that are C
  integers (process ids, reference counts) are integers. Memory is a function from 64-bit addresses to bytes, and
  page tables, the free list and user data live in it; a pointer to a table entry is its index. A loop that sleeps is modelled
  up to its next sleep, and where it goes on in the middle its position is part of the outcome. Each
  spin lock protected section is one step; the locks themselves are modelled in \<open>Locks\<close>, where all
  interleavings of several processors are considered.

  \<^bold>\<open>The theories of the kernel.\<close>
  \<^item> \<open>Kprelude\<close>: words, outcomes and their sequencing, list and layout lemmas.
  \<^item> \<open>Cstring\<close> (\<open>kernel/string.c\<close>): correctness of \<open>memmove\<close> under every overlap, bounds and termination of the
    string copies, comparison as equality, \<open>strlen\<close> returning exactly on terminated strings.
  \<^item> \<open>Kalloc\<close> (\<open>kernel/kalloc.c\<close>): the free list in memory implements the interface \<open>page_allocator\<close>: pages are
    handed out once, \<open>kinit\<close> frees all of them, freeing and allocating round-trip.
  \<^item> \<open>Kstate\<close> (\<open>kernel/proc.h\<close> and the helpers of \<open>kernel/proc.c\<close>), \<open>Locks\<close> (\<open>kernel/spinlock.c\<close>, \<open>kernel/sleeplock.c\<close>): mutual
    exclusion of spin locks over an \<open>inductive\<close> step relation of processors.
  \<^item> \<open>Vm\<close>, \<open>Uspace\<close> (\<open>kernel/vm.c\<close>): Sv39 walks, mapping, growing and copying address spaces; \<open>copyout\<close> and
    \<open>copyin\<close> round-trip and refuse bad addresses.
  \<^item> \<open>Bio\<close> (\<open>kernel/bio.c\<close>): the cache implements the interface \<open>block_cache\<close>; \<open>bread\<close> returns the current block.
  \<^item> \<open>Klog\<close> (\<open>kernel/log.c\<close>): a crash at any disk write of \<open>commit\<close> leaves all or nothing of a transaction; the
    log never overflows.
  \<^item> \<open>Fs\<close> (\<open>kernel/fs.c\<close>), \<open>File\<close> (\<open>kernel/file.c\<close>), \<open>Pipe\<close> (\<open>kernel/pipe.c\<close>, with the interface \<open>bounded_queue\<close>:
    a pipe is a bounded queue under every interleaving of its ends).
  \<^item> \<open>Printf\<close> (\<open>kernel/uart.c\<close>, \<open>kernel/printf.c\<close>), \<open>Console\<close> (\<open>kernel/console.c\<close>): printed numbers read back; the
    input interrupt refines a line editor.
  \<^item> \<open>Proc\<close> (\<open>kernel/proc.c\<close>), \<open>Exec\<close> (\<open>kernel/exec.c\<close>), \<open>Sysarg\<close>, \<open>Sysfile\<close>, \<open>Sysproc\<close> (\<open>kernel/syscall.c\<close>, \<open>kernel/sysfile.c\<close>,
    \<open>kernel/sysproc.c\<close>), \<open>Virtio\<close> (\<open>kernel/virtio_disk.c\<close>), \<open>Trap\<close> (\<open>kernel/trap.c\<close>, \<open>kernel/plic.c\<close>, \<open>kernel/main.c\<close>, the system call table): the definitions.
  \<^item> \<open>Kinv\<close>: the calculus \<open>yields\<close> for outcomes and the interface \<open>kernel_inv\<close>, what a predicate on states must be
    closed under to be kept by the routines of memory, disk, files and console; each routine is shown
    to keep it once, and the interface is interpreted several times, for the well-formedness of all tables and for relations
    between process tables (\<open>proc_relation\<close>).
  \<^item> \<open>Procinv\<close>: the routines of \<open>Proc\<close> in this calculus, the effect of \<open>fork\<close>, and fairness of the scheduler.
  \<^item> \<open>Sysinv\<close>: every system call, interrupt and trap keeps the kernel well formed.
  \<^item> \<open>Callspec\<close>: single calls: \<open>fork\<close>, signals, messages, \<open>exec\<close> arguments, descriptors, \<open>kill\<close>, unknown numbers.

  \<^bold>\<open>The theories of the programs.\<close> \<open>Ulib\<close> (\<open>user/ulib.c\<close>; its \<open>memmove\<close> agrees with the kernel's), \<open>Uprintf\<close>
  (\<open>user/printf.c\<close>; \<open>atoi\<close> reads printed numbers back), \<open>Grep\<close> (\<open>user/grep.c\<close>; the matcher decides the
  language of the pattern, the program prints the matching lines), \<open>Wc\<close> (\<open>user/wc.c\<close> and \<open>custom_wc.c\<close>,
  which agree), \<open>Utils\<close> (\<open>custom_echo.c\<close>, \<open>custom_grep.c\<close>, \<open>custom_cp.c\<close>, \<open>custom_cat.c\<close>, \<open>custom_ls.c\<close>, the parser of \<open>shell.c\<close>).
  An input is its bytes with a schedule of what each \<open>read\<close> returns, so that the results hold for every way an input is cut into pieces.

  \<^bold>\<open>Bounds and fuel.\<close> No function needs fuel: loops are structural or have a termination proof (a
  measure on the remaining range, on a wrapping distance, or on the remaining input), and \<open>strlen\<close>, which may run forever, is a
  partial function whose domain is a theorem. The constants are those of \<open>kernel/param.h\<close> and \<open>kernel/fs.h\<close>.

  \<^bold>\<open>Parameters.\<close> The devices are inputs: the disk is a map from block numbers to blocks, and the record
  \<open>hw\<close> holds what the interrupt controller, the serial port, the disk registers and the clock say. The
  contents of uninitialised memory are the field \<open>junk\<close>. In \<open>Utils\<close> the matcher \<open>regexec\<close> and the success of \<open>realloc\<close> are
  arguments.

  \<^bold>\<open>Not modelled.\<close> The assembly files and \<open>kernel/start.c\<close> (registers and privilege levels below the
  model; a context switch is an outcome), \<open>sched\<close> (its checks concern the spin locks each section
  holds), initialisation of locks, the shell \<open>user/sh.c\<close>, the allocator \<open>user/umalloc.c\<close>, \<open>mkfs\<close>, the small user
  programs that are sequences of system calls, the test programs, \<open>custom_rm\<close> and \<open>custom_mv\<close> (the file system of the host), and
  the option parsing of \<open>custom_wc\<close> and \<open>custom_grep\<close>. Well-formedness of the kernel does not include reference counts of files
  and inodes, and the theorems on traps say nothing about outcomes that are a \<open>panic\<close> or an undefined access.
\<close>

end
